(* ===== verification/Prelude.thy ===== *)
theory Prelude
  imports Main "HOL-Library.Word" "HOL-Library.Monad_Syntax"
begin

text \<open>
  Shared vocabulary of the development: the machine types of the Go program
  (bytes, 16/32/64-bit unsigned integers), byte slices, the big-endian codec of
  \<^verbatim>\<open>encoding/binary\<close>, loops that can panic, and the fact collections the
  component theories extend.

  A Go computation that can panic (slice or index out of range, nil
  dereference) returns an \<^typ>\<open>'a option\<close>; \<^const>\<open>None\<close> is the panic.  A Go
  \<^verbatim>\<open>error\<close> result is an ordinary value of the model.
\<close>

named_theorems go_eval \<open>unfolding rules of Go primitives (slices, codecs, loops)\<close>
named_theorems frame_simps \<open>what an operation leaves untouched in its state\<close>
named_theorems inv_intros \<open>introduction rules of component invariants\<close>

unbundle bit_operations_syntax

subsection \<open>Machine types\<close>

type_synonym byte = "8 word"
type_synonym bytes = "byte list"
type_synonym u16 = "16 word"
type_synonym u32 = "32 word"
type_synonym u64 = "64 word"
type_synonym duration = int

abbreviation zeros :: "nat \<Rightarrow> bytes" where
  "zeros n \<equiv> replicate n 0"

text \<open>\<^verbatim>\<open>[32]byte\<close> values are byte lists of length 32.\<close>

abbreviation zero32 :: bytes where
  "zero32 \<equiv> zeros 32"

subsection \<open>Loops and guards that may panic\<close>

definition require :: "bool \<Rightarrow> unit option" where
  "require P = (if P then Some () else None)"

lemma require_bind [simp]: "(require P \<bind> f) = (if P then f () else None)"
  by (simp add: require_def)

fun fold_opt :: "('a \<Rightarrow> 's \<Rightarrow> 's option) \<Rightarrow> 'a list \<Rightarrow> 's \<Rightarrow> 's option" where
  "fold_opt f [] s = Some s"
| "fold_opt f (x # xs) s = f x s \<bind> fold_opt f xs"

lemma fold_opt_append:
  "fold_opt f (xs @ ys) s = fold_opt f xs s \<bind> fold_opt f ys"
proof (induction xs arbitrary: s)
  case (Cons x xs)
  then show ?case by (cases "f x s") simp_all
qed simp

lemma fold_opt_snoc: "fold_opt f (xs @ [x]) s = fold_opt f xs s \<bind> f x"
proof (cases "fold_opt f xs s")
  case (Some t)
  then show ?thesis by (cases "f x t") (simp_all add: fold_opt_append)
qed (simp add: fold_opt_append)

lemma fold_opt_total:
  assumes "P s" and "\<And>x s. x \<in> set xs \<Longrightarrow> P s \<Longrightarrow> \<exists>t. f x s = Some t \<and> P t"
  shows "\<exists>t. fold_opt f xs s = Some t \<and> P t"
  using assms
proof (induction xs arbitrary: s)
  case (Cons x xs)
  then obtain t where "f x s = Some t" "P t"
    by (meson list.set_intros(1))
  with Cons show ?case by simp
qed simp

lemma fold_opt_inv:
  assumes "fold_opt f xs s = Some t" and "P s"
    and "\<And>x s t. x \<in> set xs \<Longrightarrow> P s \<Longrightarrow> f x s = Some t \<Longrightarrow> P t"
  shows "P t"
  using assms
proof (induction xs arbitrary: s)
  case (Cons x xs)
  then obtain u where u: "f x s = Some u" "fold_opt f xs u = Some t"
    by (auto simp: bind_eq_Some_conv)
  have "P u" using Cons.prems(2,3) u(1) by (meson list.set_intros(1))
  then show ?case using Cons.IH [of u] u(2) Cons.prems(3) by (meson list.set_intros(2))
qed simp

lemma fold_opt_pure:
  assumes "\<And>x s. x \<in> set xs \<Longrightarrow> f x s = Some (g x s)"
  shows "fold_opt f xs s = Some (fold g xs s)"
  using assms by (induction xs arbitrary: s) simp_all

lemma fold_opt_cong:
  assumes "\<And>x s. x \<in> set xs \<Longrightarrow> f x s = g x s"
  shows "fold_opt f xs s = fold_opt g xs s"
  using assms
proof (induction xs arbitrary: s)
  case (Cons x xs)
  then have "f x s = g x s" "\<And>t. fold_opt f xs t = fold_opt g xs t" by simp_all
  then have "f x s \<bind> fold_opt f xs = g x s \<bind> fold_opt g xs"
    by (cases "g x s") simp_all
  then show ?case by simp
qed simp

subsection \<open>Byte slices\<close>

text \<open>\<^verbatim>\<open>b[i:j]\<close>; the slice expression panics outside the length.\<close>

definition gslice :: "nat \<Rightarrow> nat \<Rightarrow> bytes \<Rightarrow> bytes option" where
  "gslice i j b = (if i \<le> j \<and> j \<le> length b then Some (take (j - i) (drop i b)) else None)"

text \<open>\<^verbatim>\<open>b[i]\<close>.\<close>

definition index :: "'a list \<Rightarrow> nat \<Rightarrow> 'a option" where
  "index b i = (if i < length b then Some (b ! i) else None)"

text \<open>\<^verbatim>\<open>copy(b[i:i+len(v)], v)\<close> and the \<^verbatim>\<open>Put\<close> functions of
  \<^verbatim>\<open>encoding/binary\<close>: write \<open>v\<close> over \<open>b\<close> at offset \<open>i\<close>.\<close>

definition overwrite :: "nat \<Rightarrow> bytes \<Rightarrow> bytes \<Rightarrow> bytes option" where
  "overwrite i v b =
     (if i + length v \<le> length b
      then Some (take i b @ v @ drop (i + length v) b) else None)"

lemma take_drop_split: "drop i b = take k (drop i b) @ drop (i + k) b"
  using append_take_drop_id [of k "drop i b"] by (simp add: drop_drop add.commute)

lemma gslice_Some_iff [simp]:
  "(gslice i j b = Some c) \<longleftrightarrow> i \<le> j \<and> j \<le> length b \<and> c = take (j - i) (drop i b)"
  by (auto simp: gslice_def)

lemma gslice_ok [go_eval]:
  "i \<le> j \<Longrightarrow> j \<le> length b \<Longrightarrow> gslice i j b = Some (take (j - i) (drop i b))"
  by (simp add: gslice_def)

lemma gslice_length: "gslice i j b = Some c \<Longrightarrow> length c = j - i"
  by auto

lemma gslice_all [simp]: "gslice 0 (length b) b = Some b"
  by (simp add: gslice_def)

lemma gslice_empty: "i \<le> length b \<Longrightarrow> gslice i i b = Some []"
  by (simp add: gslice_def)

lemma gslice_append_adjacent:
  assumes "gslice i j b = Some c" "gslice j k b = Some d"
  shows "gslice i k b = Some (c @ d)"
proof -
  from assms have ijk: "i \<le> j" "j \<le> k" "k \<le> length b" by auto
  have "take (k - i) (drop i b) = take (j - i) (drop i b) @ take (k - j) (drop (j - i) (drop i b))"
    using ijk by (metis add_diff_inverse_nat diff_add_assoc2 diff_diff_left le_add_diff_inverse
        not_less take_add)
  then show ?thesis using assms ijk by (simp add: drop_drop)
qed

lemma index_ok [go_eval]: "i < length b \<Longrightarrow> index b i = Some (b ! i)"
  by (simp add: index_def)

lemma index_Some_iff [simp]: "(index b i = Some x) \<longleftrightarrow> i < length b \<and> x = b ! i"
  by (auto simp: index_def)

lemma overwrite_ok [go_eval]:
  "i + length v \<le> length b \<Longrightarrow>
   overwrite i v b = Some (take i b @ v @ drop (i + length v) b)"
  by (simp add: overwrite_def)

lemma overwrite_length: "overwrite i v b = Some c \<Longrightarrow> length c = length b"
  by (auto simp: overwrite_def split: if_splits)

lemma overwrite_Some_iff:
  "(overwrite i v b = Some c) \<longleftrightarrow>
   i + length v \<le> length b \<and> c = take i b @ v @ drop (i + length v) b"
  by (auto simp: overwrite_def)

lemma overwrite_nth_outside:
  assumes "overwrite i v b = Some c" and "k < i \<or> i + length v \<le> k" and "k < length b"
  shows "c ! k = b ! k"
  using assms
  by (auto simp: overwrite_Some_iff nth_append min_def add.commute)

lemma overwrite_slice_same:
  assumes "overwrite i v b = Some c"
  shows "gslice i (i + length v) c = Some v"
  using assms by (auto simp: overwrite_Some_iff)

lemma overwrite_slice_disjoint:
  assumes c: "overwrite i v b = Some c" and jk: "k \<le> i \<or> i + length v \<le> j"
  shows "gslice j k c = gslice j k b"
proof (cases "j \<le> k \<and> k \<le> length b")
  case True
  have len: "length c = length b" using c by (rule overwrite_length)
  have "take (k - j) (drop j c) = take (k - j) (drop j b)"
  proof (rule nth_equalityI)
    fix n assume "n < length (take (k - j) (drop j c))"
    then have n: "n < k - j" "j + n < length b" using len True by auto
    then show "take (k - j) (drop j c) ! n = take (k - j) (drop j b) ! n"
      using overwrite_nth_outside [OF c, of "j + n"] jk True len by force
  qed (use len in simp)
  then show ?thesis using len by (simp add: gslice_def)
qed (use c overwrite_length [OF c] in \<open>auto simp: gslice_def\<close>)

subsection \<open>Big-endian integers\<close>

definition be_nat :: "bytes \<Rightarrow> nat" where
  "be_nat bs = foldl (\<lambda>a b. a * 256 + unat b) 0 bs"

fun nat_be :: "nat \<Rightarrow> nat \<Rightarrow> bytes" where
  "nat_be 0 x = []"
| "nat_be (Suc n) x = nat_be n (x div 256) @ [of_nat (x mod 256)]"

lemma nat_be_length [simp]: "length (nat_be n x) = n"
  by (induction n arbitrary: x) simp_all

lemma be_nat_Nil [simp]: "be_nat [] = 0"
  by (simp add: be_nat_def)

lemma be_nat_snoc [simp]: "be_nat (bs @ [b]) = be_nat bs * 256 + unat b"
  by (simp add: be_nat_def)

lemma be_nat_zeros [simp]: "be_nat (zeros n) = 0"
  by (induction n) (simp_all flip: replicate_append_same)

lemma be_nat_Cons: "be_nat (b # bs) = unat b * 256 ^ length bs + be_nat bs"
proof (induction bs rule: rev_induct)
  case (snoc x xs)
  have "be_nat (b # xs @ [x]) = be_nat (b # xs) * 256 + unat x"
    using be_nat_snoc [of "b # xs" x] by simp
  with snoc show ?case by (simp add: distrib_right)
qed (simp add: be_nat_def)

lemma unat_byte_less [simp]: "unat (b :: byte) < 256"
  using unsigned_less [of b, where 'a = nat] by simp

lemma unat_of_nat_byte [simp]: "unat (of_nat (x mod 256) :: byte) = x mod 256"
  by (simp add: unat_of_nat take_bit_eq_mod)

lemma be_nat_nat_be: "be_nat (nat_be n x) = x mod 256 ^ n"
proof (induction n arbitrary: x)
  case (Suc n)
  have "x mod 256 ^ Suc n = x mod (256 * 256 ^ n)" by simp
  also have "\<dots> = 256 * (x div 256 mod 256 ^ n) + x mod 256"
    by (rule mod_mult2_eq)
  finally show ?case using Suc by (simp add: mult.commute)
qed simp

lemma be_nat_less: "be_nat bs < 256 ^ length bs"
proof (induction bs rule: rev_induct)
  case (snoc b bs)
  have "be_nat bs * 256 + unat b < be_nat bs * 256 + 256" by simp
  also have "\<dots> = Suc (be_nat bs) * 256" by simp
  also have "\<dots> \<le> 256 ^ length bs * 256" using snoc by (intro mult_le_mono1) simp
  finally show ?case by (simp add: mult.commute)
qed simp

lemma nat_be_be_nat: "nat_be (length bs) (be_nat bs) = bs"
proof (induction bs rule: rev_induct)
  case (snoc b bs)
  have "(be_nat bs * 256 + unat b) div 256 = be_nat bs"
    "(be_nat bs * 256 + unat b) mod 256 = unat b"
    by simp_all
  with snoc show ?case by simp
qed simp

lemma be_nat_inj: "length a = length b \<Longrightarrow> be_nat a = be_nat b \<longleftrightarrow> a = b"
  by (metis nat_be_be_nat)

text \<open>\<^verbatim>\<open>binary.BigEndian.Uint16/32/64\<close>: panic on a short slice, ignore the tail.\<close>

definition BE_Uint16 :: "bytes \<Rightarrow> u16 option" where
  "BE_Uint16 b = (if 2 \<le> length b then Some (of_nat (be_nat (take 2 b))) else None)"

definition BE_Uint32 :: "bytes \<Rightarrow> u32 option" where
  "BE_Uint32 b = (if 4 \<le> length b then Some (of_nat (be_nat (take 4 b))) else None)"

definition BE_Uint64 :: "bytes \<Rightarrow> u64 option" where
  "BE_Uint64 b = (if 8 \<le> length b then Some (of_nat (be_nat (take 8 b))) else None)"

definition be_bytes64 :: "u64 \<Rightarrow> bytes" where
  "be_bytes64 w = nat_be 8 (unat w)"

definition be_bytes32 :: "u32 \<Rightarrow> bytes" where
  "be_bytes32 w = nat_be 4 (unat w)"

text \<open>\<^verbatim>\<open>binary.BigEndian.PutUint64(b[i:i+8], w)\<close>.\<close>

definition BE_PutUint64 :: "nat \<Rightarrow> u64 \<Rightarrow> bytes \<Rightarrow> bytes option" where
  "BE_PutUint64 i w b = overwrite i (be_bytes64 w) b"

lemma be_bytes64_length [simp]: "length (be_bytes64 w) = 8"
  by (simp add: be_bytes64_def)

lemma be_bytes32_length [simp]: "length (be_bytes32 w) = 4"
  by (simp add: be_bytes32_def)

lemma BE_Uint64_put [simp]: "BE_Uint64 (be_bytes64 w @ rest) = Some w"
  using unsigned_less [of w, where 'a = nat]
  by (simp add: BE_Uint64_def be_bytes64_def be_nat_nat_be)

lemma BE_Uint64_put' [simp]: "BE_Uint64 (be_bytes64 w) = Some w"
  using BE_Uint64_put [of w "[]"] by simp

lemma be_bytes64_of_nat [simp]:
  "length b = 8 \<Longrightarrow> be_bytes64 (of_nat (be_nat b)) = b"
  using nat_be_be_nat [of b] be_nat_less [of b]
  by (simp add: be_bytes64_def unat_of_nat take_bit_nat_eq_self)

lemma be_bytes64_inj: "be_bytes64 v = be_bytes64 w \<Longrightarrow> v = w"
  by (metis BE_Uint64_put' option.inject)

lemma BE_Uint32_put [simp]: "BE_Uint32 (be_bytes32 w @ rest) = Some w"
  using unsigned_less [of w, where 'a = nat]
  by (simp add: BE_Uint32_def be_bytes32_def be_nat_nat_be)

lemmas BE_defs = BE_Uint16_def BE_Uint32_def BE_Uint64_def BE_PutUint64_def

subsection \<open>Association lists\<close>

text \<open>A Go map whose iteration order or size matters is an association list
  with distinct keys.\<close>

fun al_put :: "'k \<Rightarrow> 'v \<Rightarrow> ('k \<times> 'v) list \<Rightarrow> ('k \<times> 'v) list" where
  "al_put k v [] = [(k, v)]"
| "al_put k v ((k', v') # m) = (if k = k' then (k, v) # m else (k', v') # al_put k v m)"

definition al_del :: "'k \<Rightarrow> ('k \<times> 'v) list \<Rightarrow> ('k \<times> 'v) list" where
  "al_del k m = filter (\<lambda>p. fst p \<noteq> k) m"

lemma map_of_al_put [simp]: "map_of (al_put k v m) = (map_of m)(k \<mapsto> v)"
  by (induction k v m rule: al_put.induct) auto

lemma map_of_al_del [simp]: "map_of (al_del k m) = (map_of m)(k := None)"
  by (induction m) (auto simp: al_del_def)

lemma fst_set_al_put [simp]: "fst ` set (al_put k v m) = insert k (fst ` set m)"
  by (induction k v m rule: al_put.induct) auto

lemma distinct_al_put [simp]:
  "distinct (map fst (al_put k v m)) \<longleftrightarrow> distinct (map fst m)"
proof (induction k v m rule: al_put.induct)
  case (2 k v k' v' m)
  have "k' \<in> fst ` set (al_put k v m) \<longleftrightarrow> k' = k \<or> k' \<in> fst ` set m" by simp
  with 2 show ?case by (auto simp del: fst_set_al_put)
qed simp

lemma distinct_al_del [intro]:
  "distinct (map fst m) \<Longrightarrow> distinct (map fst (al_del k m))"
  unfolding al_del_def by (rule distinct_map_filter)

lemma length_al_put:
  "length (al_put k v m) = (if k \<in> fst ` set m then length m else Suc (length m))"
  by (induction k v m rule: al_put.induct) auto

lemma length_al_del_less:
  "k \<in> fst ` set m \<Longrightarrow> length (al_del k m) < length m"
  unfolding al_del_def by (auto intro!: length_filter_less)

end
