(* ===== verification/Sha256.thy ===== *)
theory Sha256
  imports Prelude
begin

text \<open>
  The SHA-256 function of Go's \<^verbatim>\<open>crypto/sha256\<close> (FIPS 180-4), which the
  forwarder calls for the payload-hash gate, the subtree Merkle root and the
  BEEF dedup key: padding, message schedule, compression and the double hash.
  The only fact the rest of the development needs of it is that a digest has
  32 bytes; every statement that mentions a digest mentions this function.
  The constants are checked against the roots of primes the standard defines them by.
\<close>

definition sha_K :: "u32 list" where
  "sha_K =
    [
     1116352408, 1899447441, 3049323471, 3921009573, 961987163, 1508970993,
     2453635748, 2870763221, 3624381080, 310598401, 607225278, 1426881987,
     1925078388, 2162078206, 2614888103, 3248222580, 3835390401, 4022224774,
     264347078, 604807628, 770255983, 1249150122, 1555081692, 1996064986,
     2554220882, 2821834349, 2952996808, 3210313671, 3336571891, 3584528711,
     113926993, 338241895, 666307205, 773529912, 1294757372, 1396182291,
     1695183700, 1986661051, 2177026350, 2456956037, 2730485921, 2820302411,
     3259730800, 3345764771, 3516065817, 3600352804, 4094571909, 275423344,
     430227734, 506948616, 659060556, 883997877, 958139571, 1322822218,
     1537002063, 1747873779, 1955562222, 2024104815, 2227730452, 2361852424,
     2428436474, 2756734187, 3204031479, 3329325298]"

definition sha_H0 :: "u32 list" where
  "sha_H0 =
    [
     1779033703, 3144134277, 1013904242, 2773480762, 1359893119, 2600822924,
     528734635, 1541459225]"

definition sha_ch :: "u32 \<Rightarrow> u32 \<Rightarrow> u32 \<Rightarrow> u32" where
  "sha_ch x y z = (x AND y) XOR ((NOT x) AND z)"

definition sha_maj :: "u32 \<Rightarrow> u32 \<Rightarrow> u32 \<Rightarrow> u32" where
  "sha_maj x y z = (x AND y) XOR (x AND z) XOR (y AND z)"

definition sha_S0 :: "u32 \<Rightarrow> u32" where
  "sha_S0 x = word_rotr 2 x XOR word_rotr 13 x XOR word_rotr 22 x"

definition sha_S1 :: "u32 \<Rightarrow> u32" where
  "sha_S1 x = word_rotr 6 x XOR word_rotr 11 x XOR word_rotr 25 x"

definition sha_s0 :: "u32 \<Rightarrow> u32" where
  "sha_s0 x = word_rotr 7 x XOR word_rotr 18 x XOR drop_bit 3 x"

definition sha_s1 :: "u32 \<Rightarrow> u32" where
  "sha_s1 x = word_rotr 17 x XOR word_rotr 19 x XOR drop_bit 10 x"

fun sha_words :: "bytes \<Rightarrow> u32 list" where
  "sha_words (a # b # c # d # bs) = of_nat (be_nat [a, b, c, d]) # sha_words bs"
| "sha_words _ = []"

fun sha_schedule :: "nat \<Rightarrow> u32 list \<Rightarrow> u32 list" where
  "sha_schedule 0 ws = ws"
| "sha_schedule (Suc n) ws =
     (let t = length ws in
      sha_schedule n (ws @ [sha_s1 (ws ! (t - 2)) + ws ! (t - 7)
                            + sha_s0 (ws ! (t - 15)) + ws ! (t - 16)]))"

definition sha_round :: "u32 \<times> u32 \<Rightarrow> u32 list \<Rightarrow> u32 list" where
  "sha_round kw hs =
     (let a = hs ! 0; b = hs ! 1; c = hs ! 2; d = hs ! 3;
          e = hs ! 4; f = hs ! 5; g = hs ! 6; h = hs ! 7;
          t1 = h + sha_S1 e + sha_ch e f g + fst kw + snd kw;
          t2 = sha_S0 a + sha_maj a b c
      in [t1 + t2, a, b, c, d + t1, e, f, g])"

definition sha_rounds :: "(u32 \<times> u32) list \<Rightarrow> u32 list \<Rightarrow> u32 list" where
  "sha_rounds kws hs = fold sha_round kws hs"

definition sha_block :: "u32 list \<Rightarrow> bytes \<Rightarrow> u32 list" where
  "sha_block hs blk =
     map2 (+) hs (sha_rounds (zip sha_K (sha_schedule 48 (sha_words blk))) hs)"

definition sha_pad :: "bytes \<Rightarrow> bytes" where
  "sha_pad m =
     m @ [0x80] @ zeros ((119 - length m mod 64) mod 64) @ nat_be 8 (8 * length m)"

function sha_blocks :: "u32 list \<Rightarrow> bytes \<Rightarrow> u32 list" where
  "sha_blocks hs m =
     (if length m < 64 then hs else sha_blocks (sha_block hs (take 64 m)) (drop 64 m))"
  by pat_completeness auto
termination by (relation "measure (\<lambda>(hs, m). length m)") auto

declare sha_blocks.simps [simp del]

text \<open>\<^verbatim>\<open>sha256.Sum256\<close>.\<close>

definition sha256 :: "bytes \<Rightarrow> bytes" where
  "sha256 m = concat (map be_bytes32 (sha_blocks sha_H0 (sha_pad m)))"

text \<open>The double hash of block headers, transactions and Merkle nodes.\<close>

definition sha256d :: "bytes \<Rightarrow> bytes" where
  "sha256d m = sha256 (sha256 m)"

lemma sha_round_length [simp]: "length (sha_round kw hs) = 8"
  by (simp add: sha_round_def Let_def)

lemma sha_rounds_length: "length hs = 8 \<Longrightarrow> length (sha_rounds kws hs) = 8"
  unfolding sha_rounds_def by (induction kws arbitrary: hs) simp_all

lemma sha_block_length: "length hs = 8 \<Longrightarrow> length (sha_block hs blk) = 8"
  by (simp add: sha_block_def sha_rounds_length)

lemma sha_blocks_length: "length hs = 8 \<Longrightarrow> length (sha_blocks hs m) = 8"
proof (induction hs m rule: sha_blocks.induct)
  case (1 hs m)
  then show ?case by (subst sha_blocks.simps) (simp add: sha_block_length)
qed

lemma length_concat_be32 [simp]: "length (concat (map be_bytes32 ws)) = 4 * length ws"
  by (induction ws) simp_all

lemma sha256_length [simp]: "length (sha256 m) = 32"
  by (simp add: sha256_def sha_blocks_length sha_H0_def)

lemma sha256d_length [simp]: "length (sha256d m) = 32"
  by (simp add: sha256d_def)

text \<open>The constants are those of the standard: the first 32 bits of the fractional parts of the cube roots of the first 64
  primes, and of the square roots of the first eight.\<close>

definition sha_primes :: "nat list" where
  "sha_primes =
     [2, 3, 5, 7, 11, 13, 17, 19, 23, 29, 31, 37, 41, 43, 47, 53, 59, 61, 67, 71, 73, 79, 83, 89, 97, 101, 103,
      107, 109, 113, 127, 131, 137, 139, 149, 151, 157, 163, 167, 173, 179, 181, 191, 193, 197, 199, 211, 223,
      227, 229, 233, 239, 241, 251, 257, 263, 269, 271, 277, 281, 283, 293, 307, 311]"

definition fracRoot :: "nat \<Rightarrow> nat \<Rightarrow> u32 \<Rightarrow> bool" where
  "fracRoot e p k \<longleftrightarrow>
     (\<exists>n \<in> {1, 2, 3, 4, 5, 6}. n ^ e \<le> p \<and> p < (n + 1) ^ e \<and>
        (n * 2 ^ 32 + unat k) ^ e \<le> p * 2 ^ (32 * e) \<and> p * 2 ^ (32 * e) < (n * 2 ^ 32 + unat k + 1) ^ e)"

lemma sha_K_cube_roots: "list_all2 (fracRoot 3) sha_primes sha_K"
  by (simp add: sha_primes_def sha_K_def fracRoot_def, simp add: power2_eq_square power3_eq_cube)

lemma sha_H0_square_roots: "list_all2 (fracRoot 2) (take 8 sha_primes) sha_H0"
  by (simp add: sha_primes_def sha_H0_def fracRoot_def, simp add: power2_eq_square power3_eq_cube)

end
