(* ===== verification/SubtreeRoot.thy ===== *)
theory SubtreeRoot
  imports Sha256 "HOL-Library.Multiset"
begin

text \<open>
  \<^verbatim>\<open>forwarder/subtreeroot.go\<close>: the Merkle-root check of a BRC-132 subtree
  payload.  The operations work on the byte buffers of the source, with its two
  alternating level buffers and its split of a wide level over goroutines; a
  slice out of range is \<^const>\<open>None\<close>.  The Go scheduler is the argument
  \<open>sched\<close>, which merges the work lists of the goroutines of one level.  The
  reference is \<open>merkle\<close>, a Merkle root over a list of hashes.
\<close>

subsection \<open>The code\<close>

datatype subtree_error = errSubtreeMalformed | errSubtreeRootMismatch

definition subtreeRootParallelMin :: nat where
  "subtreeRootParallelMin = 2 ^ 14"

definition subtreeRootMaxWorkers :: nat where
  "subtreeRootMaxWorkers = 4"

text \<open>One iteration of the loop of \<^verbatim>\<open>hashRange\<close>: write parent \<open>p\<close> into \<open>dst\<close>.\<close>

definition hashOne :: "bytes \<Rightarrow> nat \<Rightarrow> nat \<Rightarrow> nat \<Rightarrow> bytes \<Rightarrow> bytes option" where
  "hashOne src stride n p dst =
     do { _ \<leftarrow> gslice (p * 32) (p * 32 + 32) dst;
          left \<leftarrow> gslice (2 * p * stride) (2 * p * stride + 32) src;
          if left = zero32 then overwrite (p * 32) zero32 dst
          else
            do { pairR \<leftarrow>
                   (let r = 2 * p + 1 in
                    if r < n then
                      do { right \<leftarrow> gslice (r * stride) (r * stride + 32) src;
                           Some (if right \<noteq> zero32 then right else left) }
                    else Some left);
                 overwrite (p * 32) (sha256 (sha256 (left @ pairR))) dst } }"

definition hashRange :: "bytes \<Rightarrow> bytes \<Rightarrow> nat \<Rightarrow> nat \<Rightarrow> nat \<Rightarrow> nat \<Rightarrow> bytes option" where
  "hashRange dst src stride n lo hi = fold_opt (hashOne src stride n) [lo..<hi] dst"

text \<open>The work lists \<^verbatim>\<open>lo..hi-1\<close> handed to the goroutines of one level.\<close>

function chunkRanges :: "nat \<Rightarrow> nat \<Rightarrow> nat \<Rightarrow> nat list list" where
  "chunkRanges chunk lo parents =
     (if lo < parents \<and> 0 < chunk
      then [lo..<min (lo + chunk) parents] # chunkRanges chunk (lo + chunk) parents
      else [])"
  by pat_completeness auto
termination by (relation "measure (\<lambda>(chunk, lo, parents). parents - lo)") auto

declare chunkRanges.simps [simp del]

text \<open>All merges of the goroutines' work lists that keep each goroutine's order.\<close>

fun interleavings :: "'a list list \<Rightarrow> 'a list set" where
  "interleavings [] = {[]}"
| "interleavings (xs # xss) = (\<Union>ys \<in> interleavings xss. shuffles xs ys)"

definition hashLevel ::
  "nat \<Rightarrow> (nat list list \<Rightarrow> nat list) \<Rightarrow> bytes \<Rightarrow> bytes \<Rightarrow> nat \<Rightarrow> nat \<Rightarrow> bytes option" where
  "hashLevel gomaxprocs sched dst src stride n =
     (let parents = (n + 1) div 2;
          workers = (if parents \<ge> subtreeRootParallelMin
                     then min gomaxprocs subtreeRootMaxWorkers else 1)
      in if workers \<le> 1 then hashRange dst src stride n 0 parents
         else let chunk = (parents + workers - 1) div workers
              in fold_opt (hashOne src stride n) (sched (chunkRanges chunk 0 parents)) dst)"

text \<open>The \<^verbatim>\<open>for n > 1\<close> loop of \<^verbatim>\<open>subtreeRoot\<close>; returns the last source buffer.\<close>

function rootLoop ::
  "nat \<Rightarrow> (nat list list \<Rightarrow> nat list) \<Rightarrow> nat \<Rightarrow> bytes \<Rightarrow> bytes \<Rightarrow> bytes option" where
  "rootLoop gomaxprocs sched n src dst =
     (if n > 1
      then hashLevel gomaxprocs sched dst src 32 n \<bind>
           (\<lambda>dst'. rootLoop gomaxprocs sched ((n + 1) div 2) dst' src)
      else Some src)"
  by pat_completeness auto
termination by (relation "measure (\<lambda>(g, s, n, src, dst). n)") auto

declare rootLoop.simps [simp del]

definition subtreeRoot ::
  "nat \<Rightarrow> (nat list list \<Rightarrow> nat list) \<Rightarrow> bytes \<Rightarrow> nat \<Rightarrow> nat \<Rightarrow> bytes option" where
  "subtreeRoot gomaxprocs sched nodes stride n =
     (if n = 1 then gslice 0 32 nodes
      else
        let width = (n + 1) div 2 in
        do { src \<leftarrow> hashLevel gomaxprocs sched (zeros (width * 32)) nodes stride n;
             res \<leftarrow> rootLoop gomaxprocs sched width src (zeros (((width + 1) div 2) * 32));
             gslice 0 32 res })"

text \<open>
  \<open>hdr\<close> is \<^verbatim>\<open>frame.SubtreeDataPayloadHeaderSize\<close> of shard-common.  The result
  \<open>Some None\<close> is the nil error.
\<close>

definition SubtreeNodeHashSize :: nat where "SubtreeNodeHashSize = 32"
definition SubtreeNodeFullSize :: nat where "SubtreeNodeFullSize = 48"
definition SubtreeMsgHashesOnly :: byte where "SubtreeMsgHashesOnly = 1"
definition SubtreeMsgFullNodes :: byte where "SubtreeMsgFullNodes = 2"

definition verifySubtreePayload ::
  "nat \<Rightarrow> nat \<Rightarrow> (nat list list \<Rightarrow> nat list) \<Rightarrow> bytes \<Rightarrow> byte \<Rightarrow> bytes \<Rightarrow> subtree_error option option"
  where
  "verifySubtreePayload hdr gomaxprocs sched root msgType payload =
     (let stride = (if msgType = SubtreeMsgFullNodes then SubtreeNodeFullSize
                    else SubtreeNodeHashSize)
      in if length payload < hdr then Some (Some errSubtreeMalformed)
         else
           do { cb \<leftarrow> gslice 16 24 payload;
                count \<leftarrow> BE_Uint64 cb;
                let avail = (length payload - hdr) div stride;
                if count = 0 \<or> unat count > avail then Some (Some errSubtreeMalformed)
                else
                  do { nodes \<leftarrow> gslice hdr (length payload) payload;
                       r \<leftarrow> subtreeRoot gomaxprocs sched nodes stride (unat count);
                       if r \<noteq> root then Some (Some errSubtreeRootMismatch)
                       else Some None } })"

subsection \<open>The reference: a Merkle root over a list of hashes\<close>

text \<open>The all-zero hash is an absent node; an absent right child repeats the left.\<close>

definition merkle_parent :: "bytes \<Rightarrow> bytes \<Rightarrow> bytes" where
  "merkle_parent l r =
     (if l = zero32 then zero32 else sha256d (l @ (if r = zero32 then l else r)))"

fun merkle_level :: "bytes list \<Rightarrow> bytes list" where
  "merkle_level (x # y # zs) = merkle_parent x y # merkle_level zs"
| "merkle_level [x] = [merkle_parent x x]"
| "merkle_level [] = []"

lemma merkle_level_length: "length (merkle_level xs) = (length xs + 1) div 2"
  by (induction xs rule: merkle_level.induct) simp_all

function merkle :: "bytes list \<Rightarrow> bytes" where
  "merkle xs = (if length xs \<le> 1 then hd xs else merkle (merkle_level xs))"
  by pat_completeness auto
termination by (relation "measure length") (auto simp: merkle_level_length)

declare merkle.simps [simp del]

lemma merkle_parent_absent [simp]: "merkle_parent x zero32 = merkle_parent x x"
  by (simp add: merkle_parent_def)

lemma merkle_parent_length [simp]: "length (merkle_parent l r) = 32"
  by (simp add: merkle_parent_def)

lemma merkle_level_nth:
  "p < (length xs + 1) div 2 \<Longrightarrow>
   merkle_level xs ! p =
     merkle_parent (xs ! (2 * p)) (if 2 * p + 1 < length xs then xs ! (2 * p + 1) else xs ! (2 * p))"
proof (induction xs arbitrary: p rule: merkle_level.induct)
  case (1 x y zs)
  then show ?case by (cases p) simp_all
qed simp_all

lemma merkle_level_append:
  "even (length xs) \<Longrightarrow> merkle_level (xs @ ys) = merkle_level xs @ merkle_level ys"
  by (induction xs rule: merkle_level.induct) simp_all

text \<open>Repeating the last hash of an odd level does not change the root.\<close>

lemma merkle_dup:
  assumes "odd (length xs)" "1 < length xs"
  shows "merkle (xs @ [last xs]) = merkle xs"
proof -
  obtain ys x where xs: "xs = ys @ [x]"
    using assms by (metis append_butlast_last_id length_0_conv not_less_zero)
  have "merkle_level (xs @ [last xs]) = merkle_level xs"
    using assms by (simp add: xs merkle_level_append)
  then show ?thesis
    using assms merkle.simps [of xs] merkle.simps [of "xs @ [last xs]"] by (cases xs) auto
qed

subsection \<open>The buffers hold the levels\<close>

definition node :: "bytes \<Rightarrow> nat \<Rightarrow> nat \<Rightarrow> bytes" where
  "node b stride i = take 32 (drop (i * stride) b)"

definition nodes_of :: "bytes \<Rightarrow> nat \<Rightarrow> nat \<Rightarrow> bytes list" where
  "nodes_of b stride n = map (node b stride) [0..<n]"

definition fits :: "bytes \<Rightarrow> nat \<Rightarrow> nat \<Rightarrow> bool" where
  "fits b stride n \<longleftrightarrow> (n - 1) * stride + 32 \<le> length b"

lemma nodes_of_length [simp]: "length (nodes_of b stride n) = n"
  by (simp add: nodes_of_def)

lemma nodes_of_nth [simp]: "i < n \<Longrightarrow> nodes_of b stride n ! i = node b stride i"
  by (simp add: nodes_of_def)

lemma fits_slice:
  assumes "fits b stride n" "i < n"
  shows "gslice (i * stride) (i * stride + 32) b = Some (node b stride i)"
proof -
  have "i * stride \<le> (n - 1) * stride" using assms(2) by (intro mult_le_mono1) simp
  then have "i * stride + 32 \<le> length b" using assms(1) unfolding fits_def by linarith
  then show ?thesis by (simp add: node_def gslice_ok)
qed

text \<open>The hash the code computes for parent \<open>p\<close>.\<close>

definition parent_of :: "bytes \<Rightarrow> nat \<Rightarrow> nat \<Rightarrow> nat \<Rightarrow> bytes" where
  "parent_of src stride n p =
     merkle_parent (node src stride (2 * p))
       (if 2 * p + 1 < n then node src stride (2 * p + 1) else node src stride (2 * p))"

lemma hashOne_eq:
  assumes "fits src stride n" "2 * p < n" "p * 32 + 32 \<le> length dst"
  shows "hashOne src stride n p dst = overwrite (p * 32) (parent_of src stride n p) dst"
  using assms fits_slice [OF assms(1), of "2 * p"] fits_slice [OF assms(1), of "2 * p + 1"]
  by (simp add: hashOne_def parent_of_def merkle_parent_def sha256d_def gslice_ok Let_def)

lemma hash_all:
  assumes "fits src stride n" "distinct ps"
    and "\<forall>p \<in> set ps. 2 * p < n \<and> p * 32 + 32 \<le> length dst"
  shows "\<exists>d. fold_opt (hashOne src stride n) ps dst = Some d \<and> length d = length dst \<and>
     (\<forall>q. gslice (q * 32) (q * 32 + 32) d =
        (if q \<in> set ps then Some (parent_of src stride n q)
         else gslice (q * 32) (q * 32 + 32) dst))"
  using assms(2,3)
proof (induction ps arbitrary: dst)
  case (Cons p ps)
  let ?v = "parent_of src stride n p"
  have v: "length ?v = 32" by (simp add: parent_of_def)
  obtain c where c: "overwrite (p * 32) ?v dst = Some c" "length c = length dst"
    using Cons.prems v by (auto simp: overwrite_def)
  have one: "hashOne src stride n p dst = Some c"
    using hashOne_eq [OF assms(1)] Cons.prems c by simp
  obtain d where d: "fold_opt (hashOne src stride n) ps c = Some d" "length d = length c"
    "\<forall>q. gslice (q * 32) (q * 32 + 32) d =
        (if q \<in> set ps then Some (parent_of src stride n q) else gslice (q * 32) (q * 32 + 32) c)"
    using Cons.IH [of c] Cons.prems c by auto
  have same: "gslice (p * 32) (p * 32 + 32) c = Some ?v"
    using overwrite_slice_same [OF c(1)] v by simp
  have "gslice (q * 32) (q * 32 + 32) c = gslice (q * 32) (q * 32 + 32) dst" if "q \<noteq> p" for q
    using that overwrite_slice_disjoint [OF c(1), of "q * 32 + 32" "q * 32"] v by force
  then show ?case using one d c same Cons.prems(1) by auto
qed simp

lemma nodes_of_eqI:
  assumes "length xs = n" "n * 32 \<le> length d"
    and "\<And>p. p < n \<Longrightarrow> gslice (p * 32) (p * 32 + 32) d = Some (xs ! p)"
  shows "nodes_of d 32 n = xs"
  using assms by (intro nth_equalityI) (auto simp: node_def)

lemma chunkRanges_concat:
  "0 < chunk \<Longrightarrow> concat (chunkRanges chunk lo parents) = [lo..<parents]"
proof (induction chunk lo parents rule: chunkRanges.induct)
  case (1 chunk lo parents)
  have split: "[lo..<min (lo + chunk) parents] @ [lo + chunk..<parents] = [lo..<parents]"
    if "lo < parents"
  proof (cases "lo + chunk \<le> parents")
    case True
    then obtain k where "parents = (lo + chunk) + k" by (auto simp: le_iff_add)
    then show ?thesis
      using upt_add_eq_append [of lo "lo + chunk" k] by (simp del: upt_add_eq_append)
  qed (simp add: min_def)
  show ?case using 1 split by (subst chunkRanges.simps) simp
qed

lemma interleavings_mset: "ys \<in> interleavings xss \<Longrightarrow> mset ys = mset (concat xss)"
proof (induction xss arbitrary: ys)
  case (Cons xs xss)
  then obtain zs where "zs \<in> interleavings xss" "ys \<in> shuffles xs zs" by auto
  with Cons.IH show ?case by (simp add: mset_shuffles)
qed simp

lemma concat_interleaving: "concat xss \<in> interleavings xss"
proof (induction xss)
  case (Cons xs xss)
  have "xs @ concat xss \<in> shuffles xs (concat xss)"
    by (induction xs) (auto intro: Cons_in_shuffles_leftI)
  with Cons show ?case by auto
qed simp

text \<open>A level computed by the code, in any goroutine schedule, is the reference level.\<close>

lemma hashLevel_correct:
  assumes fit: "fits src stride n" and n: "1 < n" and d: "((n + 1) div 2) * 32 \<le> length dst"
    and sched: "\<And>cs. sched cs \<in> interleavings cs"
  shows "\<exists>d. hashLevel gmp sched dst src stride n = Some d \<and> length d = length dst \<and>
             nodes_of d 32 ((n + 1) div 2) = merkle_level (nodes_of src stride n)"
proof -
  let ?m = "(n + 1) div 2"
  have run: "\<exists>d. fold_opt (hashOne src stride n) ps dst = Some d \<and> length d = length dst \<and>
       nodes_of d 32 ?m = merkle_level (nodes_of src stride n)" if ps: "mset ps = mset [0..<?m]" for ps
  proof -
    have set: "set ps = {0..<?m}" and dist: "distinct ps"
      using mset_eq_setD [OF ps] mset_eq_imp_distinct_iff [OF ps] by simp_all
    have "\<forall>p \<in> set ps. 2 * p < n \<and> p * 32 + 32 \<le> length dst"
      using d by (auto simp: set)
    from hash_all [OF fit dist this] obtain d' where d':
      "fold_opt (hashOne src stride n) ps dst = Some d'" "length d' = length dst"
      "\<forall>q. gslice (q * 32) (q * 32 + 32) d' = (if q \<in> set ps then Some (parent_of src stride n q)
         else gslice (q * 32) (q * 32 + 32) dst)" by blast
    have "nodes_of d' 32 ?m = merkle_level (nodes_of src stride n)"
    proof (rule nodes_of_eqI)
      show "length (merkle_level (nodes_of src stride n)) = ?m"
        by (simp add: merkle_level_length)
      fix p assume p: "p < ?m"
      then have "2 * p < n" by simp
      then show "gslice (p * 32) (p * 32 + 32) d' =
          Some (merkle_level (nodes_of src stride n) ! p)"
        using p d'(3) set by (simp add: merkle_level_nth parent_of_def)
    qed (use d d' in simp)
    then show ?thesis using d' by blast
  qed
  show ?thesis
  proof (cases "?m \<ge> subtreeRootParallelMin \<and> 1 < min gmp subtreeRootMaxWorkers")
    case True
    let ?w = "min gmp subtreeRootMaxWorkers"
    let ?c = "(?m + ?w - 1) div ?w"
    have "?w \<le> ?m + ?w - 1" using n True by linarith
    then have "0 < ?c" using True by (simp add: div_greater_zero_iff)
    then have "mset (sched (chunkRanges ?c 0 ?m)) = mset [0..<?m]"
      using interleavings_mset [OF sched] by (simp add: chunkRanges_concat)
    moreover have "\<not> ?w \<le> 1" using True by (simp add: min_le_iff_disj not_le)
    ultimately show ?thesis using run True by (simp add: hashLevel_def Let_def del: min_less_iff_conj)
  next
    case False
    then show ?thesis using run [of "[0..<?m]"]
      by (auto simp: hashLevel_def hashRange_def Let_def)
  qed
qed

lemma rootLoop_correct:
  assumes "1 \<le> n" "n * 32 \<le> length src" "((n + 1) div 2) * 32 \<le> length dst"
    and sched: "\<And>cs. sched cs \<in> interleavings cs"
  shows "\<exists>d. rootLoop gmp sched n src dst = Some d \<and> 32 \<le> length d \<and>
             take 32 d = merkle (nodes_of src 32 n)"
  using assms
proof (induction gmp sched n src dst rule: rootLoop.induct)
  case (1 gmp sched n src dst)
  show ?case
  proof (cases "1 < n")
    case True
    let ?m = "(n + 1) div 2"
    have "fits src 32 n" using 1 True by (simp add: fits_def)
    from hashLevel_correct [OF this True 1(4) 1(5)]
    obtain d where d: "hashLevel gmp sched dst src 32 n = Some d" "length d = length dst"
      "nodes_of d 32 ?m = merkle_level (nodes_of src 32 n)" by blast
    have "((?m + 1) div 2) * 32 \<le> length src" using 1(3) True by linarith
    then have "\<exists>e. rootLoop gmp sched ?m d src = Some e \<and> 32 \<le> length e \<and>
        take 32 e = merkle (nodes_of d 32 ?m)"
      using 1(1) [OF True d(1)] 1(4,5) True d(2) by simp
    then show ?thesis
      using True d by (simp add: rootLoop.simps [of _ _ n] merkle.simps [of "nodes_of src 32 n"])
  next
    case False
    then have "n = 1" using 1(2) by simp
    then show ?thesis using 1(3)
      by (simp add: rootLoop.simps merkle.simps nodes_of_def node_def)
  qed
qed

lemma subtreeRoot_merkle:
  assumes n: "1 \<le> n" and fit: "fits nodes stride n"
    and sched: "\<And>cs. sched cs \<in> interleavings cs"
  shows "subtreeRoot gmp sched nodes stride n = Some (merkle (nodes_of nodes stride n))"
proof (cases "n = 1")
  case True
  then show ?thesis using fit
    by (simp add: subtreeRoot_def fits_def merkle.simps nodes_of_def node_def gslice_ok)
next
  case False
  let ?m = "(n + 1) div 2"
  have n1: "1 < n" using n False by simp
  from hashLevel_correct [OF fit n1 _ sched, of "zeros (?m * 32)"]
  obtain d where d: "hashLevel gmp sched (zeros (?m * 32)) nodes stride n = Some d"
    "length d = ?m * 32" "nodes_of d 32 ?m = merkle_level (nodes_of nodes stride n)" by auto
  from rootLoop_correct [OF _ _ _ sched, of ?m d "zeros (((?m + 1) div 2) * 32)" gmp]
  obtain e where e: "rootLoop gmp sched ?m d (zeros (((?m + 1) div 2) * 32)) = Some e"
    "32 \<le> length e" "take 32 e = merkle (nodes_of d 32 ?m)" using d(2) n1 by force
  then show ?thesis using n1 d
    by (simp add: subtreeRoot_def Let_def gslice_ok merkle.simps [of "nodes_of nodes stride n"])
qed

subsection \<open>What the check decides\<close>

definition subtree_stride :: "byte \<Rightarrow> nat" where
  "subtree_stride msgType = (if msgType = SubtreeMsgFullNodes then 48 else 32)"

definition subtree_count :: "bytes \<Rightarrow> nat" where
  "subtree_count payload = be_nat (take 8 (drop 16 payload))"

text \<open>The payload carries the nodes its header counts.\<close>

definition payload_well_formed :: "nat \<Rightarrow> byte \<Rightarrow> bytes \<Rightarrow> bool" where
  "payload_well_formed hdr msgType payload \<longleftrightarrow>
     hdr \<le> length payload \<and> 0 < subtree_count payload \<and>
     subtree_count payload * subtree_stride msgType \<le> length payload - hdr"

lemma subtree_stride_ge: "32 \<le> subtree_stride t" "0 < subtree_stride t"
  by (simp_all add: subtree_stride_def)

lemma verifySubtreePayload_cases:
  assumes hdr: "24 \<le> hdr" and sched: "\<And>cs. sched cs \<in> interleavings cs"
  shows "verifySubtreePayload hdr gmp sched root t payload =
     Some (if \<not> payload_well_formed hdr t payload then Some errSubtreeMalformed
           else if merkle (nodes_of (drop hdr payload) (subtree_stride t) (subtree_count payload)) = root
           then None else Some errSubtreeRootMismatch)"
proof (cases "hdr \<le> length payload")
  case True
  let ?s = "subtree_stride t" and ?c = "take 8 (drop 16 payload)"
  have s: "(if t = SubtreeMsgFullNodes then SubtreeNodeFullSize else SubtreeNodeHashSize) = ?s"
    by (simp add: subtree_stride_def SubtreeNodeFullSize_def SubtreeNodeHashSize_def)
  have cb: "gslice 16 24 payload = Some ?c" using True hdr by (simp add: gslice_ok)
  have len: "length ?c = 8" using True hdr by simp
  have cnt: "unat (of_nat (be_nat ?c) :: u64) = subtree_count payload"
    using be_nat_less [of ?c] len
    by (simp add: subtree_count_def unat_of_nat take_bit_nat_eq_self)
  then have cnt0: "(of_nat (be_nat ?c) :: u64) = 0 \<longleftrightarrow> subtree_count payload = 0"
    by (metis unat_eq_zero)
  have wf: "payload_well_formed hdr t payload \<longleftrightarrow>
      0 < subtree_count payload \<and> subtree_count payload \<le> (length payload - hdr) div ?s"
    using True subtree_stride_ge [of t] by (simp add: payload_well_formed_def less_eq_div_iff_mult_less_eq)
  have root: "subtreeRoot gmp sched (drop hdr payload) ?s (subtree_count payload) =
      Some (merkle (nodes_of (drop hdr payload) ?s (subtree_count payload)))"
    if w: "payload_well_formed hdr t payload"
  proof (rule subtreeRoot_merkle [OF _ _ sched])
    obtain k where k: "subtree_count payload = Suc k"
      using w by (auto simp: payload_well_formed_def gr0_conv_Suc)
    then show "fits (drop hdr payload) ?s (subtree_count payload)"
      using w subtree_stride_ge [of t] by (simp add: payload_well_formed_def fits_def)
  qed (use w in \<open>simp add: payload_well_formed_def\<close>)
  have uint: "BE_Uint64 ?c = Some (of_nat (be_nat ?c))" using len by (simp add: BE_Uint64_def)
  show ?thesis
    using True hdr root wf
    unfolding verifySubtreePayload_def Let_def s cb
    by (auto simp: uint cnt cnt0 gslice_ok not_le)
qed (simp add: verifySubtreePayload_def payload_well_formed_def)

subsection \<open>Properties\<close>

lemma subtree_count_header:
  assumes "length z = 16" "k < 2 ^ 64"
  shows "subtree_count (z @ nat_be 8 k @ r) = k"
  using assms by (simp add: subtree_count_def be_nat_nat_be)

lemma nodes_of_concat:
  "\<forall>x \<in> set ys. length x = 32 \<Longrightarrow> nodes_of (concat ys) 32 (length ys) = ys"
proof (induction ys)
  case (Cons y ys)
  have "nodes_of (y @ concat ys) 32 (Suc (length ys)) = y # nodes_of (concat ys) 32 (length ys)"
    using Cons.prems
    by (simp add: nodes_of_def node_def map_upt_Suc del: upt_Suc)
  with Cons show ?case by simp
qed (simp add: nodes_of_def)

lemma length_concat_32:
  "\<forall>x \<in> set ys. length x = 32 \<Longrightarrow> length (concat ys) = 32 * length ys"
  by (induction ys) simp_all

lemma subtree_stride_hashes: "subtree_stride SubtreeMsgHashesOnly = 32"
  by (simp add: subtree_stride_def SubtreeMsgHashesOnly_def SubtreeMsgFullNodes_def)

lemma verify_hashes_only:
  assumes "24 \<le> hdr" "\<And>cs. sched cs \<in> interleavings cs"
    and "length z = 16" "length z + 8 + length z' = hdr" "0 < length xs" "length xs < 2 ^ 64"
    and "\<forall>x \<in> set xs. length x = 32"
  shows "verifySubtreePayload hdr gmp sched root SubtreeMsgHashesOnly
           (z @ nat_be 8 (length xs) @ z' @ concat xs) =
         Some (if merkle xs = root then None else Some errSubtreeRootMismatch)"
proof -
  have "drop hdr (z @ nat_be 8 (length xs) @ z' @ concat xs) = concat xs"
    using assms(4) by simp
  then show ?thesis
    using assms length_concat_32 [OF assms(7)] nodes_of_concat [OF assms(7)]
    by (simp add: verifySubtreePayload_cases payload_well_formed_def subtree_stride_hashes
        subtree_count_header)
qed

text \<open>C5.  For every buffer that holds the \<open>n\<close> node records, every GOMAXPROCS and
  every goroutine schedule, \<^verbatim>\<open>subtreeRoot\<close> returns without panicking and its result
  is the Merkle root of the node list: the split over goroutines and the two
  alternating buffers are invisible.\<close>

theorem subtreeRoot_refines_merkle:
  assumes "1 \<le> n" "(n - 1) * stride + 32 \<le> length nodes"
    and "\<And>cs. sched cs \<in> interleavings cs"
  shows "subtreeRoot gomaxprocs sched nodes stride n =
         Some (merkle (map (\<lambda>i. take 32 (drop (i * stride) nodes)) [0..<n]))"
  using subtreeRoot_merkle [of n nodes stride sched gomaxprocs] assms
  by (simp add: fits_def nodes_of_def node_def [abs_def])

theorem subtreeRoot_refines_merkle_witness:
  "subtreeRoot 8 concat (replicate 48 1 @ replicate 48 2 @ replicate 32 3) 48 3 =
     Some (merkle [replicate 32 1, replicate 32 2, replicate 32 3])"
  using subtreeRoot_refines_merkle [of 3 48 "replicate 48 1 @ replicate 48 2 @ replicate 32 3" concat 8,
      OF _ _ concat_interleaving]
  by (simp add: upt_rec)

text \<open>C36.  \<^verbatim>\<open>verifySubtreePayload\<close> never panics and decides exactly: a payload shorter than
  its header, with no nodes or with fewer node bytes than its count is malformed; any
  other payload is accepted if and only if the Merkle root of its nodes is the subtree
  identifier.\<close>

theorem verifySubtreePayload_decides:
  assumes "24 \<le> hdr" "\<And>cs. sched cs \<in> interleavings cs"
  shows "verifySubtreePayload hdr gomaxprocs sched root msgType payload =
     Some (if \<not> payload_well_formed hdr msgType payload then Some errSubtreeMalformed
           else if merkle (nodes_of (drop hdr payload) (subtree_stride msgType)
                    (subtree_count payload)) = root
           then None else Some errSubtreeRootMismatch)"
  using assms by (rule verifySubtreePayload_cases)

theorem verifySubtreePayload_decides_witness:
  "verifySubtreePayload 24 4 concat (replicate 32 7) 1
     (zeros 16 @ nat_be 8 1 @ replicate 32 7) = Some None"
  using verifySubtreePayload_decides [of 24 concat 4 "replicate 32 7" 1
      "zeros 16 @ nat_be 8 1 @ replicate 32 7", OF _ concat_interleaving]
    subtree_count_header [of "zeros 16" 1 "replicate 32 7"]
  by (simp add: payload_well_formed_def subtree_stride_def SubtreeMsgFullNodes_def
      nodes_of_def node_def merkle.simps del: nat_be.simps)

text \<open>C40.  The root does not pin the node list: a hashes-only payload with an odd count
  above one is accepted for a subtree identifier if and only if the longer payload that repeats
  its last hash, with the count raised by one, is accepted for the same identifier.\<close>

theorem verifySubtreePayload_duplicate_accepted:
  assumes "24 \<le> hdr" "\<And>cs. sched cs \<in> interleavings cs"
    and "length z = 16" "length z' = hdr - 24"
    and "odd (length xs)" "1 < length xs" "length xs < 2 ^ 32" "\<forall>x \<in> set xs. length x = 32"
  shows "verifySubtreePayload hdr gomaxprocs sched root SubtreeMsgHashesOnly
           (z @ nat_be 8 (length xs + 1) @ z' @ concat xs @ last xs) =
         verifySubtreePayload hdr gomaxprocs sched root SubtreeMsgHashesOnly
           (z @ nat_be 8 (length xs) @ z' @ concat xs)"
proof -
  have "xs \<noteq> []" using assms(6) by auto
  then have "\<forall>x \<in> set (xs @ [last xs]). length x = 32" using assms(8) by simp
  from verify_hashes_only [OF assms(1,2,3) _ _ _ this, of z' gomaxprocs root]
  show ?thesis
    using verify_hashes_only [OF assms(1,2,3) _ _ _ assms(8), of z' gomaxprocs root]
      merkle_dup [of xs] assms \<open>xs \<noteq> []\<close> by simp
qed

theorem verifySubtreePayload_duplicate_accepted_witness:
  "let a = replicate 32 1; b = replicate 32 2; c = replicate 32 3; root = merkle [a, b, c] in
   verifySubtreePayload 24 4 concat root SubtreeMsgHashesOnly
     (zeros 16 @ nat_be 8 (length [a, b, c, c]) @ concat [a, b, c, c]) = Some None"
  using verifySubtreePayload_duplicate_accepted [of 24 concat "zeros 16" "[]"
      "[replicate 32 1, replicate 32 2, replicate 32 3]" 4
      "merkle [replicate 32 1, replicate 32 2, replicate 32 3]", OF _ concat_interleaving]
    verify_hashes_only [of 24 concat "zeros 16" "[]"
      "[replicate 32 1, replicate 32 2, replicate 32 3]" 4
      "merkle [replicate 32 1, replicate 32 2, replicate 32 3]", OF _ concat_interleaving]
  by (simp add: Let_def del: nat_be.simps)

end
