(* ===== verification/Chains.thy ===== *)
theory Chains
  imports Prelude
begin

text \<open>
  The per-flow sequence counters of \<^verbatim>\<open>forwarder/forwarder.go\<close>: the striped map from
  a (sender, group, subtree) chain to its counter, \<^verbatim>\<open>reserveSeq\<close>, \<^verbatim>\<open>nextSeq\<close> and
  \<^verbatim>\<open>stampInPlace\<close>.  The map holds pointers to counters, as in the source, so that the
  two atomic sections of a reservation (resolve the pointer under the stripe lock, add to
  the counter) can be interleaved between goroutines.  \<open>seqhash.Hash\<close> of shard-common is
  the argument \<open>H\<close>.
\<close>

subsection \<open>The code\<close>

record chainKey =
  ck_ip :: bytes
  ck_grp :: u32
  ck_sub :: bytes

definition chainStripes :: nat where "chainStripes = 64"

text \<open>FNV-1a of \<^verbatim>\<open>hash/fnv\<close> (\<^verbatim>\<open>New32a\<close>).\<close>

definition fnv32a :: "bytes \<Rightarrow> u32" where
  "fnv32a bs = fold (\<lambda>b h. (h XOR ucast b) * 16777619) bs 2166136261"

definition stripeIndex :: "bytes \<Rightarrow> nat" where
  "stripeIndex ip = unat (fnv32a ip AND (of_nat chainStripes - 1))"

text \<open>\<open>stripes\<close> are the maps of the 64 \<^verbatim>\<open>chainStripe\<close>s, from a key to the address of its
  \<^verbatim>\<open>flowState\<close>; \<open>flows\<close> is the store of the counters, by address.\<close>

record chains =
  stripes :: "(chainKey \<Rightarrow> nat option) list"
  flows :: "u64 list"

definition emptyChains :: chains where
  "emptyChains = \<lparr>stripes = replicate chainStripes (\<lambda>_. None), flows = []\<rparr>"

text \<open>The locked section: find or create the flow's counter.\<close>

definition resolveFlow :: "chainKey \<Rightarrow> chains \<Rightarrow> nat \<times> chains" where
  "resolveFlow key ch =
     (let i = stripeIndex (ck_ip key); m = stripes ch ! i in
      case m key of
        Some a \<Rightarrow> (a, ch)
      | None \<Rightarrow> (let a = length (flows ch) in
          (a, ch\<lparr>stripes := (stripes ch)[i := m(key := Some a)], flows := flows ch @ [0]\<rparr>)))"

text \<open>The atomic add: \<^verbatim>\<open>st.counter.Add(uint64(n)) - uint64(n) + 1\<close>.\<close>

definition addFlowSeq :: "nat \<Rightarrow> nat \<Rightarrow> chains \<Rightarrow> u64 \<times> chains" where
  "addFlowSeq a n ch =
     (let v = flows ch ! a + of_nat n in (v - of_nat n + 1, ch\<lparr>flows := (flows ch)[a := v]\<rparr>))"

definition reserveFirst :: "chainKey \<Rightarrow> nat \<Rightarrow> chains \<Rightarrow> u64 \<times> chains" where
  "reserveFirst key n ch = (case resolveFlow key ch of (a, ch') \<Rightarrow> addFlowSeq a n ch')"

definition reserveSeq ::
  "(bytes \<Rightarrow> u32 \<Rightarrow> bytes \<Rightarrow> u64) \<Rightarrow> bytes \<Rightarrow> u32 \<Rightarrow> bytes \<Rightarrow> nat \<Rightarrow> chains \<Rightarrow> (u64 \<times> u64) \<times> chains"
  where
  "reserveSeq H ip groupIdx subtreeID n ch =
     (case reserveFirst \<lparr>ck_ip = ip, ck_grp = groupIdx, ck_sub = subtreeID\<rparr> n ch of
        (first, ch') \<Rightarrow> ((H ip groupIdx subtreeID, first), ch'))"

definition nextSeq ::
  "(bytes \<Rightarrow> u32 \<Rightarrow> bytes \<Rightarrow> u64) \<Rightarrow> bytes \<Rightarrow> u32 \<Rightarrow> bytes \<Rightarrow> chains \<Rightarrow> (u64 \<times> u64) \<times> chains"
  where
  "nextSeq H ip groupIdx subtreeID ch = reserveSeq H ip groupIdx subtreeID 1 ch"

definition stampInPlace ::
  "(bytes \<Rightarrow> u32 \<Rightarrow> bytes \<Rightarrow> u64) \<Rightarrow> bool \<Rightarrow> bytes \<Rightarrow> bytes \<Rightarrow> u32 \<Rightarrow> bytes \<Rightarrow> chains \<Rightarrow> (bytes \<times> chains) option"
  where
  "stampInPlace H stampSource raw ip groupIdx subtreeID ch =
     do { preSeq \<leftarrow> gslice 48 56 raw \<bind> BE_Uint64;
          preHash \<leftarrow> gslice 40 48 raw \<bind> BE_Uint64;
          if preSeq = 0 then
            (case nextSeq H ip groupIdx subtreeID ch of
               ((hashKey, seqNum), ch') \<Rightarrow>
                 do { raw1 \<leftarrow> BE_PutUint64 40 hashKey raw;
                      raw2 \<leftarrow> BE_PutUint64 48 seqNum raw1;
                      Some (raw2, ch') })
          else if preHash = 0 \<or> stampSource then
            do { raw1 \<leftarrow> BE_PutUint64 40 (H ip groupIdx subtreeID) raw; Some (raw1, ch) }
          else Some (raw, ch) }"

subsection \<open>The contract of a sequence allocator\<close>

text \<open>What the frame handlers rely on: a reservation returns the block after the counter,
  moves the counter of its own chain by the size of the block and no other counter.\<close>

locale seq_alloc =
  fixes inv :: "'s \<Rightarrow> bool"
    and counter :: "'s \<Rightarrow> 'k \<Rightarrow> u64"
    and reserve :: "'k \<Rightarrow> nat \<Rightarrow> 's \<Rightarrow> u64 \<times> 's"
  assumes first: "inv s \<Longrightarrow> fst (reserve k n s) = counter s k + 1"
    and counter_reserve: "inv s \<Longrightarrow>
      counter (snd (reserve k n s)) = (counter s)(k := counter s k + of_nat n)"
    and inv_reserve: "inv s \<Longrightarrow> inv (snd (reserve k n s))"
begin

primrec nexts :: "'k \<Rightarrow> nat \<Rightarrow> 's \<Rightarrow> u64 list \<times> 's" where
  "nexts k 0 s = ([], s)"
| "nexts k (Suc n) s =
     (case reserve k 1 s of (x, t) \<Rightarrow> (case nexts k n t of (xs, u) \<Rightarrow> (x # xs, u)))"

lemma nexts_inv: "inv s \<Longrightarrow> inv (snd (nexts k n s))"
proof (induction n arbitrary: s)
  case (Suc n)
  then show ?case using inv_reserve [of s k 1] by (simp split: prod.splits) (metis snd_conv)
qed simp

lemma nexts_seq:
  "inv s \<Longrightarrow> fst (nexts k n s) = map (\<lambda>i. counter s k + 1 + of_nat i) [0..<n]"
proof (induction n arbitrary: s)
  case (Suc n)
  obtain x t where xt: "reserve k 1 s = (x, t)" by fastforce
  have t: "inv t" "x = counter s k + 1" "counter t k = counter s k + 1"
    using inv_reserve [of s k 1] first [of s k 1] counter_reserve [of s k 1] Suc.prems xt by simp_all
  have "map (\<lambda>i. counter s k + 1 + of_nat i) [0..<Suc n] =
        (counter s k + 1) # map (\<lambda>i. counter s k + 1 + 1 + of_nat i) [0..<n]"
    by (simp add: map_upt_Suc add.assoc del: upt_Suc)
  then show ?case using Suc.IH [OF t(1)] t xt by (simp add: split_def del: upt_Suc)
qed simp

lemma nexts_counter:
  "inv s \<Longrightarrow> counter (snd (nexts k n s)) = (counter s)(k := counter s k + of_nat n)"
proof (induction n arbitrary: s)
  case (Suc n)
  obtain x t where xt: "reserve k 1 s = (x, t)" by fastforce
  have t: "inv t" "counter t = (counter s)(k := counter s k + 1)"
    using inv_reserve [of s k 1] counter_reserve [of s k 1] Suc.prems xt by simp_all
  then show ?case using Suc.IH [OF t(1)] xt by (simp add: split_def fun_eq_iff add.commute)
qed simp

text \<open>One block of \<open>n\<close> is what \<open>n\<close> single reservations hand out.\<close>

lemma block_eq_nexts:
  assumes "inv s"
  shows "map (\<lambda>i. fst (reserve k n s) + of_nat i) [0..<n] = fst (nexts k n s)"
    and "counter (snd (reserve k n s)) = counter (snd (nexts k n s))"
  using assms by (simp_all add: first nexts_seq counter_reserve nexts_counter)

end

subsection \<open>The striped map provides the contract\<close>

definition lookupFlow :: "chains \<Rightarrow> chainKey \<Rightarrow> nat option" where
  "lookupFlow ch k = (stripes ch ! stripeIndex (ck_ip k)) k"

definition counterOf :: "chains \<Rightarrow> chainKey \<Rightarrow> u64" where
  "counterOf ch k = (case lookupFlow ch k of None \<Rightarrow> 0 | Some a \<Rightarrow> flows ch ! a)"

text \<open>There are 64 stripes, every pointer is allocated and no two chains share a counter.\<close>

definition chains_wf :: "chains \<Rightarrow> bool" where
  "chains_wf ch \<longleftrightarrow>
     length (stripes ch) = chainStripes \<and>
     (\<forall>k a. lookupFlow ch k = Some a \<longrightarrow> a < length (flows ch)) \<and>
     (\<forall>k l a. lookupFlow ch k = Some a \<longrightarrow> lookupFlow ch l = Some a \<longrightarrow> k = l)"

lemma stripeIndex_less [simp]: "stripeIndex ip < chainStripes"
proof -
  have "fnv32a ip AND 63 \<le> (63 :: u32)" by (rule word_and_le1)
  then have "unat (fnv32a ip AND 63) \<le> unat (63 :: u32)" by (simp only: word_le_nat_alt)
  then show ?thesis by (simp add: stripeIndex_def chainStripes_def)
qed

lemma lookup_empty [simp]: "lookupFlow emptyChains k = None"
  by (simp add: lookupFlow_def emptyChains_def)

lemma chains_wf_empty [simp]: "chains_wf emptyChains"
  by (simp add: chains_wf_def) (simp add: emptyChains_def)

lemma counterOf_empty [simp]: "counterOf emptyChains k = 0"
  by (simp add: counterOf_def)

lemma wf_length: "chains_wf ch \<Longrightarrow> length (stripes ch) = chainStripes"
  by (simp add: chains_wf_def)

lemma lookup_bound: "chains_wf ch \<Longrightarrow> lookupFlow ch k = Some a \<Longrightarrow> a < length (flows ch)"
  by (simp add: chains_wf_def)

lemma lookup_inj:
  "chains_wf ch \<Longrightarrow> lookupFlow ch k = Some a \<Longrightarrow> lookupFlow ch l = Some a \<Longrightarrow> k = l"
  by (simp add: chains_wf_def)

lemma resolve_lookup:
  assumes "chains_wf ch"
  shows "lookupFlow (snd (resolveFlow k ch)) =
         (lookupFlow ch)(k \<mapsto> fst (resolveFlow k ch))"
  using wf_length [OF assms]
  by (auto simp: resolveFlow_def lookupFlow_def fun_eq_iff Let_def nth_list_update
      split: option.splits)

lemma resolve_new:
  "lookupFlow ch k = None \<Longrightarrow>
   fst (resolveFlow k ch) = length (flows ch) \<and> flows (snd (resolveFlow k ch)) = flows ch @ [0]"
  by (simp add: resolveFlow_def lookupFlow_def Let_def)

lemma resolve_old: "lookupFlow ch k = Some a \<Longrightarrow> resolveFlow k ch = (a, ch)"
  by (simp add: resolveFlow_def lookupFlow_def Let_def)

lemma resolve_stripes: "length (stripes (snd (resolveFlow k ch))) = length (stripes ch)"
  by (simp add: resolveFlow_def Let_def split: option.splits)

lemma resolve_wf:
  assumes "chains_wf ch"
  shows "chains_wf (snd (resolveFlow k ch))"
proof (cases "lookupFlow ch k")
  case None
  note new = resolve_new [OF None]
  show ?thesis
    unfolding chains_wf_def resolve_lookup [OF assms] resolve_stripes
    using lookup_bound [OF assms] lookup_inj [OF assms] wf_length [OF assms] new
    by (auto simp: less_Suc_eq)
qed (simp add: resolve_old assms)

lemma resolve_counter:
  assumes "chains_wf ch"
  shows "counterOf (snd (resolveFlow k ch)) = counterOf ch"
proof (cases "lookupFlow ch k")
  case None
  show ?thesis
    using lookup_bound [OF assms] resolve_new [OF None] None
    by (auto simp: counterOf_def resolve_lookup [OF assms] nth_append fun_eq_iff split: option.splits)
qed (simp add: resolve_old)

lemma add_stripes [simp]: "stripes (snd (addFlowSeq a n ch)) = stripes ch"
  by (simp add: addFlowSeq_def Let_def)

lemma add_lookup [simp]: "lookupFlow (snd (addFlowSeq a n ch)) = lookupFlow ch"
  by (simp add: lookupFlow_def fun_eq_iff)

lemma add_wf: "chains_wf ch \<Longrightarrow> chains_wf (snd (addFlowSeq a n ch))"
  by (simp add: chains_wf_def) (simp add: addFlowSeq_def Let_def)

lemma add_counter:
  assumes "chains_wf ch" "lookupFlow ch k = Some a"
  shows "fst (addFlowSeq a n ch) = counterOf ch k + 1"
    and "counterOf (snd (addFlowSeq a n ch)) = (counterOf ch)(k := counterOf ch k + of_nat n)"
proof -
  show "fst (addFlowSeq a n ch) = counterOf ch k + 1"
    using assms by (simp add: addFlowSeq_def counterOf_def Let_def)
  show "counterOf (snd (addFlowSeq a n ch)) = (counterOf ch)(k := counterOf ch k + of_nat n)"
  proof
    fix l
    show "counterOf (snd (addFlowSeq a n ch)) l =
          ((counterOf ch)(k := counterOf ch k + of_nat n)) l"
    proof (cases "lookupFlow ch l")
      case None
      then show ?thesis using assms(2) by (auto simp: counterOf_def)
    next
      case (Some b)
      have a: "a < length (flows ch)" using lookup_bound [OF assms] .
      have "b \<noteq> a" if "l \<noteq> k" using that Some assms lookup_inj by metis
      then show ?thesis
        using Some assms(2) a
        by (cases "l = k") (simp_all add: counterOf_def addFlowSeq_def Let_def lookupFlow_def)
    qed
  qed
qed

lemma reserve_counter:
  assumes "chains_wf ch"
  shows "fst (reserveFirst k n ch) = counterOf ch k + 1"
    and "counterOf (snd (reserveFirst k n ch)) = (counterOf ch)(k := counterOf ch k + of_nat n)"
proof -
  let ?r = "resolveFlow k ch"
  have l: "lookupFlow (snd ?r) k = Some (fst ?r)" by (simp add: resolve_lookup [OF assms])
  note add = add_counter [OF resolve_wf [OF assms] l]
  show "fst (reserveFirst k n ch) = counterOf ch k + 1"
    using add(1) by (simp add: reserveFirst_def split_def resolve_counter [OF assms])
  show "counterOf (snd (reserveFirst k n ch)) = (counterOf ch)(k := counterOf ch k + of_nat n)"
    using add(2) by (simp add: reserveFirst_def split_def resolve_counter [OF assms])
qed

lemma reserve_wf: "chains_wf ch \<Longrightarrow> chains_wf (snd (reserveFirst k n ch))"
  by (simp add: reserveFirst_def split_def resolve_wf add_wf)

interpretation chain: seq_alloc chains_wf counterOf reserveFirst
  by unfold_locales (fact reserve_counter reserve_wf)+

subsection \<open>Reservations and stamps\<close>

abbreviation chain_key :: "bytes \<Rightarrow> u32 \<Rightarrow> bytes \<Rightarrow> chainKey" where
  "chain_key ip g sub \<equiv> \<lparr>ck_ip = ip, ck_grp = g, ck_sub = sub\<rparr>"

lemma reserveSeq_eq:
  "chains_wf ch \<Longrightarrow> reserveSeq H ip g sub n ch =
     ((H ip g sub, counterOf ch (chain_key ip g sub) + 1),
      snd (reserveFirst (chain_key ip g sub) n ch))"
  by (simp add: reserveSeq_def split_def reserve_counter)

lemma nextSeq_eq:
  "chains_wf ch \<Longrightarrow> nextSeq H ip g sub ch =
     ((H ip g sub, counterOf ch (chain_key ip g sub) + 1),
      snd (reserveFirst (chain_key ip g sub) 1 ch))"
  by (simp add: nextSeq_def reserveSeq_eq)

text \<open>The two header fields, as 8-byte strings.\<close>

definition hdr_hash :: "bytes \<Rightarrow> bytes" where "hdr_hash raw = take 8 (drop 40 raw)"
definition hdr_seq :: "bytes \<Rightarrow> bytes" where "hdr_seq raw = take 8 (drop 48 raw)"

definition with_stamp :: "u64 \<Rightarrow> u64 \<Rightarrow> bytes \<Rightarrow> bytes" where
  "with_stamp h q raw = take 40 raw @ be_bytes64 h @ be_bytes64 q @ drop 56 raw"

lemma with_stamp_length: "56 \<le> length raw \<Longrightarrow> length (with_stamp h q raw) = length raw"
  by (simp add: with_stamp_def)

definition seq_of :: "bytes \<Rightarrow> u64" where "seq_of raw = of_nat (be_nat (hdr_seq raw))"
definition hash_of :: "bytes \<Rightarrow> u64" where "hash_of raw = of_nat (be_nat (hdr_hash raw))"

lemma stamp_split:
  assumes "56 \<le> length raw"
  shows "raw = with_stamp (hash_of raw) (seq_of raw) raw"
proof -
  have "raw = take 40 raw @ hdr_hash raw @ hdr_seq raw @ drop 56 raw"
    using take_drop_split [of 40 raw 8] take_drop_split [of 48 raw 8] append_take_drop_id [of 40 raw]
    by (simp add: hdr_hash_def hdr_seq_def)
  moreover have "length (hdr_hash raw) = 8" "length (hdr_seq raw) = 8"
    using assms by (simp_all add: hdr_hash_def hdr_seq_def)
  ultimately show ?thesis by (simp add: with_stamp_def hash_of_def seq_of_def)
qed

lemma with_stamp_fields [simp]:
  assumes "56 \<le> length raw"
  shows "seq_of (with_stamp h q raw) = q" "hash_of (with_stamp h q raw) = h"
  using assms BE_Uint64_put' [of q] BE_Uint64_put' [of h]
  by (simp_all add: with_stamp_def seq_of_def hash_of_def hdr_seq_def hdr_hash_def BE_Uint64_def)

lemma stampInPlace_eq:
  assumes "56 \<le> length raw" and "chains_wf ch"
  shows "stampInPlace H ss raw ip g sub ch =
     Some (if seq_of raw = 0
           then (with_stamp (H ip g sub) (counterOf ch (chain_key ip g sub) + 1) raw,
                 snd (reserveFirst (chain_key ip g sub) 1 ch))
           else if hash_of raw = 0 \<or> ss then (with_stamp (H ip g sub) (seq_of raw) raw, ch)
           else (raw, ch))"
proof -
  have f: "gslice 48 56 raw \<bind> BE_Uint64 = Some (seq_of raw)"
    "gslice 40 48 raw \<bind> BE_Uint64 = Some (hash_of raw)"
    using assms by (simp_all add: gslice_ok BE_Uint64_def seq_of_def hash_of_def hdr_seq_def hdr_hash_def)
  have p: "BE_PutUint64 40 h raw = Some (with_stamp h (seq_of raw) raw)"
    "BE_PutUint64 48 q (with_stamp h r raw) = Some (with_stamp h q raw)" for h q r
    using assms be_bytes64_of_nat [of "hdr_seq raw"] take_drop_split [of 48 raw 8]
    by (simp_all add: BE_PutUint64_def overwrite_def with_stamp_def seq_of_def hdr_seq_def)
  show ?thesis
    using assms(2) by (simp add: stampInPlace_def f p nextSeq_eq)
qed

subsection \<open>Concurrent callers\<close>

text \<open>Goroutines that share one forwarder.  A goroutine is idle or stands between the locked
  section and the atomic add of a reservation; \<open>cs_log\<close> records what was handed out, in the
  order of the atomic adds.\<close>

datatype pc = Idle | Resolved chainKey nat nat

record cstate =
  cs_chains :: chains
  cs_pc :: "nat \<Rightarrow> pc"
  cs_log :: "(chainKey \<times> u64 \<times> nat) list"

inductive cstep :: "cstate \<Rightarrow> cstate \<Rightarrow> bool" where
  resolve: "\<lbrakk> cs_pc s t = Idle; resolveFlow key (cs_chains s) = (a, ch) \<rbrakk> \<Longrightarrow>
     cstep s (s\<lparr>cs_chains := ch, cs_pc := (cs_pc s)(t := Resolved key a n)\<rparr>)"
| add: "\<lbrakk> cs_pc s t = Resolved key a n; addFlowSeq a n (cs_chains s) = (first, ch) \<rbrakk> \<Longrightarrow>
     cstep s (s\<lparr>cs_chains := ch, cs_pc := (cs_pc s)(t := Idle),
                cs_log := cs_log s @ [(key, first, n)]\<rparr>)"

inductive_cases cstepE: "cstep s s'"

definition cinit :: cstate where
  "cinit = \<lparr>cs_chains = emptyChains, cs_pc = (\<lambda>_. Idle), cs_log = []\<rparr>"

definition block :: "u64 \<Rightarrow> nat \<Rightarrow> u64 list" where
  "block first n = map (\<lambda>i. first + of_nat i) [0..<n]"

text \<open>All sequence numbers handed out on a chain, in order, and how many.\<close>

fun issued :: "chainKey \<Rightarrow> (chainKey \<times> u64 \<times> nat) list \<Rightarrow> u64 list" where
  "issued key [] = []"
| "issued key ((k, first, n) # log) = (if k = key then block first n else []) @ issued key log"

definition cinv :: "cstate \<Rightarrow> bool" where
  "cinv s \<longleftrightarrow> chains_wf (cs_chains s) \<and>
     (\<forall>t key a n. cs_pc s t = Resolved key a n \<longrightarrow> lookupFlow (cs_chains s) key = Some a) \<and>
     (\<forall>key. let xs = issued key (cs_log s) in
        xs = block 1 (length xs) \<and> counterOf (cs_chains s) key = of_nat (length xs))"

lemma issued_append: "issued key (xs @ ys) = issued key xs @ issued key ys"
  by (induction key xs rule: issued.induct) simp_all

lemma block_length [simp]: "length (block f n) = n"
  by (simp add: block_def)

lemma block_append: "block f m @ block (f + of_nat m) n = block f (m + n)"
  by (rule nth_equalityI) (auto simp: block_def nth_append)

lemma cinv_init: "cinv cinit"
  by (simp add: cinv_def cinit_def block_def)

lemma cinv_step: "cstep s s' \<Longrightarrow> cinv s \<Longrightarrow> cinv s'"
proof (induction rule: cstep.induct)
  case (resolve s t key a ch n)
  have wf: "chains_wf (cs_chains s)" using resolve by (simp add: cinv_def)
  have r: "a = fst (resolveFlow key (cs_chains s))" "ch = snd (resolveFlow key (cs_chains s))"
    using resolve(2) by simp_all
  have keep: "lookupFlow (cs_chains s) k = Some b \<Longrightarrow> lookupFlow ch k = Some b" for k b
    by (cases "k = key") (simp_all add: r resolve_lookup [OF wf] resolve_old)
  then show ?case
    using resolve(3) wf r resolve_lookup [OF wf, of key]
    by (auto simp: cinv_def resolve_wf resolve_counter Let_def)
next
  case (add s t key a n first ch)
  have wf: "chains_wf (cs_chains s)" and l: "lookupFlow (cs_chains s) key = Some a"
    using add by (auto simp: cinv_def)
  have r: "first = fst (addFlowSeq a n (cs_chains s))" "ch = snd (addFlowSeq a n (cs_chains s))"
    using add(2) by simp_all
  have iss: "issued k (cs_log s) = block 1 (length (issued k (cs_log s)))"
    "counterOf (cs_chains s) k = of_nat (length (issued k (cs_log s)))" for k
    using add(3) by (auto simp: cinv_def Let_def)
  have first: "first = 1 + of_nat (length (issued key (cs_log s)))"
    unfolding r add_counter(1) [OF wf l] by (simp add: iss(2))
  have "issued key (cs_log s @ [(key, first, n)]) =
        block 1 (length (issued key (cs_log s)) + n)"
    unfolding issued_append first
    by (subst iss(1)) (simp add: block_append)
  then show ?case
    using add(3) iss wf l
    by (auto simp: cinv_def Let_def r add_wf add_counter(2) [OF wf l] issued_append)
qed

lemma cinv_reachable: "cstep\<^sup>*\<^sup>* cinit s \<Longrightarrow> cinv s"
  by (induction rule: rtranclp_induct) (auto intro: cinv_init cinv_step)

lemma block_distinct: "n \<le> 2 ^ 64 \<Longrightarrow> distinct (block f n)"
  by (auto simp: block_def distinct_map inj_on_def word_of_nat_eq_iff take_bit_eq_mod)

lemma cstep_reserve:
  assumes "cs_pc s t = Idle"
  shows "\<exists>s'. cstep s s' \<and> cs_log s' = cs_log s \<and>
           (\<exists>a. cs_pc s' = (cs_pc s)(t := Resolved key a n))"
  using cstep.resolve [OF assms, of key _ _ n] by (cases "resolveFlow key (cs_chains s)") fastforce

lemma cstep_finish:
  assumes "cs_pc s t = Resolved key a n"
  shows "\<exists>s'. cstep s s' \<and> (\<exists>f. cs_log s' = cs_log s @ [(key, f, n)]) \<and>
           cs_pc s' = (cs_pc s)(t := Idle)"
  using cstep.add [OF assms] by (cases "addFlowSeq a n (cs_chains s)") fastforce

text \<open>\<open>n\<close> successive calls of \<^verbatim>\<open>nextSeq\<close> on one chain.\<close>

primrec nextSeqs ::
  "(bytes \<Rightarrow> u32 \<Rightarrow> bytes \<Rightarrow> u64) \<Rightarrow> bytes \<Rightarrow> u32 \<Rightarrow> bytes \<Rightarrow> nat \<Rightarrow> chains \<Rightarrow> (u64 \<times> u64) list \<times> chains"
  where
  "nextSeqs H ip g sub 0 ch = ([], ch)"
| "nextSeqs H ip g sub (Suc n) ch =
     (case nextSeq H ip g sub ch of (p, ch') \<Rightarrow>
        (case nextSeqs H ip g sub n ch' of (ps, ch'') \<Rightarrow> (p # ps, ch'')))"

lemma nextSeqs_nexts:
  "nextSeqs H ip g sub n ch =
     (case chain.nexts (chain_key ip g sub) n ch of (xs, ch') \<Rightarrow> (map (Pair (H ip g sub)) xs, ch'))"
  by (induction n arbitrary: ch)
    (simp_all add: nextSeq_def reserveSeq_def split_def)

subsection \<open>Properties\<close>

text \<open>C7.  However the goroutines' reservations interleave, the sequence numbers handed out on
  a chain are 1, 2, 3, \<open>\<dots>\<close> in the order of the atomic adds: no number is handed out twice and
  none is skipped (until the 64-bit counter wraps).\<close>

theorem concurrent_reservations_disjoint:
  assumes "cstep\<^sup>*\<^sup>* cinit s"
  shows "issued key (cs_log s) = map (\<lambda>i. 1 + of_nat i) [0..<length (issued key (cs_log s))] \<and>
         (length (issued key (cs_log s)) \<le> 2 ^ 64 \<longrightarrow> distinct (issued key (cs_log s)))"
  using cinv_reachable [OF assms] block_distinct [of "length (issued key (cs_log s))" 1]
  unfolding cinv_def Let_def by (metis block_def)

theorem concurrent_reservations_disjoint_witness:
  "\<exists>s. cstep\<^sup>*\<^sup>* cinit s \<and> issued (chain_key [1] 5 []) (cs_log s) = [1, 2, 3, 4, 5]"
proof -
  let ?k = "chain_key [1] 5 []"
  obtain s1 a where s1: "cstep cinit s1" "cs_log s1 = []"
    "cs_pc s1 = (\<lambda>_. Idle)(0 := Resolved ?k a 3)"
    using cstep_reserve [of cinit 0 ?k 3] by (auto simp: cinit_def)
  obtain s2 b where s2: "cstep s1 s2" "cs_log s2 = []"
    "cs_pc s2 = (\<lambda>_. Idle)(0 := Resolved ?k a 3, 1 := Resolved ?k b 2)"
    using cstep_reserve [of s1 1 ?k 2] s1 by auto
  obtain s3 f where s3: "cstep s2 s3" "cs_log s3 = [(?k, f, 2)]"
    "cs_pc s3 = (\<lambda>_. Idle)(0 := Resolved ?k a 3)"
    using cstep_finish [of s2 1 ?k b 2] s2 by (auto simp: fun_upd_idem)
  obtain s4 g where s4: "cstep s3 s4" "cs_log s4 = [(?k, f, 2), (?k, g, 3)]"
    using cstep_finish [of s3 0 ?k a 3] s3 by auto
  have "cstep\<^sup>*\<^sup>* cinit s4"
    by (intro rtranclp.rtrancl_into_rtrancl [of cstep, OF _ s4(1)] rtranclp.rtrancl_into_rtrancl [of cstep, OF _ s3(1)]
        rtranclp.rtrancl_into_rtrancl [of cstep, OF _ s2(1)] r_into_rtranclp [of cstep, OF s1(1)])
  moreover from concurrent_reservations_disjoint [OF this, of ?k]
  have "issued ?k (cs_log s4) = map (\<lambda>i. 1 + of_nat i) [0..<5]" by (simp add: s4 block_def)
  ultimately show ?thesis by (auto simp: upt_rec)
qed

text \<open>One reservation of \<open>n\<close> numbers is interchangeable with \<open>n\<close> calls of \<^verbatim>\<open>nextSeq\<close>:
  the same hash key, the numbers first, first+1, \<open>\<dots>\<close>, and the same counters afterwards.\<close>

lemma reserveSeq_is_nextSeq_loop:
  fixes H :: "bytes \<Rightarrow> u32 \<Rightarrow> bytes \<Rightarrow> u64"
  assumes "chains_wf ch"
  shows "case reserveSeq H ip g sub n ch of ((h, first), ch1) \<Rightarrow>
         case nextSeqs H ip g sub n ch of (ps, ch2) \<Rightarrow>
           ps = map (\<lambda>i. (h, first + of_nat i)) [0..<n] \<and>
           counterOf ch1 = counterOf ch2 \<and> chains_wf ch1 \<and> chains_wf ch2"
  using chain.block_eq_nexts(2) [OF assms, of "chain_key ip g sub" n]
    chain.inv_reserve [OF assms, of "chain_key ip g sub" n]
    chain.nexts_inv [OF assms, of "chain_key ip g sub" n]
  by (simp add: reserveSeq_def nextSeqs_nexts split_def comp_def
      flip: chain.block_eq_nexts(1) [OF assms])

text \<open>C19.  \<^verbatim>\<open>stampInPlace\<close> on a header that has the two fields never panics and rewrites only
  bytes 40 to 55: an unstamped frame gets the flow's hash key and its next sequence number; a
  sequence number set by the sender is kept, the counter is not advanced, and its hash key is
  replaced only when it was zero or the proxy owns the source identity.\<close>

theorem stampInPlace_stamps:
  assumes "56 \<le> length raw" "chains_wf ch"
  shows "\<exists>raw' ch'. stampInPlace H stampSource raw ip g sub ch = Some (raw', ch') \<and>
     chains_wf ch' \<and> length raw' = length raw \<and>
     take 40 raw' = take 40 raw \<and> drop 56 raw' = drop 56 raw \<and>
     (if seq_of raw = 0
      then seq_of raw' = counterOf ch (chain_key ip g sub) + 1 \<and> hash_of raw' = H ip g sub \<and>
           counterOf ch' = (counterOf ch)(chain_key ip g sub := counterOf ch (chain_key ip g sub) + 1)
      else seq_of raw' = seq_of raw \<and> ch' = ch \<and>
           hash_of raw' = (if hash_of raw = 0 \<or> stampSource then H ip g sub else hash_of raw))"
  using assms
  by (simp add: stampInPlace_eq with_stamp_length reserve_wf reserve_counter)
    (simp add: with_stamp_def)

theorem stampInPlace_stamps_witness:
  "case stampInPlace (\<lambda>_ _ _. 9) True (zeros 92) [1] 5 [] emptyChains of
     None \<Rightarrow> False | Some (raw, ch) \<Rightarrow> hash_of raw = 9 \<and> seq_of raw = 1"
  using stampInPlace_stamps [of "zeros 92" emptyChains "\<lambda>_ _ _. 9" True "[1]" 5 "[]"]
  by (auto simp: seq_of_def [of "zeros 92"] hdr_seq_def)

end
