(* ===== verification/Net.thy ===== *)
theory Net
  imports Prelude
begin

text \<open>
  What the program uses of Go's \<^verbatim>\<open>net\<close> package: addresses, the 4- and 16-byte forms
  of an IP, prefix masks, and \<^verbatim>\<open>addrToIPv6\<close> / \<^verbatim>\<open>srcIPOf\<close> of the forwarder, which read the
  source of a datagram or a connection.
\<close>

text \<open>\<^verbatim>\<open>net.IP\<close> is its byte slice, the nil IP the empty one.  An address type other than
  UDP, TCP and IP is known by its \<^verbatim>\<open>String()\<close> only.\<close>

datatype net_addr =
    UDPAddr bytes nat
  | TCPAddr bytes nat
  | IPAddr bytes
  | OtherAddr string

definition To4 :: "bytes \<Rightarrow> bytes" where
  "To4 ip =
     (if length ip = 4 then ip
      else if length ip = 16 \<and> take 12 ip = zeros 10 @ [255, 255] then drop 12 ip
      else [])"

text \<open>Byte \<open>i\<close> of \<^verbatim>\<open>net.CIDRMask(ones, bits)\<close>, and \<^verbatim>\<open>ip.Mask\<close> of a mask of the same
  length (of any other length the result is nil).\<close>

definition maskByte :: "nat \<Rightarrow> nat \<Rightarrow> byte" where
  "maskByte ones i =
     (if 8 * (i + 1) \<le> ones then 255
      else if ones \<le> 8 * i then 0
      else of_nat (256 - 2 ^ (8 * (i + 1) - ones)))"

definition ipMask :: "nat \<Rightarrow> nat \<Rightarrow> bytes \<Rightarrow> bytes" where
  "ipMask ones bits ip =
     (if 8 * length ip = bits then map2 (\<lambda>b i. b AND maskByte ones i) ip [0..<length ip] else [])"

text \<open>\<^verbatim>\<open>net.IP.To16\<close>; the nil IP is the empty list.\<close>

definition To16 :: "bytes \<Rightarrow> bytes" where
  "To16 ip =
     (if length ip = 4 then zeros 10 @ [255, 255] @ ip
      else if length ip = 16 then ip else [])"

text \<open>\<^verbatim>\<open>net.UDPAddr\<close> as a destination of a datagram.\<close>

record udp_addr =
  ua_ip :: bytes
  ua_port :: int
  ua_zone :: string

text \<open>\<^verbatim>\<open>forwarder.addrToIPv6\<close>: the flow identity of a source, all zero for an address
  that is neither UDP nor TCP.\<close>

fun addrToIPv6 :: "net_addr \<Rightarrow> bytes" where
  "addrToIPv6 (UDPAddr ip port) = (if To16 ip = [] then zeros 16 else To16 ip)"
| "addrToIPv6 (TCPAddr ip port) = (if To16 ip = [] then zeros 16 else To16 ip)"
| "addrToIPv6 _ = zeros 16"

text \<open>\<^verbatim>\<open>forwarder.srcIPOf\<close>: the nil IP when the source is unknown.\<close>

fun srcIPOf :: "net_addr option \<Rightarrow> bytes" where
  "srcIPOf (Some (UDPAddr ip port)) = ip"
| "srcIPOf (Some (TCPAddr ip port)) = ip"
| "srcIPOf _ = []"

lemma To16_length: "To16 ip \<noteq> [] \<Longrightarrow> length (To16 ip) = 16"
  by (auto simp: To16_def split: if_splits)

lemma addrToIPv6_length [simp]: "length (addrToIPv6 a) = 16"
  by (cases a) (simp_all add: To16_length)

text \<open>IPv4 and the IPv4-mapped form of the same address are one flow identity.\<close>

lemma addrToIPv6_v4_mapped:
  "length ip = 4 \<Longrightarrow>
   addrToIPv6 (UDPAddr ip p) = addrToIPv6 (TCPAddr (zeros 10 @ [255, 255] @ ip) q)"
  by (simp add: To16_def)

end
