(* ===== verification/RateLimit.thy ===== *)
theory RateLimit
  imports Net Complex_Main
begin

text \<open>
  \<^verbatim>\<open>forwarder/ratelimit.go\<close>: token buckets and the two-tier BEEF ingress limiter.
  Token counts are exact rationals where the source has \<^verbatim>\<open>float64\<close>.  A
  \<^verbatim>\<open>time.Time\<close> is the number of nanoseconds since the zero time, so \<^verbatim>\<open>IsZero\<close> is
  \<open>= 0\<close>.  The source table is an association list: its order is the iteration order of
  the Go map, which the properties do not restrict.
\<close>

subsection \<open>The code\<close>

record bucket =
  b_rate :: rat
  b_burst :: rat
  b_tokens :: rat
  b_last :: int

definition newBucket :: "rat \<Rightarrow> rat \<Rightarrow> bucket" where
  "newBucket ratePerSec burst =
     (if ratePerSec \<le> 0 then \<lparr>b_rate = 0, b_burst = 0, b_tokens = 0, b_last = 0\<rparr>
      else
        let burst' = (if burst < ratePerSec then ratePerSec else burst)
        in \<lparr>b_rate = ratePerSec, b_burst = burst', b_tokens = burst', b_last = 0\<rparr>)"

text \<open>\<^verbatim>\<open>Duration.Seconds\<close>.\<close>

definition seconds :: "int \<Rightarrow> rat" where
  "seconds d = of_int d / 1000000000"

definition allowN :: "int \<Rightarrow> rat \<Rightarrow> bucket \<Rightarrow> bool \<times> bucket" where
  "allowN now n b =
     (if b_rate b \<le> 0 then (True, b)
      else
        let b1 = (if b_last b = 0 then b\<lparr>b_last := now\<rparr> else b);
            elapsed = seconds (now - b_last b1);
            b2 = (if elapsed > 0
                  then b1\<lparr>b_tokens := min (b_tokens b1 + elapsed * b_rate b1) (b_burst b1),
                          b_last := now\<rparr>
                  else b1);
            n' = (if n > b_burst b2 then b_burst b2 else n)
        in if b_tokens b2 < n' then (False, b2)
           else (True, b2\<lparr>b_tokens := b_tokens b2 - n'\<rparr>))"

record BEEFRateConfig =
  SourceObjectsPerSec :: rat
  SourceBytesPerSec :: rat
  SourcePrefixBits :: int
  PlaneObjectsPerSec :: rat
  PlaneBytesPerSec :: rat
  MaxTrackedSources :: int

record srcBuckets =
  sb_obj :: bucket
  sb_byt :: bucket
  sb_seen :: int

text \<open>A key is the text of a masked address or, for an address that has no IP, its own
  text.  The two never coincide, so the model keeps the masked bytes.\<close>

datatype src_key = KeyIP bytes | KeyText string

record beefLimiter =
  l_cfg :: BEEFRateConfig
  planeObj :: bucket
  planeByt :: bucket
  l_srcs :: "(src_key \<times> srcBuckets) list"

definition newBEEFLimiter :: "BEEFRateConfig \<Rightarrow> beefLimiter" where
  "newBEEFLimiter cfg =
     (let cfg1 = (if SourcePrefixBits cfg \<le> 0 \<or> SourcePrefixBits cfg > 128
                  then cfg\<lparr>SourcePrefixBits := 64\<rparr> else cfg);
          cfg2 = (if MaxTrackedSources cfg1 \<le> 0
                  then cfg1\<lparr>MaxTrackedSources := 65536\<rparr> else cfg1)
      in \<lparr>l_cfg = cfg2,
          planeObj = newBucket (PlaneObjectsPerSec cfg2) (PlaneObjectsPerSec cfg2),
          planeByt = newBucket (PlaneBytesPerSec cfg2) (PlaneBytesPerSec cfg2),
          l_srcs = []\<rparr>)"

definition limiter_enabled :: "beefLimiter \<Rightarrow> bool" where
  "limiter_enabled l =
     (let c = l_cfg l in
      SourceObjectsPerSec c > 0 \<or> SourceBytesPerSec c > 0 \<or>
      PlaneObjectsPerSec c > 0 \<or> PlaneBytesPerSec c > 0)"

datatype rateDecision = rateAllow | rateDenySource | rateDenyPlane

fun rate_reason :: "rateDecision \<Rightarrow> string" where
  "rate_reason rateDenySource = ''beef_rate_source''"
| "rate_reason rateDenyPlane = ''beef_rate_plane''"
| "rate_reason rateAllow = ''''"

text \<open>\<open>parse\<close> is \<^verbatim>\<open>net.ParseIP\<close> of the host part of an address text.\<close>

fun addrToIP :: "(string \<Rightarrow> bytes) \<Rightarrow> net_addr \<Rightarrow> bytes" where
  "addrToIP parse (UDPAddr ip port) = ip"
| "addrToIP parse (TCPAddr ip port) = ip"
| "addrToIP parse (IPAddr ip) = ip"
| "addrToIP parse (OtherAddr s) = parse s"


definition sourceKey :: "(string \<Rightarrow> bytes) \<Rightarrow> (net_addr \<Rightarrow> string) \<Rightarrow> net_addr \<Rightarrow> int \<Rightarrow> src_key" where
  "sourceKey parse text src prefixBits =
     (let ip = addrToIP parse src in
      if ip = [] then KeyText (text src)
      else if To4 ip \<noteq> [] then
        (let bits = prefixBits - 96;
             bits' = (if bits < 0 \<or> bits > 32 then 32 else bits)
         in KeyIP (ipMask (nat bits') 32 (To4 ip)))
      else KeyIP (ipMask (nat prefixBits) 128 ip))"

text \<open>The scan of \<^verbatim>\<open>evictOldestLocked\<close>: \<open>oldest\<close> is 0 until an entry was seen.\<close>

fun oldestScan :: "(src_key \<times> srcBuckets) list \<Rightarrow> int \<Rightarrow> src_key option \<Rightarrow> src_key option" where
  "oldestScan [] oldest key = key"
| "oldestScan ((k, v) # m) oldest key =
     (if oldest = 0 \<or> sb_seen v < oldest then oldestScan m (sb_seen v) (Some k)
      else oldestScan m oldest key)"

definition evictOldestLocked :: "beefLimiter \<Rightarrow> beefLimiter" where
  "evictOldestLocked l =
     (case oldestScan (l_srcs l) 0 None of
        None \<Rightarrow> l
      | Some k \<Rightarrow> if k = KeyText '''' then l else l\<lparr>l_srcs := al_del k (l_srcs l)\<rparr>)"

definition allowSource ::
  "(string \<Rightarrow> bytes) \<Rightarrow> (net_addr \<Rightarrow> string) \<Rightarrow> net_addr \<Rightarrow> nat \<Rightarrow> int \<Rightarrow> beefLimiter \<Rightarrow> bool \<times> beefLimiter"
  where
  "allowSource parse text src n now l =
     (if SourceObjectsPerSec (l_cfg l) \<le> 0 \<and> SourceBytesPerSec (l_cfg l) \<le> 0 then (True, l)
      else
        let key = sourceKey parse text src (SourcePrefixBits (l_cfg l));
            (sb, l1) =
              (case map_of (l_srcs l) key of
                 Some sb \<Rightarrow> (sb, l)
               | None \<Rightarrow>
                   (\<lparr>sb_obj = newBucket (SourceObjectsPerSec (l_cfg l)) (SourceObjectsPerSec (l_cfg l)),
                     sb_byt = newBucket (SourceBytesPerSec (l_cfg l)) (SourceBytesPerSec (l_cfg l)),
                     sb_seen = 0\<rparr>,
                    if int (length (l_srcs l)) \<ge> MaxTrackedSources (l_cfg l)
                    then evictOldestLocked l else l));
            (okObj, obj) = allowN now 1 (sb_obj sb);
            (okByt, byt) = (if okObj then allowN now (of_nat n) (sb_byt sb) else (False, sb_byt sb))
        in (okObj \<and> okByt,
            l1\<lparr>l_srcs := al_put key \<lparr>sb_obj = obj, sb_byt = byt, sb_seen = now\<rparr> (l_srcs l1)\<rparr>))"

definition limiter_allow ::
  "(string \<Rightarrow> bytes) \<Rightarrow> (net_addr \<Rightarrow> string) \<Rightarrow> net_addr option \<Rightarrow> nat \<Rightarrow> int \<Rightarrow> beefLimiter \<Rightarrow> rateDecision \<times> beefLimiter"
  where
  "limiter_allow parse text src n now l =
     (case src of
        None \<Rightarrow> (rateAllow, l)
      | Some a \<Rightarrow>
          if \<not> limiter_enabled l then (rateAllow, l)
          else
            case allowSource parse text a n now l of
              (False, l1) \<Rightarrow> (rateDenySource, l1)
            | (True, l1) \<Rightarrow>
                (case allowN now 1 (planeObj l1) of
                   (False, po) \<Rightarrow> (rateDenyPlane, l1\<lparr>planeObj := po\<rparr>)
                 | (True, po) \<Rightarrow>
                     (case allowN now (of_nat n) (planeByt l1) of
                        (okB, pb) \<Rightarrow>
                          (if okB then rateAllow else rateDenyPlane,
                           l1\<lparr>planeObj := po, planeByt := pb\<rparr>))))"

subsection \<open>The contract of a token bucket\<close>

text \<open>What a budget promises: a call pays for what it admits out of the level and the
  refill since the last call, whatever the order of the clock readings.\<close>

locale token_bucket =
  fixes inv :: "'b \<Rightarrow> bool"
    and level :: "'b \<Rightarrow> rat"
    and clock :: "'b \<Rightarrow> int"
    and draw :: "int \<Rightarrow> rat \<Rightarrow> 'b \<Rightarrow> bool \<times> 'b"
    and rate :: rat
    and cost :: "rat \<Rightarrow> rat"
  assumes level_nonneg: "inv b \<Longrightarrow> 0 \<le> level b"
    and inv_draw: "inv b \<Longrightarrow> 0 \<le> n \<Longrightarrow> inv (snd (draw t n b))"
    and clock_draw: "inv b \<Longrightarrow> clock (snd (draw t n b)) = max (clock b) t"
    and charge: "inv b \<Longrightarrow> 0 \<le> n \<Longrightarrow>
      level (snd (draw t n b)) + (if fst (draw t n b) then cost n else 0)
        \<le> level b + rate * seconds (max (clock b) t - clock b)"
begin

fun admitted :: "(int \<times> rat) list \<Rightarrow> 'b \<Rightarrow> rat \<times> 'b" where
  "admitted [] b = (0, b)"
| "admitted ((t, n) # cs) b =
     (case draw t n b of (ok, b1) \<Rightarrow>
        (case admitted cs b1 of (s, b2) \<Rightarrow> ((if ok then cost n else 0) + s, b2)))"

lemma admitted_pays:
  assumes "inv b" "\<And>t n. (t, n) \<in> set cs \<Longrightarrow> 0 \<le> n"
  shows "inv (snd (admitted cs b)) \<and>
         clock (snd (admitted cs b)) = foldl max (clock b) (map fst cs) \<and>
         fst (admitted cs b) + level (snd (admitted cs b))
           \<le> level b + rate * seconds (clock (snd (admitted cs b)) - clock b)"
  using assms
proof (induction cs arbitrary: b)
  case (Cons c cs)
  obtain t n where c: "c = (t, n)" by fastforce
  have n: "0 \<le> n" using Cons.prems(2) c by (meson list.set_intros(1))
  obtain ok b1 where d: "draw t n b = (ok, b1)" by fastforce
  have b1: "inv b1" "clock b1 = max (clock b) t"
    using inv_draw [OF Cons.prems(1) n, of t] clock_draw [OF Cons.prems(1), of t n] d by simp_all
  have pay: "level b1 + (if ok then cost n else 0) \<le> level b + rate * seconds (clock b1 - clock b)"
    using charge [OF Cons.prems(1) n, of t] d b1 by simp
  have IH: "inv (snd (admitted cs b1)) \<and>
         clock (snd (admitted cs b1)) = foldl max (clock b1) (map fst cs) \<and>
         fst (admitted cs b1) + level (snd (admitted cs b1))
           \<le> level b1 + rate * seconds (clock (snd (admitted cs b1)) - clock b1)"
    using Cons.IH [OF b1(1)] Cons.prems(2) by (meson list.set_intros(2))
  obtain s b2 where a: "admitted cs b1 = (s, b2)" by fastforce
  have "seconds (clock b2 - clock b1) + seconds (clock b1 - clock b) = seconds (clock b2 - clock b)"
    by (simp add: seconds_def field_simps)
  then have "rate * seconds (clock b2 - clock b1) + rate * seconds (clock b1 - clock b) =
      rate * seconds (clock b2 - clock b)"
    by (simp flip: distrib_left)
  moreover have "s + level b2 \<le> level b1 + rate * seconds (clock b2 - clock b1)"
    using IH unfolding a fst_conv snd_conv by blast
  ultimately have "(if ok then cost n else 0) + s + level b2
      \<le> level b + rate * seconds (clock b2 - clock b)"
    using pay by linarith
  then show ?case using IH a b1 by (simp add: c d)
qed (simp add: seconds_def)

end

text \<open>A live bucket of rate \<open>r\<close> and depth \<open>B\<close>.\<close>

definition bucket_ok :: "rat \<Rightarrow> rat \<Rightarrow> bucket \<Rightarrow> bool" where
  "bucket_ok r B b \<longleftrightarrow>
     0 < r \<and> b_rate b = r \<and> b_burst b = B \<and> 0 \<le> b_tokens b \<and> b_tokens b \<le> B \<and> 0 < b_last b"

lemma seconds_pos [simp]: "0 < seconds d \<longleftrightarrow> 0 < d"
  by (simp add: seconds_def)

lemma seconds_zero [simp]: "seconds 0 = 0"
  by (simp add: seconds_def)

lemma allowN_unlimited: "b_rate b \<le> 0 \<Longrightarrow> allowN now n b = (True, b)"
  by (simp add: allowN_def)

text \<open>The level a call finds after the refill.\<close>

definition refilled :: "int \<Rightarrow> bucket \<Rightarrow> rat" where
  "refilled now b =
     (if b_last b < now then min (b_tokens b + seconds (now - b_last b) * b_rate b) (b_burst b)
      else b_tokens b)"

lemma allowN_live:
  assumes "bucket_ok r B b"
  shows "allowN now n b =
     (let n' = min n B; b' = b\<lparr>b_last := max (b_last b) now, b_tokens := refilled now b\<rparr> in
      if refilled now b < n' then (False, b') else (True, b'\<lparr>b_tokens := refilled now b - n'\<rparr>))"
  using assms
  by (auto simp: allowN_def bucket_ok_def refilled_def Let_def min_def max_def)

lemma refilled_bounds:
  assumes "bucket_ok r B b"
  shows "0 \<le> refilled now b" "refilled now b \<le> B"
    "refilled now b \<le> b_tokens b + r * seconds (max (b_last b) now - b_last b)"
proof -
  have "0 \<le> seconds (now - b_last b) * b_rate b" if "b_last b < now"
    using that assms by (intro mult_nonneg_nonneg) (simp_all add: bucket_ok_def seconds_def)
  then show "0 \<le> refilled now b" "refilled now b \<le> B"
    "refilled now b \<le> b_tokens b + r * seconds (max (b_last b) now - b_last b)"
    using assms by (auto simp: refilled_def bucket_ok_def max_def mult.commute)
qed

interpretation bk: token_bucket "bucket_ok r B" b_tokens b_last allowN r "\<lambda>n. min n B" for r B
proof (unfold_locales, goal_cases)
  case (1 b)
  then show ?case by (simp add: bucket_ok_def)
next
  case (2 b n t)
  then have "0 \<le> B" by (simp add: bucket_ok_def)
  then show ?case using 2 refilled_bounds [OF 2(1), of t]
    by (auto simp: allowN_live [OF 2(1)] Let_def bucket_ok_def max_def min_def)
next
  case (3 b t n)
  then show ?case by (simp add: allowN_live Let_def)
next
  case (4 b n t)
  then show ?case using refilled_bounds [OF 4(1), of t]
    by (auto simp: allowN_live [OF 4(1)] Let_def)
qed

text \<open>The first call of a new bucket starts its clock.\<close>

lemma allowN_fresh:
  assumes "0 < r" "r \<le> B" "0 < now"
  shows "bucket_ok r B (newBucket r B\<lparr>b_last := now\<rparr>)"
    and "allowN now n (newBucket r B) = allowN now n (newBucket r B\<lparr>b_last := now\<rparr>)"
  using assms by (auto simp: bucket_ok_def newBucket_def allowN_def Let_def)

subsection \<open>The source table\<close>

definition limiter_wf :: "beefLimiter \<Rightarrow> bool" where
  "limiter_wf l \<longleftrightarrow>
     1 \<le> MaxTrackedSources (l_cfg l) \<and>
     distinct (map fst (l_srcs l)) \<and> KeyText '''' \<notin> fst ` set (l_srcs l) \<and>
     int (length (l_srcs l)) \<le> MaxTrackedSources (l_cfg l)"

lemma limiter_wf_new: "limiter_wf (newBEEFLimiter cfg)"
  by (simp add: limiter_wf_def newBEEFLimiter_def Let_def)

lemma oldestScan_mem:
  "oldestScan m o' key = Some k \<Longrightarrow> k \<in> fst ` set m \<or> key = Some k"
  by (induction m o' key rule: oldestScan.induct) (auto split: if_splits)

lemma oldestScan_found: "key \<noteq> None \<Longrightarrow> oldestScan m o' key \<noteq> None"
  by (induction m o' key rule: oldestScan.induct) auto

lemma oldestScan_some: "m \<noteq> [] \<Longrightarrow> \<exists>k \<in> fst ` set m. oldestScan m 0 None = Some k"
proof (cases m)
  case (Cons p m')
  then have "oldestScan m 0 None \<noteq> None" by (cases p) (simp add: oldestScan_found)
  then show ?thesis using oldestScan_mem [of m 0 None] by fastforce
qed simp

lemma oldestScan_min:
  assumes "oldestScan m o' (Some k0) = Some k" "0 < o'" "\<forall>(k, v) \<in> set m. 0 < sb_seen v"
  shows "(k = k0 \<and> (\<forall>(k, v) \<in> set m. o' \<le> sb_seen v)) \<or>
         (\<exists>v. (k, v) \<in> set m \<and> sb_seen v < o' \<and> (\<forall>(k, w) \<in> set m. sb_seen v \<le> sb_seen w))"
  using assms
proof (induction m arbitrary: o' k0)
  case (Cons p m)
  obtain k1 v1 where p: "p = (k1, v1)" by fastforce
  show ?case
  proof (cases "sb_seen v1 < o'")
    case True
    have "(k = k1 \<and> (\<forall>(k, v) \<in> set m. sb_seen v1 \<le> sb_seen v)) \<or>
         (\<exists>v. (k, v) \<in> set m \<and> sb_seen v < sb_seen v1 \<and> (\<forall>(k, w) \<in> set m. sb_seen v \<le> sb_seen w))"
      using Cons.IH [of "sb_seen v1" k1] Cons.prems True by (simp add: p)
    then show ?thesis
    proof
      assume "k = k1 \<and> (\<forall>(k, v) \<in> set m. sb_seen v1 \<le> sb_seen v)"
      then show ?thesis using True p by (intro disjI2 exI [of _ v1]) auto
    next
      assume "\<exists>v. (k, v) \<in> set m \<and> sb_seen v < sb_seen v1 \<and>
        (\<forall>(k, w) \<in> set m. sb_seen v \<le> sb_seen w)"
      then obtain v where "(k, v) \<in> set m" "sb_seen v < sb_seen v1"
        "\<forall>(k, w) \<in> set m. sb_seen v \<le> sb_seen w" by blast
      then show ?thesis using True p by (intro disjI2 exI [of _ v]) auto
    qed
  next
    case False
    have "(k = k0 \<and> (\<forall>(k, v) \<in> set m. o' \<le> sb_seen v)) \<or>
         (\<exists>v. (k, v) \<in> set m \<and> sb_seen v < o' \<and> (\<forall>(k, w) \<in> set m. sb_seen v \<le> sb_seen w))"
      using Cons.IH [of o' k0] Cons.prems False by (simp add: p)
    then show ?thesis
    proof
      assume "\<exists>v. (k, v) \<in> set m \<and> sb_seen v < o' \<and> (\<forall>(k, w) \<in> set m. sb_seen v \<le> sb_seen w)"
      then obtain v where "(k, v) \<in> set m" "sb_seen v < o'"
        "\<forall>(k, w) \<in> set m. sb_seen v \<le> sb_seen w" by blast
      then show ?thesis using False p by (intro disjI2 exI [of _ v]) auto
    qed (use False p in auto)
  qed
qed simp

lemma evict_cfg [simp]: "l_cfg (evictOldestLocked l) = l_cfg l"
  "planeObj (evictOldestLocked l) = planeObj l" "planeByt (evictOldestLocked l) = planeByt l"
  by (simp_all add: evictOldestLocked_def split: option.splits)

lemma evict_wf:
  assumes "limiter_wf l"
  shows "distinct (map fst (l_srcs (evictOldestLocked l)))"
    and "fst ` set (l_srcs (evictOldestLocked l)) \<subseteq> fst ` set (l_srcs l)"
  using assms by (auto simp: evictOldestLocked_def limiter_wf_def al_del_def distinct_map_filter
      split: option.splits)

lemma evict_shrinks:
  assumes "limiter_wf l" "l_srcs l \<noteq> []"
  shows "length (l_srcs (evictOldestLocked l)) < length (l_srcs l)"
proof -
  obtain k where k: "k \<in> fst ` set (l_srcs l)" "oldestScan (l_srcs l) 0 None = Some k"
    using oldestScan_some [OF assms(2)] by blast
  then have "k \<noteq> KeyText ''''" using assms(1) unfolding limiter_wf_def by metis
  then show ?thesis using k length_al_del_less [OF k(1)] by (simp add: evictOldestLocked_def)
qed

lemma sourceKey_nonempty:
  "text a \<noteq> '''' \<Longrightarrow> sourceKey parse text a bits \<noteq> KeyText ''''"
  by (simp add: sourceKey_def Let_def)

lemma allowSource_frame [frame_simps]:
  "l_cfg (snd (allowSource parse text a n now l)) = l_cfg l"
  "planeObj (snd (allowSource parse text a n now l)) = planeObj l"
  "planeByt (snd (allowSource parse text a n now l)) = planeByt l"
  by (simp_all add: allowSource_def Let_def split_def split: option.splits)

lemma allowSource_wf:
  assumes "limiter_wf l" "text a \<noteq> ''''"
  shows "limiter_wf (snd (allowSource parse text a n now l))"
proof -
  let ?k = "sourceKey parse text a (SourcePrefixBits (l_cfg l))"
  have k: "?k \<noteq> KeyText ''''" using assms(2) by (rule sourceKey_nonempty)
  have put: "limiter_wf (l'\<lparr>l_srcs := al_put ?k v (l_srcs l')\<rparr>)"
    if "l_cfg l' = l_cfg l" "distinct (map fst (l_srcs l'))"
      "fst ` set (l_srcs l') \<subseteq> fst ` set (l_srcs l)"
      "?k \<in> fst ` set (l_srcs l') \<and> length (l_srcs l') \<le> length (l_srcs l) \<or>
       int (length (l_srcs l')) < MaxTrackedSources (l_cfg l)" for l' v
    using that assms(1) k by (auto simp: limiter_wf_def length_al_put)
  show ?thesis
  proof (cases "map_of (l_srcs l) ?k")
    case None
    show ?thesis
    proof (cases "int (length (l_srcs l)) \<ge> MaxTrackedSources (l_cfg l)")
      case True
      then have "l_srcs l \<noteq> []" using assms(1) by (auto simp: limiter_wf_def)
      from evict_shrinks [OF assms(1) this]
      have "int (length (l_srcs (evictOldestLocked l))) < MaxTrackedSources (l_cfg l)"
        using assms(1) by (simp add: limiter_wf_def)
      then show ?thesis using None True assms(1) put [of "evictOldestLocked l"] evict_wf [OF assms(1)]
        by (simp add: allowSource_def Let_def split_def)
    next
      case False
      then show ?thesis using None assms(1) put [of l]
        by (simp add: allowSource_def Let_def split_def limiter_wf_def)
    qed
  next
    case (Some sb)
    then have "?k \<in> fst ` set (l_srcs l)" by (metis domI dom_map_of_conv_image_fst)
    then show ?thesis using Some assms(1) put [of l]
      by (simp add: allowSource_def Let_def split_def limiter_wf_def)
  qed
qed

lemma limiter_allow_cfg [frame_simps]: "l_cfg (snd (limiter_allow parse text src n now l)) = l_cfg l"
  using allowSource_frame(1) [of parse "text" _ n now l]
  by (auto simp: limiter_allow_def split: option.splits prod.splits bool.splits) (metis snd_conv)+

lemma limiter_allow_wf:
  assumes "limiter_wf l" "\<And>a. src = Some a \<Longrightarrow> text a \<noteq> ''''"
  shows "limiter_wf (snd (limiter_allow parse text src n now l))"
proof -
  have upd: "limiter_wf (l'\<lparr>planeObj := po\<rparr>)" "limiter_wf (l'\<lparr>planeObj := po, planeByt := pb\<rparr>)"
    if "limiter_wf l'" for l' po pb using that by (simp_all add: limiter_wf_def)
  show ?thesis
  proof (cases src)
    case (Some a)
    have "limiter_wf (snd (allowSource parse text a n now l))"
      using assms Some by (intro allowSource_wf) simp_all
    then show ?thesis using assms(1) Some
      by (auto simp: limiter_allow_def upd split: prod.splits bool.splits)
  qed (simp add: limiter_allow_def assms(1))
qed

text \<open>A sequence of charges: (source, bytes, time).\<close>

definition charge_all ::
  "(string \<Rightarrow> bytes) \<Rightarrow> (net_addr \<Rightarrow> string) \<Rightarrow> (net_addr option \<times> nat \<times> int) list \<Rightarrow> beefLimiter \<Rightarrow> beefLimiter"
  where
  "charge_all parse text cs l =
     fold (\<lambda>(src, n, now) l. snd (limiter_allow parse text src n now l)) cs l"

lemma charge_all_wf:
  "limiter_wf l \<Longrightarrow> (\<And>a. text a \<noteq> '''') \<Longrightarrow>
   limiter_wf (charge_all parse text cs l) \<and> l_cfg (charge_all parse text cs l) = l_cfg l"
proof (induction cs arbitrary: l)
  case (Cons c cs)
  obtain src n now where c: "c = (src, n, now)" by (cases c)
  have "limiter_wf (snd (limiter_allow parse text src n now l))"
    using Cons.prems by (intro limiter_allow_wf) simp_all
  from Cons.IH [OF this Cons.prems(2)] show ?case
    by (simp add: charge_all_def c limiter_allow_cfg)
qed (simp add: charge_all_def)

text \<open>Admitted tokens over a sequence of calls (time, tokens) of one bucket.\<close>

fun serve :: "(int \<times> rat) list \<Rightarrow> bucket \<Rightarrow> rat" where
  "serve [] b = 0"
| "serve ((t, n) # cs) b =
     (case allowN t n b of (ok, b1) \<Rightarrow> (if ok then min n (b_burst b) else 0) + serve cs b1)"

lemma serve_admitted:
  assumes "bucket_ok r B b" "\<And>t n. (t, n) \<in> set cs \<Longrightarrow> 0 \<le> n"
  shows "serve cs b = fst (bk.admitted B cs b)"
  using assms
proof (induction cs arbitrary: b)
  case (Cons c cs)
  obtain t n where c: "c = (t, n)" by fastforce
  have n: "0 \<le> n" using Cons.prems(2) c by (meson list.set_intros(1))
  have B: "b_burst b = B" using Cons.prems(1) by (simp add: bucket_ok_def)
  have "serve cs (snd (allowN t n b)) = fst (bk.admitted B cs (snd (allowN t n b)))"
    using Cons.IH [OF bk.inv_draw [OF Cons.prems(1) n]] Cons.prems(2) by (meson list.set_intros(2))
  then show ?case by (simp add: c split_def B)
qed simp

lemma foldl_max_ge: "(x :: int) \<le> foldl max x ys"
proof (induction ys arbitrary: x)
  case (Cons y ys)
  have "x \<le> max x y" by simp
  also have "\<dots> \<le> foldl max (max x y) ys" by (rule Cons.IH)
  finally show ?case by simp
qed simp

lemma ipMask_prefix:
  assumes "length a = 16" "length b = 16" "k \<le> 16"
  shows "ipMask (8 * k) 128 a = ipMask (8 * k) 128 b \<longleftrightarrow> take k a = take k b"
proof -
  have m: "maskByte (8 * k) i = (if i < k then 255 else 0)" for i
    by (auto simp: maskByte_def)
  have ff: "x AND 255 = x" for x :: byte
  proof -
    have "(255 :: byte) = - 1" by simp
    then show ?thesis by (metis and.right_neutral)
  qed
  have nth: "ipMask (8 * k) 128 c ! i = (if i < k then c ! i else 0)"
    if "length c = 16" "i < 16" for c i
    using that by (simp add: ipMask_def m ff)
  have len: "length (ipMask (8 * k) 128 a) = 16" "length (ipMask (8 * k) 128 b) = 16"
    using assms by (simp_all add: ipMask_def)
  show ?thesis
    using assms nth len by (auto simp: list_eq_iff_nth_eq)
qed

subsection \<open>Properties\<close>



text \<open>Whatever sequence of charges a new limiter sees, its source table never holds more
  than the configured number of sources, each source once.\<close>

lemma source_table_bounded:
  assumes "\<And>a. text a \<noteq> ''''"
  shows "let l = charge_all parse text cs (newBEEFLimiter cfg) in
         int (length (l_srcs l)) \<le>
           (if MaxTrackedSources cfg \<le> 0 then 65536 else MaxTrackedSources cfg) \<and>
         distinct (map fst (l_srcs l))"
proof -
  let ?l = "charge_all parse text cs (newBEEFLimiter cfg)"
  have "MaxTrackedSources (l_cfg (newBEEFLimiter cfg)) =
      (if MaxTrackedSources cfg \<le> 0 then 65536 else MaxTrackedSources cfg)"
    by (simp add: newBEEFLimiter_def Let_def)
  moreover have "limiter_wf ?l" "l_cfg ?l = l_cfg (newBEEFLimiter cfg)"
    using charge_all_wf [OF limiter_wf_new assms] by simp_all
  ultimately show ?thesis by (simp add: limiter_wf_def Let_def)
qed

text \<open>When the table is full the source that goes is a least recently charged one.\<close>

lemma eviction_takes_oldest:
  assumes "limiter_wf l" "l_srcs l \<noteq> []" "\<forall>(k, v) \<in> set (l_srcs l). 0 < sb_seen v"
  shows "\<exists>k v. (k, v) \<in> set (l_srcs l) \<and>
     (\<forall>(k', v') \<in> set (l_srcs l). sb_seen v \<le> sb_seen v') \<and>
     evictOldestLocked l = l\<lparr>l_srcs := al_del k (l_srcs l)\<rparr>"
proof -
  obtain k0 v0 m where m: "l_srcs l = (k0, v0) # m" using assms(2) by (cases "l_srcs l") auto
  obtain k where k: "oldestScan (l_srcs l) 0 None = Some k" "k \<in> fst ` set (l_srcs l)"
    using oldestScan_some [OF assms(2)] by blast
  have ne: "k \<noteq> KeyText ''''" using k(2) assms(1) unfolding limiter_wf_def by metis
  have "oldestScan m (sb_seen v0) (Some k0) = Some k" using k(1) m by simp
  from oldestScan_min [OF this] assms(3) m
  have "\<exists>v. (k, v) \<in> set (l_srcs l) \<and> (\<forall>(k', v') \<in> set (l_srcs l). sb_seen v \<le> sb_seen v')"
    by (auto intro: order_trans less_imp_le)
  then show ?thesis using k(1) ne by (auto simp: evictOldestLocked_def)
qed

text \<open>Relayed traffic (no source) is never limited and charges nothing, and a source that
  is over its own budget cannot drain the budget of the plane.\<close>

lemma limiter_isolation:
  "limiter_allow parse text None n now l = (rateAllow, l) \<and>
   (case limiter_allow parse text (Some a) n now l of (d, l') \<Rightarrow>
      d = rateDenySource \<longrightarrow> planeObj l' = planeObj l \<and> planeByt l' = planeByt l)"
  using allowSource_frame(2,3) [of parse "text" a n now l]
  by (auto simp: limiter_allow_def split: prod.splits bool.splits)

text \<open>A whole IPv6 prefix shares one budget: under a byte-aligned prefix length, two IPv6
  sources that are not IPv4-mapped have the same key if and only if they agree on the prefix,
  whatever their ports and socket types.\<close>

lemma sourceKey_prefix:
  assumes "addrToIP parse a = ip" "addrToIP parse b = ip'" "length ip = 16" "length ip' = 16"
    and "To4 ip = []" "To4 ip' = []" "k \<le> 16"
  shows "sourceKey parse text a (8 * int k) = sourceKey parse text b (8 * int k) \<longleftrightarrow>
         take k ip = take k ip'"
proof -
  have "ip \<noteq> []" "ip' \<noteq> []" using assms(3,4) by auto
  moreover have "nat (8 * int k) = 8 * k" by simp
  ultimately show ?thesis
    using ipMask_prefix [OF assms(3,4,7)] assms by (simp add: sourceKey_def Let_def)
qed

end
