(* ===== verification/Common.thy ===== *)
theory Common
  imports Net
begin

text \<open>
  The vocabulary the forwarder shares with shard-common and with the metrics recorder:
  decoded frames, bundles and fragments, the constants of the wire formats that the
  sources document, the record \<open>lib\<close> of the shard-common functions the program calls
  (each an argument of the model, never defined here), and the metric events a handler
  emits.
\<close>

subsection \<open>Constants of the wire formats\<close>

definition MagicBSV :: u32 where "MagicBSV = 0xE3E1F3E8"
definition FrameVerV1 :: byte where "FrameVerV1 = 1"
definition FrameVerV2 :: byte where "FrameVerV2 = 2"
definition FrameVerV4 :: byte where "FrameVerV4 = 4"
definition FrameVerV5 :: byte where "FrameVerV5 = 5"
definition FrameVerV6 :: byte where "FrameVerV6 = 6"
definition FrameVerV8 :: byte where "FrameVerV8 = 8"
definition FrameVerV9 :: byte where "FrameVerV9 = 9"
definition BlockMsgAnnounce :: byte where "BlockMsgAnnounce = 1"
definition BlockMsgCoinbase :: byte where "BlockMsgCoinbase = 2"
definition HeaderSizeLegacy :: nat where "HeaderSizeLegacy = 44"
definition HeaderSizeV2 :: nat where "HeaderSizeV2 = 92"
definition HeaderSizeV3 :: nat where "HeaderSizeV3 = 104"
definition BundleHeaderSize :: nat where "BundleHeaderSize = 66"
definition BundleMaxMembers :: nat where "BundleMaxMembers = 65535"
definition BEEFRecordTag :: u16 where "BEEFRecordTag = 0xBEEF"
definition BEEFRecordMaxEnvelope :: nat where "BEEFRecordMaxEnvelope = 983"
definition PowHeaderSize :: nat where "PowHeaderSize = 80"
definition GroupBlockBroadcast :: u32 where "GroupBlockBroadcast = 0xFFFE"
definition GroupBeacon :: u32 where "GroupBeacon = 0xFFFD"
definition GroupSubtreeGroupAnnounce :: u32 where "GroupSubtreeGroupAnnounce = 0xFFFC"
definition GroupSubtreeDataAnnounce :: u32 where "GroupSubtreeDataAnnounce = 0xFFFB"
definition GroupAnchorFlow :: u32 where "GroupAnchorFlow = 0xFFF9"
definition GroupCoinbaseFlow :: u32 where "GroupCoinbaseFlow = 0xFFF8"

lemmas wire_consts =
  MagicBSV_def FrameVerV1_def FrameVerV2_def FrameVerV4_def FrameVerV5_def FrameVerV6_def
  FrameVerV8_def FrameVerV9_def BlockMsgAnnounce_def BlockMsgCoinbase_def HeaderSizeLegacy_def
  HeaderSizeV2_def HeaderSizeV3_def BundleHeaderSize_def BundleMaxMembers_def BEEFRecordTag_def
  BEEFRecordMaxEnvelope_def PowHeaderSize_def GroupBlockBroadcast_def GroupBeacon_def
  GroupSubtreeGroupAnnounce_def GroupSubtreeDataAnnounce_def GroupAnchorFlow_def
  GroupCoinbaseFlow_def

subsection \<open>Decoded frames\<close>

record Frame =
  f_version :: byte
  f_txid :: bytes
  f_seq :: u64
  f_sub :: bytes
  f_payload :: bytes

record BlockFrame =
  bl_msgType :: byte
  bl_contentID :: bytes
  bl_payload :: bytes

record SubtreeDataFrame =
  sd_msgType :: byte
  sd_subtreeID :: bytes
  sd_payload :: bytes

record BEEFFrame =
  bf_contentID :: bytes
  bf_topicID :: bytes
  bf_deliver :: byte
  bf_payload :: bytes

text \<open>The arguments of \<^verbatim>\<open>frame.EncodeFragment\<close> after the buffer.\<close>

record fragment_hdr =
  fr_txid :: bytes
  fr_sub :: bytes
  fr_hash :: u64
  fr_seq :: u64
  fr_origLen :: u32
  fr_index :: u16
  fr_total :: u16
  fr_origVer :: byte
  fr_data :: bytes

record bundle_member =
  mb_txid :: bytes
  mb_tx :: bytes

record Bundle =
  bu_group :: u16
  bu_shardBits :: byte
  bu_subtree :: bytes
  bu_txidsPresent :: bool
  bu_hash :: u64
  bu_seq :: u64
  bu_members :: "bundle_member list"

text \<open>\<^verbatim>\<open>shard.Engine\<close>: its shard width, the group of a transaction, the address of a group.\<close>

record engine =
  eng_bits :: nat
  eng_group :: "bytes \<Rightarrow> u32"
  eng_addr :: "u32 \<Rightarrow> int \<Rightarrow> udp_addr"

text \<open>\<^verbatim>\<open>objfmt.Class\<close>.\<close>

datatype objclass = ClassTx | ClassSubtree | ClassBlock | ClassBEEF

subsection \<open>The library\<close>

text \<open>The functions of shard-common (and the text forms of addresses) the program calls.  A
  decoder or encoder that returns an error returns \<^const>\<open>None\<close>; \<open>EncodeFragment\<close> takes the length
  of the buffer it writes to and returns the datagram it wrote.\<close>

record lib =
  seqhash_Hash :: "bytes \<Rightarrow> u32 \<Rightarrow> bytes \<Rightarrow> u64"
  frame_Decode :: "bytes \<Rightarrow> Frame option"
  frame_DecodeBlock :: "bytes \<Rightarrow> BlockFrame option"
  frame_DecodeAnchor :: "bytes \<Rightarrow> Frame option"
  frame_DecodeSubtreeData :: "bytes \<Rightarrow> SubtreeDataFrame option"
  frame_DecodeBEEF :: "bytes \<Rightarrow> BEEFFrame option"
  frame_EncodeFragment :: "nat \<Rightarrow> fragment_hdr \<Rightarrow> bytes option"
  frame_SubtreeHdr :: nat
  objfmt_TxSize :: "bytes \<Rightarrow> nat option"
  objfmt_IsEF :: "bytes \<Rightarrow> bool"
  objfmt_TxID :: "bytes \<Rightarrow> bytes option"
  objfmt_MulticastBytes :: "objclass \<Rightarrow> bytes \<Rightarrow> bytes option"
  objfmt_DecodeBEEFRecord :: "bytes \<Rightarrow> (string list \<times> bytes \<times> nat) option"
  objfmt_IsBEEFObject :: "bytes \<Rightarrow> bool"
  objfmt_BEEFMulticastRecord :: "bytes \<Rightarrow> nat \<Rightarrow> bytes option"
  objfmt_SplitBEEFPayload :: "bytes \<Rightarrow> (bytes \<times> string list) option"
  objfmt_TopicID :: "string \<Rightarrow> bytes"
  objfmt_ContentID :: "bytes \<Rightarrow> bytes"
  pow_CheckHeader :: "bytes \<Rightarrow> nat option \<Rightarrow> bool"
  pow_CompactToTarget :: "u32 \<Rightarrow> nat"
  bundle_MemberOverhead :: "bool \<Rightarrow> nat"
  bundle_Encode :: "Bundle \<Rightarrow> bytes option"
  shard_GroupAddr :: "u16 \<Rightarrow> u16 \<Rightarrow> u32 \<Rightarrow> bytes"
  group_String :: "u32 \<Rightarrow> string"
  net_ParseHost :: "string \<Rightarrow> bytes"
  addr_String :: "net_addr \<Rightarrow> string"

subsection \<open>Metric events\<close>

datatype (plugins only: code size) ingress_class_label =
  IngressClassTx | IngressClassBlock | IngressClassCoinbase | IngressClassSubtree
| IngressClassAnchor | IngressClassBEEF

text \<open>One constructor per method of \<^verbatim>\<open>metrics.Recorder\<close> the data path calls, with its arguments.\<close>

datatype (plugins only: code size) event =
    PacketReceived string int nat
  | PacketDropped string int string
  | PacketForwarded string int u32 nat
  | FrameFragmented int nat
  | CoalesceFlushed string int nat string
  | TeeFailed string nat
  | ControlFrameForwarded string
  | IngressDeduped string int string
  | IngressMetered ingress_class_label bool nat
  | PrivilegedFrameRejected string
  | BlockPoWRejected
  | SubtreeRootCheck string
  | BEEFSubmission string
  | BEEFTopics nat nat
  | TCPConnectionAccepted
  | TCPBytesReceived nat
  | IngressError string int
  | EgressError string int
  | WorkerReady
  | WorkerDone
  | TCPIngressReady

end
