(* ===== verification/Batch.thy ===== *)
theory Batch
  imports Prelude
begin

text \<open>
  The batched write loops of \<^verbatim>\<open>forwarder/egress.go\<close>: \<^verbatim>\<open>writeBatchAll\<close>, which every socket
  writer of the program goes through, and the retry loop of \<^verbatim>\<open>flushReliable\<close>.  The kernel
  behind \<^verbatim>\<open>ipv6.PacketConn.WriteBatch\<close> is an argument: a function from the number of the call
  and the messages it is handed to the result of the call, so a property that holds for
  every such function holds for every behaviour of the socket.  Both loops are total.
\<close>

datatype send_err =
    ENOBUFS | EAGAIN | EWOULDBLOCK | EINTR
  | errNoBatchProgress
  | OtherErr string

type_synonym 'm writer = "nat \<Rightarrow> 'm list \<Rightarrow> int \<times> send_err option"

definition reliableRetryBackoff :: int where "reliableRetryBackoff = 200000"
definition maxReliableRetries :: nat where "maxReliableRetries = 50"

fun isTransientSendErr :: "send_err \<Rightarrow> bool" where
  "isTransientSendErr ENOBUFS = True"
| "isTransientSendErr EAGAIN = True"
| "isTransientSendErr EWOULDBLOCK = True"
| "isTransientSendErr EINTR = True"
| "isTransientSendErr errNoBatchProgress = False"
| "isTransientSendErr (OtherErr s) = False"

subsection \<open>The code\<close>

text \<open>The drain loop at offset \<open>off\<close>, \<open>c\<close> calls made so far: messages accepted, the error that
  stopped it, calls made.\<close>

function writeBatchFrom ::
  "'m writer \<Rightarrow> 'm list \<Rightarrow> nat \<Rightarrow> nat \<Rightarrow> nat \<times> send_err option \<times> nat" where
  "writeBatchFrom w ms c off =
     (if off < length ms then
        (case w c (drop off ms) of (n, err) \<Rightarrow>
           let off' = (if n > 0 then off + min (nat n) (length ms - off) else off) in
           case err of
             Some e \<Rightarrow> (off', Some e, Suc c)
           | None \<Rightarrow> if n \<le> 0 then (off', Some errNoBatchProgress, Suc c)
                     else writeBatchFrom w ms (Suc c) off')
      else (off, None, c))"
  by pat_completeness auto
termination by (relation "measure (\<lambda>(w, ms, c, off). length ms - off)") auto

declare writeBatchFrom.simps [simp del]

definition writeBatchAll ::
  "'m writer \<Rightarrow> nat \<Rightarrow> 'm list \<Rightarrow> nat \<times> send_err option \<times> nat" where
  "writeBatchAll w c ms = writeBatchFrom w ms c 0"

text \<open>The loop of \<^verbatim>\<open>flushReliable\<close>: messages accepted, the error it surrendered on, calls made,
  sleeps of \<^const>\<open>reliableRetryBackoff\<close> taken.\<close>

function reliableLoop ::
  "'m writer \<Rightarrow> 'm list \<Rightarrow> nat \<Rightarrow> nat \<Rightarrow> nat \<Rightarrow> nat \<Rightarrow> nat \<times> send_err option \<times> nat \<times> nat" where
  "reliableLoop w ms off attempts c sl =
     (if off < length ms then
        (case writeBatchAll w c (drop off ms) of (sent, err, c') \<Rightarrow>
           let off' = (if sent > 0 then off + sent else off);
               attempts' = (if sent > 0 then 0 else attempts) in
           if sent > 0 \<and> off' \<ge> length ms then (off', None, c', sl)
           else if (case err of None \<Rightarrow> False
                    | Some e \<Rightarrow> e \<noteq> errNoBatchProgress \<and> \<not> isTransientSendErr e)
           then (off', err, c', sl)
           else if attempts' \<ge> maxReliableRetries
           then (off', Some (case err of None \<Rightarrow> errNoBatchProgress | Some e \<Rightarrow> e), c', sl)
           else reliableLoop w ms off' (Suc attempts') c' (Suc sl))
      else (off, None, c, sl))"
  by pat_completeness auto
termination
  by (relation "measures [\<lambda>(w, ms, off, a, c, sl). length ms - off,
                          \<lambda>(w, ms, off, a, c, sl). maxReliableRetries - a]") auto

declare reliableLoop.simps [simp del]

definition drainReliable ::
  "'m writer \<Rightarrow> nat \<Rightarrow> 'm list \<Rightarrow> nat \<times> send_err option \<times> nat \<times> nat" where
  "drainReliable w c ms = reliableLoop w ms 0 0 c 0"

subsection \<open>What the loops guarantee\<close>

lemma writeBatchFrom_spec:
  "off \<le> length ms \<Longrightarrow>
   (case writeBatchFrom w ms c off of (n, err, c') \<Rightarrow>
      off \<le> n \<and> n \<le> length ms \<and> (err = None \<longrightarrow> n = length ms) \<and>
      c \<le> c' \<and> c' - c \<le> length ms - off)"
proof (induction w ms c off rule: writeBatchFrom.induct)
  case (1 w ms c off)
  show ?case
  proof (cases "off < length ms")
    case True
    obtain n err where w: "w c (drop off ms) = (n, err)" by fastforce
    show ?thesis
    proof (cases "err = None \<and> 0 < n")
      case True
      define off' where "off' = off + min (nat n) (length ms - off)"
      have o: "off < off'" "off' \<le> length ms"
        using True \<open>off < length ms\<close> by (simp_all add: off'_def)
      have "writeBatchFrom w ms c off = writeBatchFrom w ms (Suc c) off'"
        using w True \<open>off < length ms\<close> by (subst writeBatchFrom.simps) (simp add: Let_def off'_def)
      moreover have "case writeBatchFrom w ms (Suc c) off' of (n, err, c') \<Rightarrow>
          off' \<le> n \<and> n \<le> length ms \<and> (err = None \<longrightarrow> n = length ms) \<and>
          Suc c \<le> c' \<and> c' - Suc c \<le> length ms - off'"
        using 1(1) [OF \<open>off < length ms\<close> w [symmetric], of off'] True o by (simp add: off'_def)
      ultimately show ?thesis using o by auto
    next
      case False
      then show ?thesis using w \<open>off < length ms\<close>
        by (subst writeBatchFrom.simps) (auto simp: Let_def split: option.splits)
    qed
  next
    case False
    then show ?thesis using 1 by (subst writeBatchFrom.simps) simp
  qed
qed

lemma writeBatchAll_spec:
  assumes "writeBatchAll w c ms = (n, err, c')"
  shows "n \<le> length ms" "err = None \<Longrightarrow> n = length ms" "c \<le> c'" "c' - c \<le> length ms"
  using writeBatchFrom_spec [of 0 ms c w] assms by (auto simp: writeBatchAll_def)

text \<open>A socket that reports no error and makes some progress on every call takes the batch.\<close>


lemma reliableLoop_spec:
  "off \<le> length ms \<Longrightarrow> attempts \<le> maxReliableRetries \<Longrightarrow>
   (case reliableLoop w ms off attempts c sl of (n, err, c', sl') \<Rightarrow>
      off \<le> n \<and> n \<le> length ms \<and> (err = None \<longrightarrow> n = length ms) \<and> sl \<le> sl' \<and>
      sl' - sl \<le> (maxReliableRetries - attempts)
                  + maxReliableRetries * (length ms - off - 1))"
proof (induction w ms off attempts c sl rule: reliableLoop.induct)
  case (1 w ms off attempts c sl)
  show ?case
  proof (cases "off < length ms")
    case True
    obtain sent err c' where w: "writeBatchAll w c (drop off ms) = (sent, err, c')"
      by (metis prod_cases3)
    note sp = writeBatchAll_spec [OF w]
    define off' where "off' = (if sent > 0 then off + sent else off)"
    define att where "att = (if sent > 0 then 0 else attempts)"
    let ?hard = "case err of None \<Rightarrow> False
                    | Some e \<Rightarrow> e \<noteq> errNoBatchProgress \<and> \<not> isTransientSendErr e"
    have o: "off \<le> off'" "off' \<le> length ms" using sp(1) True by (auto simp: off'_def)
    have prog: "err = None \<Longrightarrow> 0 < sent \<and> off' = length ms"
      using sp(2) True by (auto simp: off'_def)
    have r: "reliableLoop w ms off attempts c sl =
       (if sent > 0 \<and> off' \<ge> length ms then (off', None, c', sl)
        else if ?hard then (off', err, c', sl)
        else if att \<ge> maxReliableRetries
        then (off', Some (case err of None \<Rightarrow> errNoBatchProgress | Some e \<Rightarrow> e), c', sl)
        else reliableLoop w ms off' (Suc att) c' (Suc sl))"
      using True w by (subst reliableLoop.simps) (simp add: Let_def off'_def att_def)
    show ?thesis
    proof (cases "(sent > 0 \<and> off' \<ge> length ms) \<or> ?hard \<or> att \<ge> maxReliableRetries")
      case True
      then show ?thesis using o prog unfolding r by (auto split: option.splits)
    next
      case False
      have IH: "case reliableLoop w ms off' (Suc att) c' (Suc sl) of (n, err, c', sl') \<Rightarrow>
          off' \<le> n \<and> n \<le> length ms \<and> (err = None \<longrightarrow> n = length ms) \<and> Suc sl \<le> sl' \<and>
          sl' - Suc sl \<le> (maxReliableRetries - Suc att)
             + maxReliableRetries * (length ms - off' - 1)"
        using 1(1) [OF \<open>off < length ms\<close> w [symmetric] refl off'_def att_def] False o by simp
      have budget: "Suc ((maxReliableRetries - Suc att) + maxReliableRetries * (length ms - off' - 1))
          \<le> (maxReliableRetries - attempts) + maxReliableRetries * (length ms - off - 1)"
      proof (cases "sent > 0")
        case True
        then have "off < off'" "off' < length ms" using False by (auto simp: off'_def)
        then have "length ms - off' - 1 + 1 \<le> length ms - off - 1" by linarith
        then have "maxReliableRetries * (length ms - off' - 1 + 1) \<le>
            maxReliableRetries * (length ms - off - 1)" by (rule mult_le_mono2)
        then show ?thesis using True False by (simp add: att_def maxReliableRetries_def)
      next
        case no: False
        have "attempts < maxReliableRetries" using no False by (simp add: att_def)
        then show ?thesis using no by (simp add: att_def off'_def)
      qed
      define B where "B = (maxReliableRetries - attempts) + maxReliableRetries * (length ms - off - 1)"
      define B' where
        "B' = (maxReliableRetries - Suc att) + maxReliableRetries * (length ms - off' - 1)"
      have BB: "Suc B' \<le> B" using budget unfolding B_def B'_def .
      have r': "reliableLoop w ms off attempts c sl = reliableLoop w ms off' (Suc att) c' (Suc sl)"
        using False unfolding r by auto
      show ?thesis
        using IH BB o unfolding B_def [symmetric] B'_def [symmetric] r' by auto
    qed
  next
    case False
    then show ?thesis using 1(2) by (subst reliableLoop.simps) simp
  qed
qed

lemma drainReliable_spec:
  assumes "drainReliable w c ms = (n, err, c', sl)"
  shows "n \<le> length ms" "err = None \<Longrightarrow> n = length ms"
    "sl \<le> maxReliableRetries * length ms"
proof -
  have sp: "n \<le> length ms \<and> (err = None \<longrightarrow> n = length ms) \<and>
      sl \<le> maxReliableRetries + maxReliableRetries * (length ms - 1)"
    using reliableLoop_spec [where off = 0 and attempts = 0 and w = w and ms = ms and c = c and sl = 0]
      assms by (simp add: drainReliable_def)
  then show "n \<le> length ms" "err = None \<Longrightarrow> n = length ms" by auto
  show "sl \<le> maxReliableRetries * length ms"
  proof (cases ms)
    case Nil
    then show ?thesis using assms by (simp add: drainReliable_def reliableLoop.simps)
  next
    case (Cons m ms')
    then show ?thesis using sp by (simp add: algebra_simps)
  qed
qed

subsection \<open>The contract of a drain\<close>

text \<open>What the accounting of a flush relies on, whatever the lane: the messages accepted are a
  prefix of the batch, and a nil error means the whole batch.\<close>

locale batch_drain =
  fixes drain :: "'w \<Rightarrow> nat \<Rightarrow> 'm list \<Rightarrow> nat \<times> send_err option \<times> nat"
  assumes bound: "drain w c ms = (n, err, c') \<Longrightarrow> n \<le> length ms"
    and complete: "drain w c ms = (n, None, c') \<Longrightarrow> n = length ms"
begin

definition accepted :: "'w \<Rightarrow> nat \<Rightarrow> 'm list \<Rightarrow> 'm list" where
  "accepted w c ms = take (fst (drain w c ms)) ms"

definition lost :: "'w \<Rightarrow> nat \<Rightarrow> 'm list \<Rightarrow> 'm list" where
  "lost w c ms = drop (fst (drain w c ms)) ms"

lemma conserved: "accepted w c ms @ lost w c ms = ms"
  by (simp add: accepted_def lost_def)

lemma counts:
  "length (accepted w c ms) = fst (drain w c ms)"
  "length (lost w c ms) = length ms - fst (drain w c ms)"
  "fst (drain w c ms) \<le> length ms"
proof -
  show b: "fst (drain w c ms) \<le> length ms"
    by (rule bound [of w c ms _ "fst (snd (drain w c ms))" "snd (snd (drain w c ms))"]) simp
  then show "length (accepted w c ms) = fst (drain w c ms)" by (simp add: accepted_def)
  show "length (lost w c ms) = length ms - fst (drain w c ms)" by (simp add: lost_def)
qed

lemma nothing_lost: "fst (snd (drain w c ms)) = None \<Longrightarrow> lost w c ms = [] \<and> accepted w c ms = ms"
  using complete [of w c ms "fst (drain w c ms)" "snd (snd (drain w c ms))"]
  by (cases "drain w c ms") (auto simp: accepted_def lost_def)

end

interpretation lossy: batch_drain writeBatchAll
  by unfold_locales (auto dest: writeBatchAll_spec)

definition drainReliable' :: "'m writer \<Rightarrow> nat \<Rightarrow> 'm list \<Rightarrow> nat \<times> send_err option \<times> nat" where
  "drainReliable' w c ms = (case drainReliable w c ms of (n, err, c', sl) \<Rightarrow> (n, err, c'))"

interpretation reliable: batch_drain drainReliable'
  by unfold_locales
    (auto simp: drainReliable'_def split: prod.splits dest: drainReliable_spec)

text \<open>A socket that takes at least one message on every call and reports no error.\<close>

definition healthy :: "'m writer \<Rightarrow> bool" where
  "healthy w \<longleftrightarrow> (\<forall>c ms. ms \<noteq> [] \<longrightarrow> 0 < fst (w c ms) \<and> snd (w c ms) = None)"

lemma writeBatchFrom_healthy:
  "healthy w \<Longrightarrow> off \<le> length ms \<Longrightarrow> fst (snd (writeBatchFrom w ms c off)) = None"
proof (induction w ms c off rule: writeBatchFrom.induct)
  case (1 w ms c off)
  show ?case
  proof (cases "off < length ms")
    case True
    obtain n err where w: "w c (drop off ms) = (n, err)" by fastforce
    have h: "0 < n" "err = None"
      using 1(2) True w unfolding healthy_def by (metis drop_eq_Nil fst_conv not_le snd_conv)+
    have "writeBatchFrom w ms c off = writeBatchFrom w ms (Suc c) (off + min (nat n) (length ms - off))"
      using True w h by (subst writeBatchFrom.simps) (simp add: Let_def)
    then show ?thesis using 1(1) [OF True w [symmetric] refl] h 1(2) True by simp
  next
    case False
    then show ?thesis by (subst writeBatchFrom.simps) simp
  qed
qed

subsection \<open>Properties\<close>

text \<open>\<^verbatim>\<open>writeBatchAll\<close> terminates after at most one call per message, reports a count within the
  batch, and reports no error only when it wrote the whole batch; and a socket that takes only
  one message per call (the portable fallback) still gets the whole batch.\<close>

lemma writeBatchAll_drains:
  "(case writeBatchAll w c ms of (n, err, c') \<Rightarrow>
      n \<le> length ms \<and> (err = None \<longrightarrow> n = length ms) \<and> c \<le> c' \<and> c' - c \<le> length ms) \<and>
   (healthy w \<longrightarrow> fst (writeBatchAll w c ms) = length ms \<and> fst (snd (writeBatchAll w c ms)) = None)"
proof -
  have "fst (writeBatchAll w c ms) = length ms" if "fst (snd (writeBatchAll w c ms)) = None"
    using that writeBatchAll_spec(2) [of w c ms] by (metis prod.collapse)
  then show ?thesis
    using writeBatchFrom_healthy [of w 0 ms c] writeBatchAll_spec [of w c ms]
    by (auto simp: writeBatchAll_def)
qed



end
