(* ===== verification/RetryTee.thy ===== *)
theory RetryTee
  imports Batch Common "HOL-Library.Sublist"
begin

text \<open>
  \<^verbatim>\<open>forwarder/retrytee.go\<close>: the bounded, asynchronous copy of egressed datagrams to a
  co-located cache.  The egress goroutine appends copies and hands batches over; the sender
  goroutine receives a batch and writes it.  The two are interleaved by the step relation
  \<open>tee_step\<close>.  Copy buffers are counted (\<open>t_out\<close> are taken from the pool and not returned);
  \<open>t_sent\<close> is what the socket accepted, in order.
\<close>

subsection \<open>The code\<close>

definition teeQueueDepth :: nat where "teeQueueDepth = 64"
definition teeBufSize :: nat where "teeBufSize = 16384"

record teeBatch =
  tb_msgs :: "bytes list"
  tb_bufs :: nat

record retryTee =
  t_owned :: bool
  t_rec :: bool
  t_kind :: string
  t_failed :: u64
  t_msgs :: "bytes list"
  t_bufs :: nat
  t_started :: bool
  t_closed :: bool
  t_queue :: "teeBatch list"
  t_hand :: "teeBatch option"
  t_open :: bool
  t_out :: nat
  t_calls :: nat
  t_sent :: "bytes list"

definition newTee :: "bool \<Rightarrow> bool \<Rightarrow> string \<Rightarrow> retryTee" where
  "newTee owned rec kind =
     \<lparr>t_owned = owned, t_rec = rec, t_kind = kind, t_failed = 0, t_msgs = [], t_bufs = 0,
      t_started = False, t_closed = False, t_queue = [], t_hand = None, t_open = True,
      t_out = 0, t_calls = 0, t_sent = []\<rparr>"

definition tee_append :: "bytes \<Rightarrow> retryTee \<Rightarrow> retryTee" where
  "tee_append raw t =
     (if length raw \<le> teeBufSize
      then t\<lparr>t_msgs := t_msgs t @ [raw], t_bufs := Suc (t_bufs t), t_out := Suc (t_out t)\<rparr>
      else t\<lparr>t_msgs := t_msgs t @ [raw]\<rparr>)"

definition tee_missed :: "nat \<Rightarrow> nat \<Rightarrow> retryTee \<Rightarrow> retryTee \<times> event list" where
  "tee_missed queued sent t =
     (t\<lparr>t_failed := t_failed t + of_nat (queued - sent)\<rparr>,
      if t_rec t then [TeeFailed (t_kind t) (queued - sent)] else [])"

definition tee_release :: "teeBatch \<Rightarrow> retryTee \<Rightarrow> retryTee" where
  "tee_release b t = t\<lparr>t_out := t_out t - tb_bufs b\<rparr>"

definition tee_dropped :: "teeBatch \<Rightarrow> retryTee \<Rightarrow> retryTee \<times> event list" where
  "tee_dropped b t =
     (case tee_missed (length (tb_msgs b)) 0 t of (t1, ev) \<Rightarrow> (tee_release b t1, ev))"

definition tee_flush :: "retryTee \<Rightarrow> retryTee \<times> event list" where
  "tee_flush t =
     (if t_msgs t = [] then (t, [])
      else
        let b = \<lparr>tb_msgs = t_msgs t, tb_bufs = t_bufs t\<rparr>;
            t1 = t\<lparr>t_msgs := [], t_bufs := 0\<rparr>
        in if t_closed t1 then tee_dropped b t1
           else
             let t2 = t1\<lparr>t_started := True\<rparr>
             in if length (t_queue t2) < teeQueueDepth
                then (t2\<lparr>t_queue := t_queue t2 @ [b]\<rparr>, [])
                else tee_dropped b t2)"

text \<open>The sender goroutine: receive the next batch, then write and release it.\<close>

definition tee_recv :: "retryTee \<Rightarrow> retryTee option" where
  "tee_recv t =
     (case (t_hand t, t_queue t) of
        (None, b # q) \<Rightarrow> Some (t\<lparr>t_hand := Some b, t_queue := q\<rparr>)
      | _ \<Rightarrow> None)"

definition tee_write :: "bytes writer \<Rightarrow> teeBatch \<Rightarrow> retryTee \<Rightarrow> retryTee \<times> event list" where
  "tee_write w b t =
     (if tb_msgs b = [] then (tee_release b t, [])
      else
        case writeBatchAll w (t_calls t) (tb_msgs b) of (sent, err, c) \<Rightarrow>
          let t1 = t\<lparr>t_calls := c, t_sent := t_sent t @ take sent (tb_msgs b)\<rparr>;
              (t2, ev) = (if err \<noteq> None \<or> sent < length (tb_msgs b)
                          then tee_missed (length (tb_msgs b)) sent t1 else (t1, []))
          in (tee_release b t2, ev))"

definition tee_run :: "bytes writer \<Rightarrow> retryTee \<Rightarrow> (retryTee \<times> event list) option" where
  "tee_run w t =
     (case t_hand t of
        None \<Rightarrow> None
      | Some b \<Rightarrow> Some (tee_write w b (t\<lparr>t_hand := None\<rparr>)))"

text \<open>Run the sender until it has nothing left: what \<^verbatim>\<open>wait\<close> and \<^verbatim>\<open>close\<close> block for.\<close>

fun tee_writes :: "bytes writer \<Rightarrow> teeBatch list \<Rightarrow> retryTee \<Rightarrow> retryTee \<times> event list" where
  "tee_writes w [] t = (t, [])"
| "tee_writes w (b # bs) t =
     (case tee_write w b t of (t1, ev1) \<Rightarrow>
        (case tee_writes w bs t1 of (t2, ev2) \<Rightarrow> (t2, ev1 @ ev2)))"

definition tee_pending :: "retryTee \<Rightarrow> teeBatch list" where
  "tee_pending t = (case t_hand t of None \<Rightarrow> [] | Some b \<Rightarrow> [b]) @ t_queue t"

definition tee_wait :: "bytes writer \<Rightarrow> retryTee \<Rightarrow> retryTee \<times> event list" where
  "tee_wait w t =
     (if \<not> t_started t \<or> t_closed t then (t, [])
      else tee_writes w (tee_pending t) (t\<lparr>t_hand := None, t_queue := []\<rparr>))"

definition tee_close :: "bytes writer \<Rightarrow> retryTee \<Rightarrow> retryTee \<times> event list" where
  "tee_close w t =
     (let t1 = t\<lparr>t_closed := True\<rparr>;
          (t2, ev) = (if t_started t1
                      then tee_writes w (tee_pending t1) (t1\<lparr>t_hand := None, t_queue := []\<rparr>)
                      else (t1, []))
      in (if t_owned t2 then t2\<lparr>t_open := False\<rparr> else t2, ev))"

text \<open>One step of either goroutine; the first component is everything appended so far.\<close>

inductive tee_step :: "bytes writer \<Rightarrow> bytes list \<times> retryTee \<Rightarrow> bytes list \<times> retryTee \<Rightarrow> bool"
  for w where
  append: "tee_step w (ap, t) (ap @ [raw], tee_append raw t)"
| flush: "tee_step w (ap, t) (ap, fst (tee_flush t))"
| recv: "tee_recv t = Some t' \<Longrightarrow> tee_step w (ap, t) (ap, t')"
| run: "tee_run w t = Some (t', ev) \<Longrightarrow> tee_step w (ap, t) (ap, t')"
| close: "tee_step w (ap, t) (ap, fst (tee_close w t))"

subsection \<open>Conservation\<close>

text \<open>What must hold of the datagrams appended so far, for a tee whose pending batches are
  \<open>bs\<close>: every datagram is sent, pending, unflushed or counted as failed, the first three in
  order, and every pooled buffer belongs to a batch.\<close>

definition tee_core :: "bytes list \<Rightarrow> teeBatch list \<Rightarrow> retryTee \<Rightarrow> bool" where
  "tee_core ap bs t \<longleftrightarrow>
     subseq (t_sent t @ concat (map tb_msgs bs) @ t_msgs t) ap \<and>
     of_nat (length ap) =
       of_nat (length (t_sent t @ concat (map tb_msgs bs) @ t_msgs t)) + t_failed t \<and>
     t_out t = sum_list (map tb_bufs bs) + t_bufs t"

definition tee_inv :: "bytes list \<Rightarrow> retryTee \<Rightarrow> bool" where
  "tee_inv ap t \<longleftrightarrow>
     length (t_queue t) \<le> teeQueueDepth \<and>
     (\<not> t_started t \<longrightarrow> tee_pending t = []) \<and> tee_core ap (tee_pending t) t"

lemma tee_inv_new: "tee_inv [] (newTee owned rec kind)"
  by (simp add: tee_inv_def newTee_def tee_core_def tee_pending_def)

lemma subseq_drop_mid: "subseq (xs @ ys @ zs) as \<Longrightarrow> subseq (xs @ zs) as"
  by (meson list_emb_append_mono subseq_order.dual_order.trans subseq_order.order_refl
      list_emb_append2)

lemma tee_core_append:
  assumes "tee_core ap bs t"
  shows "tee_core (ap @ [raw]) bs (tee_append raw t)"
proof -
  have "subseq ((t_sent t @ concat (map tb_msgs bs) @ t_msgs t) @ [raw]) (ap @ [raw])"
    using assms by (intro list_emb_append_mono) (simp_all add: tee_core_def)
  then show ?thesis using assms by (simp add: tee_core_def tee_append_def)
qed

lemma tee_write_effect:
  "\<exists>n c. n \<le> length (tb_msgs b) \<and>
     fst (tee_write w b t) =
       t\<lparr>t_calls := c, t_sent := t_sent t @ take n (tb_msgs b),
         t_failed := t_failed t + of_nat (length (tb_msgs b) - n), t_out := t_out t - tb_bufs b\<rparr>"
proof (cases "tb_msgs b = []")
  case True
  then show ?thesis by (intro exI [of _ 0] exI [of _ "t_calls t"]) (simp add: tee_write_def tee_release_def)
next
  case False
  obtain n err c where w: "writeBatchAll w (t_calls t) (tb_msgs b) = (n, err, c)"
    by (metis prod_cases3)
  have n: "n \<le> length (tb_msgs b)" using writeBatchAll_spec(1) [OF w] .
  have keep: "t\<lparr>t_calls := c, t_sent := s, t_out := k\<rparr> =
      t\<lparr>t_calls := c, t_sent := s, t_failed := t_failed t + of_nat m, t_out := k\<rparr>"
    if "m = 0" for s k m
    using that by (cases t) simp
  show ?thesis
  proof (cases "err \<noteq> None \<or> n < length (tb_msgs b)")
    case True
    then show ?thesis using False w n
      by (intro exI [of _ n] exI [of _ c]) (simp add: tee_write_def tee_release_def tee_missed_def Let_def)
  next
    case all: False
    then have z: "length (tb_msgs b) - n = 0" by simp
    have "fst (tee_write w b t) =
        t\<lparr>t_calls := c, t_sent := t_sent t @ take n (tb_msgs b), t_out := t_out t - tb_bufs b\<rparr>"
      using False w all by (simp add: tee_write_def tee_release_def Let_def)
    also have "\<dots> = t\<lparr>t_calls := c, t_sent := t_sent t @ take n (tb_msgs b),
         t_failed := t_failed t + of_nat (length (tb_msgs b) - n), t_out := t_out t - tb_bufs b\<rparr>"
      by (rule keep [OF z])
    finally show ?thesis using n by blast
  qed
qed

lemma tee_write_frame [frame_simps]:
  "t_queue (fst (tee_write w b t)) = t_queue t" "t_hand (fst (tee_write w b t)) = t_hand t"
  "t_started (fst (tee_write w b t)) = t_started t" "t_msgs (fst (tee_write w b t)) = t_msgs t"
  "t_closed (fst (tee_write w b t)) = t_closed t" "t_owned (fst (tee_write w b t)) = t_owned t"
  using tee_write_effect [of b w t] by auto

lemma tee_core_write:
  assumes "tee_core ap (b # bs) t"
  shows "tee_core ap bs (fst (tee_write w b t))"
proof -
  obtain n c where n: "n \<le> length (tb_msgs b)" and e: "fst (tee_write w b t) =
       t\<lparr>t_calls := c, t_sent := t_sent t @ take n (tb_msgs b),
         t_failed := t_failed t + of_nat (length (tb_msgs b) - n), t_out := t_out t - tb_bufs b\<rparr>"
    using tee_write_effect [of b w t] by auto
  let ?r = "concat (map tb_msgs bs) @ t_msgs t"
  have "subseq ((t_sent t @ take n (tb_msgs b)) @ drop n (tb_msgs b) @ ?r) ap"
    using assms by (simp add: tee_core_def) (simp flip: append_assoc)
  from subseq_drop_mid [OF this] show ?thesis
    using assms n unfolding e by (simp add: tee_core_def of_nat_diff)
qed

lemma tee_core_drop:
  assumes "tee_core ap bs t"
  shows "tee_core ap bs (fst (tee_dropped \<lparr>tb_msgs = t_msgs t, tb_bufs = t_bufs t\<rparr>
           (t\<lparr>t_msgs := [], t_bufs := 0\<rparr>)))"
proof -
  have "subseq ((t_sent t @ concat (map tb_msgs bs)) @ t_msgs t @ []) ap"
    using assms by (simp add: tee_core_def)
  from subseq_drop_mid [OF this] show ?thesis
    using assms by (simp add: tee_core_def tee_dropped_def tee_missed_def tee_release_def algebra_simps)
qed

lemma tee_core_closed [simp]:
  "tee_core ap bs (t\<lparr>t_started := x\<rparr>) = tee_core ap bs t"
  "tee_core ap bs (t\<lparr>t_closed := x\<rparr>) = tee_core ap bs t"
  "tee_core ap bs (t\<lparr>t_open := x\<rparr>) = tee_core ap bs t"
  "tee_core ap bs (t\<lparr>t_hand := h\<rparr>) = tee_core ap bs t"
  "tee_core ap bs (t\<lparr>t_queue := q\<rparr>) = tee_core ap bs t"
  by (simp_all add: tee_core_def)

lemma tee_dropped_frame:
  "t_queue (fst (tee_dropped b t)) = t_queue t" "t_hand (fst (tee_dropped b t)) = t_hand t"
  "t_started (fst (tee_dropped b t)) = t_started t"
  by (simp_all add: tee_dropped_def tee_missed_def tee_release_def)

lemma tee_inv_flush:
  assumes "tee_inv ap t"
  shows "tee_inv ap (fst (tee_flush t))"
proof -
  let ?b = "\<lparr>tb_msgs = t_msgs t, tb_bufs = t_bufs t\<rparr>"
  let ?t1 = "t\<lparr>t_msgs := [], t_bufs := 0\<rparr>"
  have core: "tee_core ap (tee_pending t) t" using assms by (simp add: tee_inv_def)
  consider "t_msgs t = []" | "t_msgs t \<noteq> []" "t_closed t"
    | "t_msgs t \<noteq> []" "\<not> t_closed t" "length (t_queue t) < teeQueueDepth"
    | "t_msgs t \<noteq> []" "\<not> t_closed t" "\<not> length (t_queue t) < teeQueueDepth" by blast
  then show ?thesis
  proof cases
    case 1
    then show ?thesis using assms by (simp add: tee_flush_def)
  next
    case 2
    then show ?thesis using assms tee_core_drop [OF core]
      by (simp add: tee_flush_def Let_def tee_inv_def tee_dropped_frame tee_pending_def)
  next
    case 3
    then show ?thesis using assms
      by (auto simp: tee_flush_def Let_def tee_inv_def tee_pending_def tee_core_def)
  next
    case 4
    have "tee_core ap (tee_pending t) (t\<lparr>t_started := True\<rparr>)" using core by simp
    from tee_core_drop [OF this]
    have "tee_core ap (tee_pending t)
        (fst (tee_dropped ?b (t\<lparr>t_started := True\<rparr>\<lparr>t_msgs := [], t_bufs := 0\<rparr>)))" by simp
    moreover have eq: "t\<lparr>t_started := True\<rparr>\<lparr>t_msgs := [], t_bufs := 0\<rparr> = ?t1\<lparr>t_started := True\<rparr>"
      by (cases t) simp
    ultimately have "tee_core ap (tee_pending t) (fst (tee_dropped ?b (?t1\<lparr>t_started := True\<rparr>)))"
      unfolding eq by blast
    then show ?thesis using assms 4
      by (simp add: tee_flush_def Let_def tee_inv_def tee_dropped_frame tee_pending_def)
  qed
qed

lemma tee_append_frame:
  "t_queue (tee_append raw t) = t_queue t" "t_hand (tee_append raw t) = t_hand t"
  "t_started (tee_append raw t) = t_started t"
  by (simp_all add: tee_append_def)

lemma tee_inv_recv: "tee_inv ap t \<Longrightarrow> tee_recv t = Some t' \<Longrightarrow> tee_inv ap t'"
  by (auto simp: tee_inv_def tee_recv_def tee_pending_def split: option.splits list.splits)

lemma tee_inv_run:
  assumes "tee_inv ap t" "tee_run w t = Some (t', ev)"
  shows "tee_inv ap t'"
proof -
  obtain b where b: "t_hand t = Some b" "t' = fst (tee_write w b (t\<lparr>t_hand := None\<rparr>))"
    using assms(2) by (auto simp: tee_run_def split: option.splits dest: sym)
  have "tee_core ap (b # t_queue t) (t\<lparr>t_hand := None\<rparr>)"
    using assms(1) b(1) by (simp add: tee_inv_def tee_pending_def)
  from tee_core_write [OF this, of w] show ?thesis
    using assms(1) b by (auto simp: tee_inv_def tee_pending_def tee_write_frame)
qed

lemma tee_core_writes:
  "tee_core ap bs t \<Longrightarrow> tee_core ap [] (fst (tee_writes w bs t)) \<and>
   t_queue (fst (tee_writes w bs t)) = t_queue t \<and> t_hand (fst (tee_writes w bs t)) = t_hand t"
proof (induction bs arbitrary: t)
  case (Cons b bs)
  from Cons.IH [OF tee_core_write [OF Cons.prems, of w]] show ?case
    by (simp add: split_def tee_write_frame)
qed simp

lemma tee_close_drains:
  assumes "tee_inv ap t"
  shows "tee_core ap [] (fst (tee_close w t)) \<and> tee_pending (fst (tee_close w t)) = []"
proof -
  let ?t1 = "t\<lparr>t_closed := True, t_hand := None, t_queue := []\<rparr>"
  have "tee_core ap (tee_pending t) ?t1" using assms by (simp add: tee_inv_def)
  from tee_core_writes [OF this, of w] assms show ?thesis
    by (auto simp: tee_close_def Let_def split_def tee_pending_def tee_inv_def)
qed

lemma tee_inv_close: "tee_inv ap t \<Longrightarrow> tee_inv ap (fst (tee_close w t))"
  using tee_close_drains [of ap t w] by (auto simp: tee_inv_def tee_pending_def split: option.splits)

lemma tee_inv_step: "tee_step w p q \<Longrightarrow> tee_inv (fst p) (snd p) \<Longrightarrow> tee_inv (fst q) (snd q)"
proof (induction rule: tee_step.induct)
  case (append ap t raw)
  then show ?case by (simp add: tee_inv_def tee_pending_def tee_append_frame tee_core_append)
qed (auto intro: tee_inv_flush tee_inv_recv tee_inv_run tee_inv_close)

lemma tee_inv_reachable:
  "(tee_step w)\<^sup>*\<^sup>* p q \<Longrightarrow> tee_inv (fst p) (snd p) \<Longrightarrow> tee_inv (fst q) (snd q)"
  by (induction rule: rtranclp_induct) (auto intro: tee_inv_step)

lemma tee_step_run:
  assumes "t_hand t = None" "t_queue t = b # q"
  shows "(tee_step w)\<^sup>*\<^sup>* (ap, t)
    (ap, fst (tee_write w b (t\<lparr>t_hand := Some b, t_queue := q\<rparr>\<lparr>t_hand := None\<rparr>)))"
proof -
  let ?t1 = "t\<lparr>t_hand := Some b, t_queue := q\<rparr>"
  have "tee_step w (ap, t) (ap, ?t1)"
    by (rule tee_step.recv) (simp add: tee_recv_def assms)
  moreover have "tee_step w (ap, ?t1) (ap, fst (tee_write w b (?t1\<lparr>t_hand := None\<rparr>)))"
    by (rule tee_step.run [where ev = "snd (tee_write w b (?t1\<lparr>t_hand := None\<rparr>))"])
      (simp add: tee_run_def)
  ultimately show ?thesis by (meson r_into_rtranclp rtranclp_trans)
qed

lemma tee_writes_healthy:
  "healthy w \<Longrightarrow> t_sent (fst (tee_writes w bs t)) = t_sent t @ concat (map tb_msgs bs) \<and>
     t_failed (fst (tee_writes w bs t)) = t_failed t \<and> t_msgs (fst (tee_writes w bs t)) = t_msgs t \<and>
     t_closed (fst (tee_writes w bs t)) = t_closed t"
proof (induction bs arbitrary: t)
  case (Cons b bs)
  have "fst (writeBatchAll w (t_calls t) (tb_msgs b)) = length (tb_msgs b) \<and>
        fst (snd (writeBatchAll w (t_calls t) (tb_msgs b))) = None"
  proof -
    have e: "fst (snd (writeBatchAll w (t_calls t) (tb_msgs b))) = None"
      using writeBatchFrom_healthy [OF Cons.prems, of 0] by (simp add: writeBatchAll_def)
    then show ?thesis using writeBatchAll_spec(2) [of w "t_calls t" "tb_msgs b"]
      by (metis prod.collapse)
  qed
  then have "t_sent (fst (tee_write w b t)) = t_sent t @ tb_msgs b \<and>
      t_failed (fst (tee_write w b t)) = t_failed t"
    by (auto simp: tee_write_def tee_release_def Let_def split: prod.splits)
  then show ?case using Cons.IH [OF Cons.prems, of "fst (tee_write w b t)"]
    by (simp add: split_def tee_write_frame)
qed simp

subsection \<open>Properties\<close>

text \<open>C17.  Whatever the interleaving of the egress goroutine (append, flush, close) with the tee's
  sender, and whatever the loopback socket does: the sender's queue holds at most 64 batches, what
  the cache was sent is a subsequence of what was appended, every appended datagram is sent, still
  held or counted as failed, and every pooled copy buffer belongs to a batch the tee still holds.\<close>

theorem tee_conserves:
  assumes "(tee_step w)\<^sup>*\<^sup>* ([], newTee owned rec kind) (ap, t)"
  shows "length (t_queue t) \<le> 64 \<and> subseq (t_sent t) ap \<and>
     of_nat (length ap) = of_nat (length (t_sent t))
       + of_nat (length (concat (map tb_msgs (tee_pending t)) @ t_msgs t)) + t_failed t \<and>
     t_out t = sum_list (map tb_bufs (tee_pending t)) + t_bufs t"
proof -
  have "tee_inv ap t" using tee_inv_reachable [OF assms] tee_inv_new by simp
  then have i: "length (t_queue t) \<le> teeQueueDepth" "tee_core ap (tee_pending t) t"
    by (simp_all add: tee_inv_def)
  then have "subseq (t_sent t @ (concat (map tb_msgs (tee_pending t)) @ t_msgs t) @ []) ap"
    by (simp add: tee_core_def)
  from subseq_drop_mid [OF this] i show ?thesis
    by (simp add: tee_core_def teeQueueDepth_def add.assoc)
qed

theorem tee_conserves_witness:
  "\<exists>t. (tee_step (\<lambda>c ms. (1, Some ENOBUFS)))\<^sup>*\<^sup>* ([], newTee True True ''retry'') ([[1], [2]], t) \<and>
     t_sent t = [[1]] \<and> t_failed t = 1 \<and> of_nat (length [[1], [2 :: nat]]) = (2 :: u64)"
proof -
  let ?w = "\<lambda>c ms. (1, Some ENOBUFS)" and ?n = "newTee True True ''retry''"
  let ?t2 = "tee_append [2] (tee_append [1] ?n)" and ?b = "\<lparr>tb_msgs = [[1], [2]], tb_bufs = 2\<rparr>"
  let ?t3 = "fst (tee_flush ?t2)"
  have t3: "t_hand ?t3 = None" "t_queue ?t3 = ?b # []" "t_sent ?t3 = []" "t_failed ?t3 = 0"
    by (simp_all add: tee_flush_def tee_append_def newTee_def teeBufSize_def teeQueueDepth_def)
  let ?t4 = "fst (tee_write ?w ?b (?t3\<lparr>t_hand := Some ?b, t_queue := []\<rparr>\<lparr>t_hand := None\<rparr>))"
  have a: "tee_step ?w ([], ?n) ([[1]], tee_append [1] ?n)"
    using tee_step.append [of ?w "[]" ?n "[1]"] by simp
  have b: "tee_step ?w ([[1]], tee_append [1] ?n) ([[1], [2]], ?t2)"
    using tee_step.append [of ?w "[[1]]" "tee_append [1] ?n" "[2]"] by simp
  have c: "tee_step ?w ([[1], [2]], ?t2) ([[1], [2]], ?t3)" by (rule tee_step.flush)
  have "(tee_step ?w)\<^sup>*\<^sup>* ([], ?n) ([[1], [2]], ?t3)"
    using a b c by (meson r_into_rtranclp rtranclp_trans)
  then have r: "(tee_step ?w)\<^sup>*\<^sup>* ([], ?n) ([[1], [2]], ?t4)"
    using tee_step_run [OF t3(1,2), of ?w "[[1], [2]]"] by (rule rtranclp_trans)
  have "t_sent ?t4 = [[1]]" "t_failed ?t4 = 1"
    using t3 by (simp_all add: tee_write_def tee_release_def tee_missed_def writeBatchAll_def
        writeBatchFrom.simps Let_def)
  with r tee_conserves [OF r] show ?thesis by auto
qed

text \<open>Closing a tee loses nothing that was handed to its sender: after \<^verbatim>\<open>close\<close> no batch is
  pending, over a healthy socket every flushed datagram has been sent in order, and a flush that
  comes later drops its batch and counts it.\<close>

lemma tee_close_delivers:
  assumes "(tee_step w)\<^sup>*\<^sup>* ([], newTee owned rec kind) (ap, t)" "healthy w"
  shows "let t' = fst (tee_close w t) in
     tee_pending t' = [] \<and> t_sent t' = t_sent t @ concat (map tb_msgs (tee_pending t)) \<and>
     t_failed t' = t_failed t \<and>
     t_failed (fst (tee_flush (tee_append raw t'))) = t_failed t' + of_nat (length (t_msgs t) + 1)"
proof -
  have i: "tee_inv ap t" using tee_inv_reachable [OF assms(1)] tee_inv_new by simp
  let ?t' = "fst (tee_close w t)"
  have pend: "tee_pending ?t' = []" using tee_close_drains [OF i] by simp
  have ns: "\<not> t_started t \<Longrightarrow> tee_pending t = []" using i by (simp add: tee_inv_def)
  have s: "t_sent ?t' = t_sent t @ concat (map tb_msgs (tee_pending t))" "t_failed ?t' = t_failed t"
    "t_msgs ?t' = t_msgs t" "t_closed ?t'"
    using tee_writes_healthy [OF assms(2), of "tee_pending t" "t\<lparr>t_closed := True, t_hand := None, t_queue := []\<rparr>"] ns
    by (auto simp: tee_close_def Let_def split_def tee_pending_def)
  have "t_failed (fst (tee_flush (tee_append raw ?t'))) = t_failed ?t' + of_nat (length (t_msgs ?t') + 1)"
    using s(4) by (simp add: tee_flush_def tee_append_def tee_dropped_def tee_missed_def tee_release_def Let_def)
  then show ?thesis using pend s by (simp add: Let_def)
qed

end
