(* ===== verification/Egress.thy ===== *)
theory Egress
  imports Batch RetryTee "HOL-Library.Multiset"
begin

text \<open>
  \<^verbatim>\<open>forwarder/egress.go\<close>: the per-worker egress queue.  One enqueue appends a datagram to the
  queue of every target and one entry to the metadata list; a flush writes the queues through
  the kernel, through a function (\<^verbatim>\<open>FlushVia\<close>) or through the sender goroutine, fires the
  metrics and resets the queue.  Fragment buffers are identified by numbers: \<open>e_pool\<close> are the
  free ones, \<open>e_pooled\<close> those of queued datagrams.  \<open>e_wire\<close> is the history of what the network
  accepted, per target.  A panic, or the growth loop of the address cache not ending, is \<^const>\<open>None\<close>.
\<close>

subsection \<open>Data\<close>

definition maxGroupCache :: nat where "maxGroupCache = 2 ^ 13"
definition addrCacheInit :: nat where "addrCacheInit = 64"

record message =
  m_buf :: bytes
  m_addr :: udp_addr

record msgMeta =
  mm_group :: u32
  mm_size :: nat
  mm_worker :: int
  mm_label :: string
  mm_teeable :: bool

record coalBucket =
  cb_ip :: bytes
  cb_group :: u32
  cb_subtree :: bytes
  cb_members :: "bundle_member list"

record coalBuffer =
  co_buckets :: "coalBucket list"
  co_max :: nat

record egressBatch =
  eb_msgs :: "message list list"
  eb_meta :: "msgMeta list"
  eb_pooled :: "nat list"

record Egress =
  e_targets :: "string list"
  e_reliable :: bool
  e_msgs :: "message list list"
  e_meta :: "msgMeta list"
  e_pooled :: "nat list"
  e_tee :: "retryTee option"
  e_mirror :: "retryTee option"
  e_cache :: "udp_addr option list list"
  e_poolSize :: "nat option"
  e_pool :: "nat list"
  e_poolNext :: nat
  e_coal :: "coalBuffer option"
  e_rec :: bool
  e_sendQ :: "egressBatch list option"
  e_free :: nat
  e_calls :: nat
  e_wire :: "(nat \<times> message) list"

text \<open>\<^verbatim>\<open>newCoalBuffer\<close>, \<^verbatim>\<open>add\<close> and \<^verbatim>\<open>reset\<close> of \<^verbatim>\<open>coalesce.go\<close>.\<close>

definition newCoalBuffer :: "int \<Rightarrow> coalBuffer" where
  "newCoalBuffer maxMembers =
     \<lparr>co_buckets = [],
      co_max = (if maxMembers \<le> 0 \<or> maxMembers > int BundleMaxMembers then BundleMaxMembers
                else nat maxMembers)\<rparr>"

fun coal_add :: "bytes \<Rightarrow> u32 \<Rightarrow> bytes \<Rightarrow> bundle_member \<Rightarrow> coalBucket list \<Rightarrow> coalBucket list" where
  "coal_add ip grp subtree m [] =
     [\<lparr>cb_ip = ip, cb_group = grp, cb_subtree = subtree, cb_members = [m]\<rparr>]"
| "coal_add ip grp subtree m (b # bs) =
     (if cb_group b = grp \<and> cb_ip b = ip \<and> cb_subtree b = subtree
      then b\<lparr>cb_members := cb_members b @ [m]\<rparr> # bs
      else b # coal_add ip grp subtree m bs)"

definition coalBuffer_add ::
  "bytes \<Rightarrow> u32 \<Rightarrow> bytes \<Rightarrow> bytes \<Rightarrow> bytes \<Rightarrow> coalBuffer \<Rightarrow> coalBuffer" where
  "coalBuffer_add ip grp subtree txid payload c =
     c\<lparr>co_buckets := coal_add ip grp subtree \<lparr>mb_txid = txid, mb_tx = payload\<rparr> (co_buckets c)\<rparr>"

definition coalBuffer_reset :: "coalBuffer \<Rightarrow> coalBuffer" where
  "coalBuffer_reset c = c\<lparr>co_buckets := []\<rparr>"

subsection \<open>Construction\<close>

text \<open>The forwarder's part: fragment capacity, coalescing switch and its member limit.\<close>

definition NewEgress ::
  "nat \<Rightarrow> bool \<Rightarrow> int \<Rightarrow> string list \<Rightarrow> int \<Rightarrow> bool \<Rightarrow> Egress" where
  "NewEgress fragDataSize coalesce maxMembers targets batchHint rec =
     \<lparr>e_targets = targets, e_reliable = False, e_msgs = map (\<lambda>_. []) targets, e_meta = [],
      e_pooled = [], e_tee = None, e_mirror = None,
      e_cache = map (\<lambda>_. replicate addrCacheInit None) targets,
      e_poolSize = (if fragDataSize > 0 then Some (HeaderSizeV3 + fragDataSize) else None),
      e_pool = [], e_poolNext = 0,
      e_coal = (if coalesce \<and> (if batchHint < 1 then 1 else batchHint) > 1
                then Some (newCoalBuffer maxMembers) else None),
      e_rec = rec, e_sendQ = None, e_free = 0, e_calls = 0, e_wire = []\<rparr>"

definition SetReliable :: "bool \<Rightarrow> Egress \<Rightarrow> Egress" where
  "SetReliable v e = e\<lparr>e_reliable := v\<rparr>"

definition CoalArmed :: "Egress \<Rightarrow> bool" where
  "CoalArmed e \<longleftrightarrow> e_coal e \<noteq> None"

text \<open>\<open>dial\<close> is whether the private loopback socket could be opened.\<close>

definition EnableRetryTee :: "bool \<Rightarrow> Egress \<Rightarrow> Egress option" where
  "EnableRetryTee dial e =
     (if dial then Some (e\<lparr>e_tee := Some (newTee True (e_rec e) ''retry'')\<rparr>) else None)"

definition EnableLocalMirror :: "bool \<Rightarrow> Egress \<Rightarrow> Egress option" where
  "EnableLocalMirror dial e =
     (if dial then Some (e\<lparr>e_mirror := Some (newTee True (e_rec e) ''mirror'')\<rparr>) else None)"

definition EnableRetryTeeShared :: "Egress \<Rightarrow> Egress" where
  "EnableRetryTeeShared e = e\<lparr>e_tee := Some (newTee False (e_rec e) ''retry'')\<rparr>"

definition EnableLocalMirrorShared :: "Egress \<Rightarrow> Egress" where
  "EnableLocalMirrorShared e = e\<lparr>e_mirror := Some (newTee False (e_rec e) ''mirror'')\<rparr>"

definition CloseRetryTee :: "bytes writer \<Rightarrow> Egress \<Rightarrow> Egress \<times> event list" where
  "CloseRetryTee w e =
     (case e_tee e of None \<Rightarrow> (e, [])
      | Some t \<Rightarrow> (case tee_close w t of (t', ev) \<Rightarrow> (e\<lparr>e_tee := Some t'\<rparr>, ev)))"

definition CloseLocalMirror :: "bytes writer \<Rightarrow> Egress \<Rightarrow> Egress \<times> event list" where
  "CloseLocalMirror w e =
     (case e_mirror e of None \<Rightarrow> (e, [])
      | Some t \<Rightarrow> (case tee_close w t of (t', ev) \<Rightarrow> (e\<lparr>e_mirror := Some t'\<rparr>, ev)))"

text \<open>The metrics label of an egress, \<^verbatim>\<open>egrIface\<close>.\<close>

fun egrIface :: "Egress option \<Rightarrow> string" where
  "egrIface None = ''''"
| "egrIface (Some e) = (case e_targets e of [] \<Rightarrow> '''' | t # _ \<Rightarrow> t)"

subsection \<open>Enqueue\<close>

text \<open>\<^verbatim>\<open>PoolGet\<close>: a free buffer or a new one; \<^const>\<open>None\<close> is the nil pointer of an egress
  without a pool, which every caller dereferences.\<close>

definition PoolGet :: "Egress \<Rightarrow> (nat \<times> Egress) option" where
  "PoolGet e =
     (case e_poolSize e of None \<Rightarrow> None
      | Some sz \<Rightarrow>
          (case e_pool e of
             b # bs \<Rightarrow> Some (b, e\<lparr>e_pool := bs\<rparr>)
           | [] \<Rightarrow> Some (e_poolNext e, e\<lparr>e_poolNext := Suc (e_poolNext e)\<rparr>)))"

definition poolPut :: "nat \<Rightarrow> Egress \<Rightarrow> Egress" where
  "poolPut b e = e\<lparr>e_pool := b # e_pool e\<rparr>"

text \<open>The loop \<^verbatim>\<open>for n <= groupIdx { n *= 2 }\<close>.\<close>

partial_function (option) growLen :: "nat \<Rightarrow> nat \<Rightarrow> nat option" where
  "growLen n g = (if n \<le> g then growLen (n * 2) g else Some n)"

definition growCache :: "nat \<Rightarrow> 'a option list \<Rightarrow> 'a option list option" where
  "growCache g row =
     (if g \<ge> length row then
        do { n \<leftarrow> growLen (length row * 2) g;
             let n' = (if n > maxGroupCache then maxGroupCache else n);
             Some (take n' row @ replicate (n' - length row) None) }
      else Some row)"

definition zoned :: "udp_addr \<Rightarrow> string \<Rightarrow> udp_addr" where
  "zoned dst iface = \<lparr>ua_ip = ua_ip dst, ua_port = ua_port dst, ua_zone = iface\<rparr>"

text \<open>The body of the target loop: the destination of one datagram on target \<open>i\<close>, from the
  cache when \<open>cacheable\<close>.\<close>

definition targetAddr ::
  "bool \<Rightarrow> nat \<Rightarrow> udp_addr \<Rightarrow> string \<Rightarrow> udp_addr option list \<Rightarrow> (udp_addr \<times> udp_addr option list) option" where
  "targetAddr cacheable g dst iface row =
     (if cacheable then
        do { row1 \<leftarrow> growCache g row;
             slot \<leftarrow> index row1 g;
             Some (case slot of
                     Some a \<Rightarrow> (a, row1)
                   | None \<Rightarrow> (zoned dst iface, row1[g := Some (zoned dst iface)])) }
      else Some (zoned dst iface, row))"

definition enqueueTarget :: "bytes \<Rightarrow> udp_addr \<Rightarrow> msgMeta \<Rightarrow> nat \<Rightarrow> Egress \<Rightarrow> Egress option" where
  "enqueueTarget raw dst m i e =
     do { iface \<leftarrow> index (e_targets e) i;
          row \<leftarrow> index (e_cache e) i;
          q \<leftarrow> index (e_msgs e) i;
          (addr, row') \<leftarrow> targetAddr (mm_label m = '''' \<and> unat (mm_group m) < maxGroupCache)
                           (unat (mm_group m)) dst iface row;
          Some (e\<lparr>e_cache := (e_cache e)[i := row'],
                  e_msgs := (e_msgs e)[i := q @ [\<lparr>m_buf = raw, m_addr = addr\<rparr>]]\<rparr>) }"

definition egress_enqueue :: "bytes \<Rightarrow> udp_addr \<Rightarrow> msgMeta \<Rightarrow> nat option \<Rightarrow> Egress \<Rightarrow> Egress option" where
  "egress_enqueue raw dst m pooled e =
     (let e1 = e\<lparr>e_meta := e_meta e @ [m]\<rparr>;
          e2 = (case pooled of None \<Rightarrow> e1 | Some b \<Rightarrow> e1\<lparr>e_pooled := e_pooled e1 @ [b]\<rparr>);
          e3 = (case e_tee e2 of
                  Some t \<Rightarrow> if mm_teeable m then e2\<lparr>e_tee := Some (tee_append raw t)\<rparr> else e2
                | None \<Rightarrow> e2);
          e4 = (case e_mirror e3 of
                  Some t \<Rightarrow> if mm_label m = '''' then e3\<lparr>e_mirror := Some (tee_append raw t)\<rparr> else e3
                | None \<Rightarrow> e3)
      in fold_opt (enqueueTarget raw dst m) [0..<length (e_targets e4)] e4)"

definition EnqueueData :: "bytes \<Rightarrow> udp_addr \<Rightarrow> u32 \<Rightarrow> int \<Rightarrow> Egress \<Rightarrow> Egress option" where
  "EnqueueData raw dst groupIdx workerID e =
     egress_enqueue raw dst \<lparr>mm_group = groupIdx, mm_size = length raw, mm_worker = workerID,
       mm_label = '''', mm_teeable = True\<rparr> None e"

definition EnqueueDataPooled :: "bytes \<Rightarrow> udp_addr \<Rightarrow> u32 \<Rightarrow> int \<Rightarrow> nat \<Rightarrow> Egress \<Rightarrow> Egress option" where
  "EnqueueDataPooled raw dst groupIdx workerID pooled e =
     egress_enqueue raw dst \<lparr>mm_group = groupIdx, mm_size = length raw, mm_worker = workerID,
       mm_label = '''', mm_teeable = True\<rparr> (Some pooled) e"

definition EnqueueControl :: "bytes \<Rightarrow> udp_addr \<Rightarrow> string \<Rightarrow> int \<Rightarrow> Egress \<Rightarrow> Egress option" where
  "EnqueueControl raw dst label workerID e =
     egress_enqueue raw dst \<lparr>mm_group = 0, mm_size = length raw, mm_worker = workerID,
       mm_label = label, mm_teeable = False\<rparr> None e"

definition EnqueueControlPooled :: "bytes \<Rightarrow> udp_addr \<Rightarrow> string \<Rightarrow> int \<Rightarrow> nat \<Rightarrow> Egress \<Rightarrow> Egress option" where
  "EnqueueControlPooled raw dst label workerID pooled e =
     egress_enqueue raw dst \<lparr>mm_group = 0, mm_size = length raw, mm_worker = workerID,
       mm_label = label, mm_teeable = False\<rparr> (Some pooled) e"

definition EnqueueCacheable :: "bytes \<Rightarrow> udp_addr \<Rightarrow> string \<Rightarrow> int \<Rightarrow> Egress \<Rightarrow> Egress option" where
  "EnqueueCacheable raw dst label workerID e =
     egress_enqueue raw dst \<lparr>mm_group = 0, mm_size = length raw, mm_worker = workerID,
       mm_label = label, mm_teeable = True\<rparr> None e"

definition EnqueueCacheablePooled :: "bytes \<Rightarrow> udp_addr \<Rightarrow> string \<Rightarrow> int \<Rightarrow> nat \<Rightarrow> Egress \<Rightarrow> Egress option" where
  "EnqueueCacheablePooled raw dst label workerID pooled e =
     egress_enqueue raw dst \<lparr>mm_group = 0, mm_size = length raw, mm_worker = workerID,
       mm_label = label, mm_teeable = True\<rparr> (Some pooled) e"

subsection \<open>Flush\<close>

text \<open>\<^verbatim>\<open>recordMeta\<close>: the first \<open>sent\<close> entries are forwarded, the others dropped.\<close>

fun forwardedEvent :: "string \<Rightarrow> msgMeta \<Rightarrow> event" where
  "forwardedEvent iface m =
     (if mm_label m \<noteq> '''' then ControlFrameForwarded (mm_label m)
      else PacketForwarded iface (mm_worker m) (mm_group m) (mm_size m))"

definition recordMeta :: "bool \<Rightarrow> string \<Rightarrow> nat \<Rightarrow> send_err option \<Rightarrow> msgMeta list \<Rightarrow> event list" where
  "recordMeta rec iface sent err metas =
     (if \<not> rec then []
      else
        let n = (if sent > length metas then length metas else sent)
        in (if err \<noteq> None then [EgressError iface 0] else []) @
           map (forwardedEvent iface) (take n metas) @
           map (\<lambda>m. PacketDropped iface (mm_worker m) ''write_error'') (drop n metas))"

text \<open>Write one target's queue: the reliable lane retries, the lossy lane gives up on the first
  error.\<close>

definition flushWrite ::
  "bool \<Rightarrow> message writer \<Rightarrow> nat \<Rightarrow> message list \<Rightarrow> nat \<times> send_err option \<times> nat" where
  "flushWrite reliable w c ms = (if reliable then drainReliable' w c ms else writeBatchAll w c ms)"

text \<open>\<open>K i\<close> is the socket of target \<open>i\<close>.\<close>

definition flushTarget ::
  "(nat \<Rightarrow> message writer) \<Rightarrow> nat \<Rightarrow> Egress \<times> event list \<Rightarrow> (Egress \<times> event list) option" where
  "flushTarget K i st =
     (case st of (e, ev) \<Rightarrow>
        do { ms \<leftarrow> index (e_msgs e) i;
             iface \<leftarrow> index (e_targets e) i;
             if ms = [] then Some (e, ev)
             else
               case flushWrite (e_reliable e) (K i) (e_calls e) ms of (sent, err, c) \<Rightarrow>
                 Some (e\<lparr>e_calls := c, e_wire := e_wire e @ map (Pair i) (take sent ms),
                         e_msgs := (e_msgs e)[i := []]\<rparr>,
                       ev @ recordMeta (e_rec e) iface sent err (e_meta e)) })"

definition flushTees :: "Egress \<Rightarrow> Egress \<times> event list" where
  "flushTees e =
     (let (e1, ev1) = (case e_tee e of None \<Rightarrow> (e, [])
                       | Some t \<Rightarrow> (case tee_flush t of (t', ev) \<Rightarrow> (e\<lparr>e_tee := Some t'\<rparr>, ev)));
          (e2, ev2) = (case e_mirror e1 of None \<Rightarrow> (e1, [])
                       | Some t \<Rightarrow> (case tee_flush t of (t', ev) \<Rightarrow> (e1\<lparr>e_mirror := Some t'\<rparr>, ev)))
      in (e2, ev1 @ ev2))"

text \<open>Return the pooled buffers and reset the queue: the end of \<^verbatim>\<open>Flush\<close> and \<^verbatim>\<open>FlushVia\<close>.\<close>

definition flushReset :: "Egress \<Rightarrow> Egress" where
  "flushReset e = e\<lparr>e_pool := rev (e_pooled e) @ e_pool e, e_pooled := [], e_meta := []\<rparr>"

text \<open>One batch of the sender goroutine (\<^verbatim>\<open>sender\<close>), which always uses the reliable lane.\<close>

definition senderTarget ::
  "(nat \<Rightarrow> message writer) \<Rightarrow> egressBatch \<Rightarrow> nat \<Rightarrow> Egress \<times> event list \<Rightarrow> (Egress \<times> event list) option" where
  "senderTarget K b i st =
     (case st of (e, ev) \<Rightarrow>
        do { ms \<leftarrow> index (eb_msgs b) i;
             iface \<leftarrow> index (e_targets e) i;
             if ms = [] then Some (e, ev)
             else
               case drainReliable' (K i) (e_calls e) ms of (sent, err, c) \<Rightarrow>
                 Some (e\<lparr>e_calls := c, e_wire := e_wire e @ map (Pair i) (take sent ms)\<rparr>,
                       ev @ recordMeta (e_rec e) iface sent err (eb_meta b)) })"

definition senderStep :: "(nat \<Rightarrow> message writer) \<Rightarrow> Egress \<Rightarrow> (Egress \<times> event list) option" where
  "senderStep K e =
     (case e_sendQ e of
        Some (b # q) \<Rightarrow>
          do { (e1, ev) \<leftarrow> fold_opt (senderTarget K b) [0..<length (e_targets e)]
                             (e\<lparr>e_sendQ := Some q\<rparr>, []);
               Some (e1\<lparr>e_pool := rev (eb_pooled b) @ e_pool e1, e_free := Suc (e_free e1)\<rparr>, ev) }
      | _ \<Rightarrow> None)"

text \<open>\<^verbatim>\<open>flushToSender\<close>: with no free batch the dispatcher waits for the sender to finish one.\<close>

definition flushToSender :: "(nat \<Rightarrow> message writer) \<Rightarrow> Egress \<Rightarrow> (Egress \<times> event list) option" where
  "flushToSender K e =
     (case flushTees e of (e1, ev1) \<Rightarrow>
        if e_meta e1 = [] then Some (e1, ev1)
        else
          do { (e2, ev2) \<leftarrow> (if e_free e1 = 0 then senderStep K e1 else Some (e1, []));
               q \<leftarrow> e_sendQ e2;
               let b = \<lparr>eb_msgs = e_msgs e2, eb_meta = e_meta e2, eb_pooled = e_pooled e2\<rparr>;
               Some (e2\<lparr>e_msgs := map (\<lambda>_. []) (e_msgs e2), e_meta := [], e_pooled := [],
                        e_free := e_free e2 - 1, e_sendQ := Some (q @ [b])\<rparr>, ev1 @ ev2) })"

definition egress_flush :: "(nat \<Rightarrow> message writer) \<Rightarrow> Egress \<Rightarrow> (Egress \<times> event list) option" where
  "egress_flush K e =
     (case e_sendQ e of
        Some _ \<Rightarrow> flushToSender K e
      | None \<Rightarrow>
          do { (e1, ev1) \<leftarrow> fold_opt (flushTarget K) [0..<length (e_targets e)] (e, []);
               let (e2, ev2) = flushTees e1;
               Some (flushReset e2, ev1 @ ev2) })"

definition StartSender :: "int \<Rightarrow> Egress \<Rightarrow> Egress" where
  "StartSender depth e =
     (let d = (if depth < 1 then 1 else nat depth) in e\<lparr>e_sendQ := Some [], e_free := d + 1\<rparr>)"

fun senderRun :: "(nat \<Rightarrow> message writer) \<Rightarrow> nat \<Rightarrow> Egress \<times> event list \<Rightarrow> (Egress \<times> event list) option" where
  "senderRun K 0 st = Some st"
| "senderRun K (Suc n) (e, ev) =
     do { (e1, ev1) \<leftarrow> senderStep K e; senderRun K n (e1, ev @ ev1) }"

definition StopSender :: "(nat \<Rightarrow> message writer) \<Rightarrow> Egress \<Rightarrow> (Egress \<times> event list) option" where
  "StopSender K e =
     (case e_sendQ e of
        None \<Rightarrow> Some (e, [])
      | Some q \<Rightarrow> do { (e1, ev) \<leftarrow> senderRun K (length q) (e, []);
                       Some (e1\<lparr>e_sendQ := None\<rparr>, ev) })"

subsection \<open>FlushVia\<close>

text \<open>The drain loop of \<^verbatim>\<open>FlushVia\<close> over a transport \<open>fn\<close> that takes one datagram per call.\<close>

function viaLoop ::
  "bool \<Rightarrow> (nat \<Rightarrow> message \<Rightarrow> send_err option) \<Rightarrow> message list \<Rightarrow> nat \<Rightarrow> nat \<Rightarrow> nat \<Rightarrow> nat \<times> send_err option \<times> nat"
  where
  "viaLoop reliable fn ms sent attempts c =
     (if sent < length ms then
        (case fn c (ms ! sent) of
           None \<Rightarrow> viaLoop reliable fn ms (Suc sent) 0 (Suc c)
         | Some e \<Rightarrow>
             if \<not> reliable \<or> attempts \<ge> maxReliableRetries then (sent, Some e, Suc c)
             else viaLoop reliable fn ms sent (Suc attempts) (Suc c))
      else (sent, None, c))"
  by pat_completeness auto
termination
  by (relation "measures [\<lambda>(r, fn, ms, sent, a, c). length ms - sent,
                          \<lambda>(r, fn, ms, sent, a, c). maxReliableRetries - a]") auto

declare viaLoop.simps [simp del]

definition drainVia ::
  "bool \<Rightarrow> (nat \<Rightarrow> message \<Rightarrow> send_err option) \<Rightarrow> nat \<Rightarrow> message list \<Rightarrow> nat \<times> send_err option \<times> nat" where
  "drainVia reliable fn c ms = viaLoop reliable fn ms 0 0 c"

definition viaTarget ::
  "(nat \<Rightarrow> nat \<Rightarrow> message \<Rightarrow> send_err option) \<Rightarrow> nat \<Rightarrow> Egress \<times> event list \<Rightarrow> (Egress \<times> event list) option" where
  "viaTarget fn i st =
     (case st of (e, ev) \<Rightarrow>
        do { ms \<leftarrow> index (e_msgs e) i;
             iface \<leftarrow> index (e_targets e) i;
             case drainVia (e_reliable e) (fn i) (e_calls e) ms of (sent, err, c) \<Rightarrow>
               Some (e\<lparr>e_calls := c, e_wire := e_wire e @ map (Pair i) (take sent ms),
                       e_msgs := (e_msgs e)[i := []]\<rparr>,
                     ev @ recordMeta (e_rec e) iface sent err (e_meta e)) })"

definition FlushVia ::
  "(nat \<Rightarrow> nat \<Rightarrow> message \<Rightarrow> send_err option) \<Rightarrow> Egress \<Rightarrow> (Egress \<times> event list) option" where
  "FlushVia fn e =
     do { (e1, ev1) \<leftarrow> fold_opt (viaTarget fn) [0..<length (e_targets e)] (e, []);
          let (e2, ev2) = flushTees e1;
          Some (flushReset e2, ev1 @ ev2) }"

lemma viaLoop_spec:
  "sent \<le> length ms \<Longrightarrow>
   (case viaLoop reliable fn ms sent attempts c of (n, err, c') \<Rightarrow>
      sent \<le> n \<and> n \<le> length ms \<and> (err = None \<longrightarrow> n = length ms))"
proof (induction reliable fn ms sent attempts c rule: viaLoop.induct)
  case (1 reliable fn ms sent attempts c)
  show ?case
  proof (cases "sent < length ms")
    case True
    then show ?thesis
      using 1(1) [OF True] 1(2) [OF True]
      by (subst viaLoop.simps) (auto split: option.splits)
  qed (use 1(3) in \<open>subst viaLoop.simps, simp\<close>)
qed

lemma drainVia_spec:
  assumes "drainVia reliable fn c ms = (n, err, c')"
  shows "n \<le> length ms" "err = None \<Longrightarrow> n = length ms"
  using viaLoop_spec [of 0 ms reliable fn 0 c] assms by (auto simp: drainVia_def)

interpretation via: batch_drain "drainVia reliable" for reliable
  by unfold_locales (auto dest: drainVia_spec)

interpretation lane: batch_drain "flushWrite reliable" for reliable
  by unfold_locales
    (auto simp: flushWrite_def split: if_splits dest: lossy.bound lossy.complete reliable.bound reliable.complete)

subsection \<open>The queue invariant\<close>

text \<open>\<open>D g\<close> is the multicast destination of group \<open>g\<close>.  Every queue is as long as the metadata
  list, and a cached address is the destination of its group on its target.\<close>

definition row_ok :: "(u32 \<Rightarrow> udp_addr) \<Rightarrow> string \<Rightarrow> udp_addr option list \<Rightarrow> bool" where
  "row_ok D t row \<longleftrightarrow> 0 < length row \<and> length row \<le> maxGroupCache \<and>
     (\<forall>g a. g < length row \<longrightarrow> row ! g = Some a \<longrightarrow> a = zoned (D (of_nat g)) t)"

definition egress_wf :: "(u32 \<Rightarrow> udp_addr) \<Rightarrow> Egress \<Rightarrow> bool" where
  "egress_wf D e \<longleftrightarrow>
     length (e_msgs e) = length (e_targets e) \<and>
     length (e_cache e) = length (e_targets e) \<and>
     (\<forall>q \<in> set (e_msgs e). length q = length (e_meta e)) \<and>
     (\<forall>i < length (e_targets e). row_ok D (e_targets e ! i) (e_cache e ! i))"

lemma growLen_returns: "0 < n \<Longrightarrow> \<exists>m. growLen n g = Some m \<and> g < m \<and> n \<le> m"
proof (induction "Suc g - n" arbitrary: n rule: less_induct)
  case less
  show ?case
  proof (cases "n \<le> g")
    case True
    then have "Suc g - n * 2 < Suc g - n" using less.prems by linarith
    then obtain m where "growLen (n * 2) g = Some m" "g < m" "n * 2 \<le> m"
      using less.hyps [of "n * 2"] less.prems by auto
    then show ?thesis using True by (subst growLen.simps) auto
  next
    case False
    then show ?thesis by (subst growLen.simps) auto
  qed
qed

lemma growCache_ok:
  assumes "row_ok D t row" "g < maxGroupCache"
  shows "\<exists>row'. growCache g row = Some row' \<and> row_ok D t row' \<and> g < length row'"
proof (cases "g \<ge> length row")
  case True
  obtain n where n: "growLen (length row * 2) g = Some n" "g < n" "length row * 2 \<le> n"
    using growLen_returns [of "length row * 2" g] assms(1) by (auto simp: row_ok_def)
  define n' where "n' = (if n > maxGroupCache then maxGroupCache else n)"
  have len: "length row \<le> n'" "g < n'" "n' \<le> maxGroupCache"
    using n assms by (auto simp: n'_def row_ok_def)
  then have "row_ok D t (take n' row @ replicate (n' - length row) None)"
    using assms(1) by (auto simp: row_ok_def nth_append)
  then show ?thesis using True n len by (auto simp: growCache_def Let_def n'_def)
next
  case False
  then show ?thesis using assms(1) by (auto simp: growCache_def)
qed

lemma targetAddr_ok:
  assumes "row_ok D t row"
    and "cacheable \<Longrightarrow> g < maxGroupCache \<and> zoned dst t = zoned (D (of_nat g)) t"
  shows "\<exists>row'. targetAddr cacheable g dst t row = Some (zoned dst t, row') \<and> row_ok D t row'"
proof (cases cacheable)
  case True
  obtain row1 where r: "growCache g row = Some row1" "row_ok D t row1" "g < length row1"
    using growCache_ok [OF assms(1)] assms(2) True by blast
  show ?thesis
  proof (cases "row1 ! g")
    case None
    have "row_ok D t (row1[g := Some (zoned dst t)])"
      using r assms(2) True by (auto simp: row_ok_def nth_list_update)
    then show ?thesis using True r None by (simp add: targetAddr_def index_ok)
  next
    case (Some a)
    then have "a = zoned dst t" using r assms(2) True by (simp add: row_ok_def)
    then show ?thesis using True r Some by (simp add: targetAddr_def index_ok)
  qed
qed (use assms(1) in \<open>simp add: targetAddr_def\<close>)

text \<open>The queues after one datagram was appended to the first \<open>k\<close> of them.\<close>

definition appended :: "nat \<Rightarrow> bytes \<Rightarrow> udp_addr \<Rightarrow> string list \<Rightarrow> message list list \<Rightarrow> message list list" where
  "appended k raw dst ts qs =
     map (\<lambda>i. if i < k then qs ! i @ [\<lparr>m_buf = raw, m_addr = zoned dst (ts ! i)\<rparr>] else qs ! i)
       [0..<length qs]"

lemma appended_0: "appended 0 raw dst ts qs = qs"
  by (simp add: appended_def map_nth)

lemma appended_Suc:
  "k < length qs \<Longrightarrow>
   (appended k raw dst ts qs)[k := qs ! k @ [\<lparr>m_buf = raw, m_addr = zoned dst (ts ! k)\<rparr>]] =
   appended (Suc k) raw dst ts qs"
  by (rule nth_equalityI) (auto simp: appended_def nth_list_update less_Suc_eq)

lemma enqueue_targets:
  assumes "length (e_msgs e) = length (e_targets e)" "length (e_cache e) = length (e_targets e)"
    and "\<forall>i < length (e_targets e). row_ok D (e_targets e ! i) (e_cache e ! i)"
    and "mm_label m = '''' \<Longrightarrow> \<forall>t. zoned dst t = zoned (D (mm_group m)) t"
    and "k \<le> length (e_targets e)"
  shows "\<exists>C. fold_opt (enqueueTarget raw dst m) [0..<k] e =
        Some (e\<lparr>e_cache := C, e_msgs := appended k raw dst (e_targets e) (e_msgs e)\<rparr>) \<and>
      length C = length (e_targets e) \<and>
      (\<forall>i < length (e_targets e). row_ok D (e_targets e ! i) (C ! i))"
  using assms(5)
proof (induction k)
  case 0
  have "e\<lparr>e_cache := e_cache e, e_msgs := e_msgs e\<rparr> = e" by simp
  then show ?case using assms(2,3) by (auto simp: appended_0 intro!: exI [of _ "e_cache e"])
next
  case (Suc k)
  let ?q = "e_msgs e" and ?t = "e_targets e"
  let ?g = "unat (mm_group m)"
  obtain C where C: "fold_opt (enqueueTarget raw dst m) [0..<k] e =
        Some (e\<lparr>e_cache := C, e_msgs := appended k raw dst ?t ?q\<rparr>)"
      "length C = length ?t" "\<forall>i < length ?t. row_ok D (?t ! i) (C ! i)"
    using Suc by auto
  have k: "k < length ?t" using Suc.prems by simp
  have "\<exists>row. targetAddr (mm_label m = '''' \<and> ?g < maxGroupCache) ?g dst (?t ! k) (C ! k) =
      Some (zoned dst (?t ! k), row) \<and> row_ok D (?t ! k) row"
    using C(3) k assms(4) by (intro targetAddr_ok) auto
  then obtain row where row: "targetAddr (mm_label m = '''' \<and> ?g < maxGroupCache) ?g dst (?t ! k) (C ! k) =
      Some (zoned dst (?t ! k), row)" "row_ok D (?t ! k) row" by blast
  have q: "appended k raw dst ?t ?q ! k = ?q ! k" "length (appended k raw dst ?t ?q) = length ?q"
    using k assms(1) by (simp_all add: appended_def)
  have "fold_opt (enqueueTarget raw dst m) [0..<Suc k] e =
      Some (e\<lparr>e_cache := C[k := row], e_msgs := appended (Suc k) raw dst ?t ?q\<rparr>)"
    using C(1,2) k q row assms(1) appended_Suc [of k ?q raw dst ?t]
    by (simp add: fold_opt_append enqueueTarget_def index_ok)
  then show ?case using C(2,3) row(2) k by (auto simp: nth_list_update intro!: exI [of _ "C[k := row]"])
qed

text \<open>What one enqueue does, given the address caches \<open>C\<close> it leaves.\<close>

definition enqueued ::
  "bytes \<Rightarrow> udp_addr \<Rightarrow> msgMeta \<Rightarrow> nat option \<Rightarrow> udp_addr option list list \<Rightarrow> Egress \<Rightarrow> Egress" where
  "enqueued raw dst m pooled C e =
     e\<lparr>e_msgs := appended (length (e_targets e)) raw dst (e_targets e) (e_msgs e),
       e_meta := e_meta e @ [m],
       e_pooled := e_pooled e @ (case pooled of None \<Rightarrow> [] | Some b \<Rightarrow> [b]),
       e_tee := map_option (\<lambda>t. if mm_teeable m then tee_append raw t else t) (e_tee e),
       e_mirror := map_option (\<lambda>t. if mm_label m = '''' then tee_append raw t else t) (e_mirror e),
       e_cache := C\<rparr>"

lemma enqueue_effect:
  assumes wf: "egress_wf D e"
    and dst: "mm_label m = '''' \<Longrightarrow> \<forall>t. zoned dst t = zoned (D (mm_group m)) t"
  shows "\<exists>C. egress_enqueue raw dst m pooled e = Some (enqueued raw dst m pooled C e) \<and>
             egress_wf D (enqueued raw dst m pooled C e)"
proof -
  define e4 where "e4 = e\<lparr>
       e_meta := e_meta e @ [m],
       e_pooled := e_pooled e @ (case pooled of None \<Rightarrow> [] | Some b \<Rightarrow> [b]),
       e_tee := map_option (\<lambda>t. if mm_teeable m then tee_append raw t else t) (e_tee e),
       e_mirror := map_option (\<lambda>t. if mm_label m = '''' then tee_append raw t else t) (e_mirror e)\<rparr>"
  have pre: "egress_enqueue raw dst m pooled e =
      fold_opt (enqueueTarget raw dst m) [0..<length (e_targets e4)] e4"
    unfolding egress_enqueue_def e4_def Let_def
    by (cases e; cases pooled; cases "e_tee e"; cases "e_mirror e") simp_all
  have same: "e_targets e4 = e_targets e" "e_msgs e4 = e_msgs e" "e_cache e4 = e_cache e"
    by (simp_all add: e4_def)
  have wf4: "length (e_msgs e4) = length (e_targets e4)" "length (e_cache e4) = length (e_targets e4)"
    "\<forall>i < length (e_targets e4). row_ok D (e_targets e4 ! i) (e_cache e4 ! i)"
    using wf unfolding same by (simp_all add: egress_wf_def)
  obtain C where C: "fold_opt (enqueueTarget raw dst m) [0..<length (e_targets e4)] e4 =
      Some (e4\<lparr>e_cache := C,
        e_msgs := appended (length (e_targets e4)) raw dst (e_targets e4) (e_msgs e4)\<rparr>)"
    "length C = length (e_targets e4)" "\<forall>i < length (e_targets e4). row_ok D (e_targets e4 ! i) (C ! i)"
    using enqueue_targets [OF wf4 dst order_refl] by blast
  have eq: "e4\<lparr>e_cache := C,
        e_msgs := appended (length (e_targets e4)) raw dst (e_targets e4) (e_msgs e4)\<rparr> =
      enqueued raw dst m pooled C e"
    by (simp add: e4_def enqueued_def)
  have "\<forall>q \<in> set (appended (length (e_targets e)) raw dst (e_targets e) (e_msgs e)).
      length q = Suc (length (e_meta e))"
    using wf by (auto simp: appended_def egress_wf_def)
  then have "egress_wf D (enqueued raw dst m pooled C e)"
    using wf C(2,3) same by (simp add: egress_wf_def enqueued_def) (simp add: appended_def)
  then show ?thesis using C(1) unfolding pre eq by blast
qed

lemma egress_wf_new: "egress_wf D (NewEgress f c mm ts h r)"
  by (auto simp: egress_wf_def NewEgress_def row_ok_def addrCacheInit_def maxGroupCache_def)

subsection \<open>What a flush does\<close>

text \<open>The contract of one target's turn in a flush, for every transport: a prefix of the queue
  goes out, the queue is emptied, and the metadata is recorded accordingly.\<close>

locale target_flush =
  fixes f :: "nat \<Rightarrow> Egress \<times> event list \<Rightarrow> (Egress \<times> event list) option"
  assumes turn: "i < length (e_msgs e) \<Longrightarrow> i < length (e_targets e) \<Longrightarrow>
     (e_msgs e ! i = [] \<Longrightarrow> e_meta e = []) \<Longrightarrow>
     \<exists>n err c. n \<le> length (e_msgs e ! i) \<and> (err = None \<longrightarrow> n = length (e_msgs e ! i)) \<and>
       f i (e, ev) =
         Some (e\<lparr>e_calls := c, e_wire := e_wire e @ map (Pair i) (take n (e_msgs e ! i)),
                 e_msgs := (e_msgs e)[i := []]\<rparr>,
               ev @ recordMeta (e_rec e) (e_targets e ! i) n err (e_meta e))"
begin

lemma all_targets:
  assumes wf: "egress_wf D e" and k: "k \<le> length (e_targets e)"
  shows "\<exists>ns errs c.
     (\<forall>i < k. ns i \<le> length (e_msgs e ! i) \<and> (errs i = None \<longrightarrow> ns i = length (e_msgs e ! i))) \<and>
     fold_opt f [0..<k] (e, []) =
       Some (e\<lparr>e_calls := c,
               e_wire := e_wire e @ concat (map (\<lambda>i. map (Pair i) (take (ns i) (e_msgs e ! i))) [0..<k]),
               e_msgs := map (\<lambda>i. if i < k then [] else e_msgs e ! i) [0..<length (e_msgs e)]\<rparr>,
             concat (map (\<lambda>i. recordMeta (e_rec e) (e_targets e ! i) (ns i) (errs i) (e_meta e)) [0..<k]))"
  using k
proof (induction k)
  case 0
  have "e\<lparr>e_calls := e_calls e, e_wire := e_wire e, e_msgs := e_msgs e\<rparr> = e" by simp
  then show ?case
    by (intro exI [of _ "\<lambda>_. 0"] exI [of _ "\<lambda>_. None"] exI [of _ "e_calls e"]) (simp add: map_nth)
next
  case (Suc k)
  let ?Q = "\<lambda>k. map (\<lambda>i. if i < k then [] else e_msgs e ! i) [0..<length (e_msgs e)]"
  obtain ns errs c where IH: "\<forall>i < k. ns i \<le> length (e_msgs e ! i) \<and> (errs i = None \<longrightarrow> ns i = length (e_msgs e ! i))"
     and run: "fold_opt f [0..<k] (e, []) =
       Some (e\<lparr>e_calls := c,
               e_wire := e_wire e @ concat (map (\<lambda>i. map (Pair i) (take (ns i) (e_msgs e ! i))) [0..<k]),
               e_msgs := ?Q k\<rparr>,
             concat (map (\<lambda>i. recordMeta (e_rec e) (e_targets e ! i) (ns i) (errs i) (e_meta e)) [0..<k]))"
    using Suc by auto
  let ?e = "e\<lparr>e_calls := c,
       e_wire := e_wire e @ concat (map (\<lambda>i. map (Pair i) (take (ns i) (e_msgs e ! i))) [0..<k]),
       e_msgs := ?Q k\<rparr>"
  have len: "k < length (e_msgs e)" "k < length (e_targets e)" using Suc.prems wf by (auto simp: egress_wf_def)
  have "length (e_msgs e ! k) = length (e_meta e)" using wf len by (simp add: egress_wf_def)
  then have lock: "e_msgs e ! k = [] \<Longrightarrow> e_meta e = []" by auto
  have ek: "e_msgs ?e ! k = e_msgs e ! k" using len by simp
  from turn [of k ?e "concat (map (\<lambda>i. recordMeta (e_rec e) (e_targets e ! i) (ns i) (errs i) (e_meta e)) [0..<k])"]
  obtain n err c' where t: "n \<le> length (e_msgs e ! k)" "err = None \<longrightarrow> n = length (e_msgs e ! k)"
    "f k (?e, concat (map (\<lambda>i. recordMeta (e_rec e) (e_targets e ! i) (ns i) (errs i) (e_meta e)) [0..<k])) =
       Some (?e\<lparr>e_calls := c', e_wire := e_wire ?e @ map (Pair k) (take n (e_msgs e ! k)),
                e_msgs := (?Q k)[k := []]\<rparr>,
             concat (map (\<lambda>i. recordMeta (e_rec e) (e_targets e ! i) (ns i) (errs i) (e_meta e)) [0..<k])
               @ recordMeta (e_rec e) (e_targets e ! k) n err (e_meta e))"
    using len lock ek by (auto simp del: map_map)
  have Q: "(?Q k)[k := []] = ?Q (Suc k)"
    by (rule nth_equalityI) (auto simp: nth_list_update less_Suc_eq)
  let ?ns = "ns(k := n)" and ?errs = "errs(k := err)"
  have ext: "concat (map (\<lambda>i. map (Pair i) (take (?ns i) (e_msgs e ! i))) [0..<Suc k]) =
      concat (map (\<lambda>i. map (Pair i) (take (ns i) (e_msgs e ! i))) [0..<k])
        @ map (Pair k) (take n (e_msgs e ! k))"
    "concat (map (\<lambda>i. recordMeta (e_rec e) (e_targets e ! i) (?ns i) (?errs i) (e_meta e)) [0..<Suc k]) =
     concat (map (\<lambda>i. recordMeta (e_rec e) (e_targets e ! i) (ns i) (errs i) (e_meta e)) [0..<k])
        @ recordMeta (e_rec e) (e_targets e ! k) n err (e_meta e)"
    by (simp, rule arg_cong [where f = concat], simp)+
  have "fold_opt f [0..<Suc k] (e, []) = fold_opt f [0..<k] (e, []) \<bind> f k"
    by (simp add: fold_opt_snoc)
  then show ?case
    using IH t run
    by (intro exI [of _ ?ns] exI [of _ ?errs] exI [of _ c'])
      (unfold ext, simp add: Q less_Suc_eq del: upt_Suc)
qed

end

lemma flushWrite_bounds:
  assumes "flushWrite rel w c ms = (n, err, c')"
  shows "n \<le> length ms" "err = None \<longrightarrow> n = length ms"
  using lane.bound [OF assms] lane.complete [of rel w c ms n c'] assms by auto

lemma recordMeta_empty: "recordMeta r t 0 None [] = []"
  by (simp add: recordMeta_def)

interpretation kernel: target_flush "flushTarget K" for K
proof
  fix i and e :: Egress and ev
  assume i: "i < length (e_msgs e)" "i < length (e_targets e)"
    and lock: "e_msgs e ! i = [] \<Longrightarrow> e_meta e = []"
  show "\<exists>n err c. n \<le> length (e_msgs e ! i) \<and> (err = None \<longrightarrow> n = length (e_msgs e ! i)) \<and>
       flushTarget K i (e, ev) =
         Some (e\<lparr>e_calls := c, e_wire := e_wire e @ map (Pair i) (take n (e_msgs e ! i)),
                 e_msgs := (e_msgs e)[i := []]\<rparr>,
               ev @ recordMeta (e_rec e) (e_targets e ! i) n err (e_meta e))"
  proof (cases "e_msgs e ! i = []")
    case True
    have "(e_msgs e)[i := []] = e_msgs e" using True by (metis list_update_id)
    then have "e\<lparr>e_calls := e_calls e, e_wire := e_wire e, e_msgs := (e_msgs e)[i := []]\<rparr> = e" by simp
    then show ?thesis using i lock [OF True] True
      by (intro exI [of _ 0] exI [of _ None] exI [of _ "e_calls e"])
        (simp add: flushTarget_def index_ok recordMeta_empty)
  next
    case False
    obtain n err c where w: "flushWrite (e_reliable e) (K i) (e_calls e) (e_msgs e ! i) = (n, err, c)"
      by (metis prod_cases3)
    show ?thesis using i False w flushWrite_bounds [OF w]
      by (intro exI [of _ n] exI [of _ err] exI [of _ c]) (simp add: flushTarget_def index_ok)
  qed
qed

interpretation transport: target_flush "viaTarget fn" for fn
proof
  fix i and e :: Egress and ev
  assume i: "i < length (e_msgs e)" "i < length (e_targets e)"
  obtain n err c where w: "drainVia (e_reliable e) (fn i) (e_calls e) (e_msgs e ! i) = (n, err, c)"
    by (metis prod_cases3)
  show "\<exists>n err c. n \<le> length (e_msgs e ! i) \<and> (err = None \<longrightarrow> n = length (e_msgs e ! i)) \<and>
       viaTarget fn i (e, ev) =
         Some (e\<lparr>e_calls := c, e_wire := e_wire e @ map (Pair i) (take n (e_msgs e ! i)),
                 e_msgs := (e_msgs e)[i := []]\<rparr>,
               ev @ recordMeta (e_rec e) (e_targets e ! i) n err (e_meta e))"
    using i w drainVia_spec [OF w]
    by (intro exI [of _ n] exI [of _ err] exI [of _ c]) (simp add: viaTarget_def index_ok)
qed

lemma flushTees_effect:
  "fst (flushTees e) = e\<lparr>e_tee := map_option (\<lambda>t. fst (tee_flush t)) (e_tee e),
                        e_mirror := map_option (\<lambda>t. fst (tee_flush t)) (e_mirror e)\<rparr>"
  by (cases e; cases "e_tee e"; cases "e_mirror e")
    (simp_all add: flushTees_def split_def)

fun is_tee_event :: "event \<Rightarrow> bool" where
  "is_tee_event (TeeFailed k n) = True"
| "is_tee_event _ = False"

text \<open>An event that accounts for one queued datagram on one target.\<close>

fun is_outcome :: "event \<Rightarrow> bool" where
  "is_outcome (PacketForwarded i w g n) = True"
| "is_outcome (ControlFrameForwarded l) = True"
| "is_outcome (PacketDropped i w r) = (r = ''write_error'')"
| "is_outcome _ = False"

lemma tee_flush_events: "list_all is_tee_event (snd (tee_flush t))"
  by (simp add: tee_flush_def tee_dropped_def tee_missed_def Let_def split_def)

lemma flushTees_events: "list_all is_tee_event (snd (flushTees e))"
  by (cases "e_tee e"; cases "e_mirror e")
    (simp_all add: flushTees_def split_def Let_def tee_flush_events)

lemma tee_events_no_outcome: "list_all is_tee_event ev \<Longrightarrow> filter is_outcome ev = []"
  by (induction ev) (auto elim: is_tee_event.elims)

lemma recordMeta_outcomes:
  assumes "n \<le> length ms"
  shows "length (filter is_outcome (recordMeta r t n err ms)) = (if r then length ms else 0)"
proof -
  have "filter is_outcome (map (forwardedEvent t) xs) = map (forwardedEvent t) xs" for xs
    by (induction xs) simp_all
  moreover have "filter is_outcome (map (\<lambda>m. PacketDropped t (mm_worker m) ''write_error'') xs) =
      map (\<lambda>m. PacketDropped t (mm_worker m) ''write_error'') xs" for xs :: "msgMeta list"
    by (induction xs) simp_all
  ultimately show ?thesis using assms by (simp add: recordMeta_def Let_def)
qed

lemma outcomes_concat:
  assumes "\<And>i. i < k \<Longrightarrow> ns i \<le> length ms"
  shows "length (filter is_outcome (concat (map (\<lambda>i. recordMeta r (t i) (ns i) (errs i) ms) [0..<k]))) =
         (if r then k * length ms else 0)"
  using assms by (induction k) (simp_all add: recordMeta_outcomes)

text \<open>The result of a flush, for a per-target loop \<open>f\<close> that meets the contract.\<close>

definition flush_result ::
  "(u32 \<Rightarrow> udp_addr) \<Rightarrow> Egress \<Rightarrow> Egress \<Rightarrow> event list \<Rightarrow> (nat \<Rightarrow> nat) \<Rightarrow> bool" where
  "flush_result D e e' ev ns \<longleftrightarrow>
     egress_wf D e' \<and> e_targets e' = e_targets e \<and> e_meta e' = [] \<and> e_pooled e' = [] \<and>
     e_poolSize e' = e_poolSize e \<and> e_coal e' = e_coal e \<and> e_sendQ e' = e_sendQ e \<and> e_free e' = e_free e \<and>
     e_reliable e' = e_reliable e \<and> e_rec e' = e_rec e \<and>
     mset (e_pool e') = mset (e_pool e) + mset (e_pooled e) \<and>
     e_tee e' = map_option (\<lambda>t. fst (tee_flush t)) (e_tee e) \<and>
     e_mirror e' = map_option (\<lambda>t. fst (tee_flush t)) (e_mirror e) \<and>
     (\<forall>i < length (e_targets e). ns i \<le> length (e_meta e)) \<and>
     e_wire e' = e_wire e @ concat (map (\<lambda>i. map (Pair i) (take (ns i) (e_msgs e ! i)))
                                      [0..<length (e_targets e)]) \<and>
     length (filter is_outcome ev) = (if e_rec e then length (e_targets e) * length (e_meta e) else 0)"

context target_flush
begin

lemma flush_effect:
  assumes wf: "egress_wf D e"
  shows "\<exists>e' ev ns. flush_result D e e' ev ns \<and>
     (do { (e1, ev1) \<leftarrow> fold_opt f [0..<length (e_targets e)] (e, []);
           let (e2, ev2) = flushTees e1;
           Some (flushReset e2, ev1 @ ev2) }) = Some (e', ev)"
proof -
  let ?n = "length (e_targets e)"
  obtain ns errs c where b: "\<forall>i < ?n. ns i \<le> length (e_msgs e ! i) \<and>
        (errs i = None \<longrightarrow> ns i = length (e_msgs e ! i))"
    and run: "fold_opt f [0..<?n] (e, []) =
       Some (e\<lparr>e_calls := c,
               e_wire := e_wire e @ concat (map (\<lambda>i. map (Pair i) (take (ns i) (e_msgs e ! i))) [0..<?n]),
               e_msgs := map (\<lambda>i. if i < ?n then [] else e_msgs e ! i) [0..<length (e_msgs e)]\<rparr>,
             concat (map (\<lambda>i. recordMeta (e_rec e) (e_targets e ! i) (ns i) (errs i) (e_meta e)) [0..<?n]))"
    (is "_ = Some (?e1, ?ev1)")
    using all_targets [OF wf order_refl] by blast
  have len: "length (e_msgs e) = ?n" "\<And>i. i < ?n \<Longrightarrow> length (e_msgs e ! i) = length (e_meta e)"
    using wf by (auto simp: egress_wf_def)
  let ?e2 = "fst (flushTees ?e1)" and ?ev2 = "snd (flushTees ?e1)"
  have oc: "length (filter is_outcome (?ev1 @ ?ev2)) = (if e_rec e then ?n * length (e_meta e) else 0)"
    using b len flushTees_events [of ?e1]
    by (simp add: outcomes_concat tee_events_no_outcome del: upt_Suc)
  have "flush_result D e (flushReset ?e2) (?ev1 @ ?ev2) ns"
    unfolding flush_result_def
    using wf len b oc by (simp add: flushTees_effect flushReset_def egress_wf_def del: filter_append)
  moreover have "(do { (e1, ev1) \<leftarrow> fold_opt f [0..<?n] (e, []);
           let (e2, ev2) = flushTees e1;
           Some (flushReset e2, ev1 @ ev2) }) = Some (flushReset ?e2, ?ev1 @ ?ev2)"
    unfolding run by (simp add: split_def Let_def)
  ultimately show ?thesis by blast
qed

end

lemma healthy_writeBatchAll:
  "healthy w \<Longrightarrow> \<exists>c'. writeBatchAll w c ms = (length ms, None, c')"
  using writeBatchFrom_healthy [of w 0 ms c] writeBatchAll_spec(2) [of w c ms]
  by (cases "writeBatchAll w c ms") (auto simp: writeBatchAll_def)

lemma healthy_drainReliable: "healthy w \<Longrightarrow> \<exists>c'. drainReliable' w c ms = (length ms, None, c')"
  using healthy_writeBatchAll [of w c ms]
  by (cases ms) (auto simp: drainReliable'_def drainReliable_def reliableLoop.simps)


subsection \<open>The sender goroutine\<close>

definition wireOf :: "nat \<Rightarrow> Egress \<Rightarrow> message list" where
  "wireOf i e = map snd (filter (\<lambda>p. fst p = i) (e_wire e))"

definition sendQueue :: "Egress \<Rightarrow> egressBatch list" where
  "sendQueue e = (case e_sendQ e of None \<Rightarrow> [] | Some q \<Rightarrow> q)"

definition pendingOf :: "nat \<Rightarrow> Egress \<Rightarrow> message list" where
  "pendingOf i e = concat (map (\<lambda>b. eb_msgs b ! i) (sendQueue e)) @ e_msgs e ! i"

text \<open>The worker and the sender goroutine interleave: the worker enqueues and flushes, the
  sender writes the oldest batch.  The second component is what was enqueued so far.\<close>

inductive sstep ::
  "(nat \<Rightarrow> message writer) \<Rightarrow> (u32 \<Rightarrow> udp_addr) \<Rightarrow>
   Egress \<times> (bytes \<times> udp_addr) list \<Rightarrow> Egress \<times> (bytes \<times> udp_addr) list \<Rightarrow> bool"
  for K D where
  sstep_enqueue: "egress_enqueue raw dst m p e = Some e' \<Longrightarrow>
     (mm_label m = '''' \<Longrightarrow> \<forall>t. zoned dst t = zoned (D (mm_group m)) t) \<Longrightarrow>
     sstep K D (e, h) (e', h @ [(raw, dst)])"
| sstep_flush: "egress_flush K e = Some (e', ev) \<Longrightarrow> sstep K D (e, h) (e', h)"
| sstep_send: "senderStep K e = Some (e', ev) \<Longrightarrow> sstep K D (e, h) (e', h)"

definition sender_inv ::
  "(u32 \<Rightarrow> udp_addr) \<Rightarrow> string list \<Rightarrow> Egress \<Rightarrow> (bytes \<times> udp_addr) list \<Rightarrow> bool" where
  "sender_inv D ts e h \<longleftrightarrow>
     egress_wf D e \<and> e_targets e = ts \<and> e_sendQ e = Some (sendQueue e) \<and>
     (\<forall>b \<in> set (sendQueue e). length (eb_msgs b) = length ts) \<and>
     0 < e_free e + length (sendQueue e) \<and>
     (\<forall>i < length ts. wireOf i e @ pendingOf i e =
        map (\<lambda>p. \<lparr>m_buf = fst p, m_addr = zoned (snd p) (ts ! i)\<rparr>) h)"

lemma senderTargets_healthy:
  assumes "\<forall>i. healthy (K i)" "length (eb_msgs b) = length (e_targets e)" "k \<le> length (e_targets e)"
  shows "\<exists>c ev. fold_opt (senderTarget K b) [0..<k] (e, ev0) =
     Some (e\<lparr>e_calls := c,
             e_wire := e_wire e @ concat (map (\<lambda>i. map (Pair i) (eb_msgs b ! i)) [0..<k])\<rparr>, ev)"
  using assms(3)
proof (induction k)
  case 0
  have "e\<lparr>e_calls := e_calls e, e_wire := e_wire e\<rparr> = e" by simp
  then show ?case by (intro exI [of _ "e_calls e"] exI [of _ ev0]) simp
next
  case (Suc k)
  let ?W = "e_wire e @ concat (map (\<lambda>i. map (Pair i) (eb_msgs b ! i)) [0..<k])"
  obtain c ev where run: "fold_opt (senderTarget K b) [0..<k] (e, ev0) =
      Some (e\<lparr>e_calls := c, e_wire := ?W\<rparr>, ev)" using Suc by auto
  obtain c' where c': "drainReliable' (K k) c (eb_msgs b ! k) = (length (eb_msgs b ! k), None, c')"
    using healthy_drainReliable [of "K k" c "eb_msgs b ! k"] assms(1) by blast
  have len: "k < length (eb_msgs b)" "k < length (e_targets e)" using Suc.prems assms(2) by simp_all
  have step: "fold_opt (senderTarget K b) [0..<Suc k] (e, ev0) =
      senderTarget K b k (e\<lparr>e_calls := c, e_wire := ?W\<rparr>, ev)"
    using run by (simp add: fold_opt_snoc)
  show ?case
  proof (cases "eb_msgs b ! k = []")
    case True
    then show ?thesis unfolding step using len
      by (intro exI [of _ c] exI [of _ ev]) (simp add: senderTarget_def index_ok)
  next
    case False
    then show ?thesis unfolding step using len c'
      by (intro exI [of _ c'] exI [of _ "ev @ recordMeta (e_rec e) (e_targets e ! k) (length (eb_msgs b ! k)) None (eb_meta b)"])
        (simp add: senderTarget_def index_ok)
  qed
qed

text \<open>What a flush needs of the sender's queues: a batch that is free or will be, and every queued
  batch one list for each target.\<close>

definition sender_ok :: "Egress \<Rightarrow> bool" where
  "sender_ok e \<longleftrightarrow>
     (case e_sendQ e of
        None \<Rightarrow> True
      | Some q \<Rightarrow> 0 < e_free e + length q \<and> (\<forall>b \<in> set q. length (eb_msgs b) = length (e_targets e)))"

lemma sender_ok_same:
  "sender_ok e \<Longrightarrow> e_sendQ e' = e_sendQ e \<Longrightarrow> e_free e' = e_free e \<Longrightarrow> e_targets e' = e_targets e \<Longrightarrow> sender_ok e'"
  by (simp add: sender_ok_def cong: option.case_cong)

lemma sender_ok_frame [simp]:
  "sender_ok (enqueued raw dst m p C e) = sender_ok e" "sender_ok (e\<lparr>e_pool := q\<rparr>) = sender_ok e"
  "sender_ok (e\<lparr>e_poolNext := n\<rparr>) = sender_ok e" "sender_ok (e\<lparr>e_coal := c\<rparr>) = sender_ok e"
  "sender_ok (NewEgress f co mm ts h r)"
  by (simp_all add: sender_ok_def enqueued_def NewEgress_def cong: option.case_cong)

lemma senderTargets_return:
  assumes "length (eb_msgs b) = length (e_targets e)" "k \<le> length (e_targets e)"
  shows "\<exists>c W ev. fold_opt (senderTarget K b) [0..<k] (e, ev0) = Some (e\<lparr>e_calls := c, e_wire := W\<rparr>, ev)"
  using assms(2)
proof (induction k)
  case 0
  have "e\<lparr>e_calls := e_calls e, e_wire := e_wire e\<rparr> = e" by simp
  then show ?case by (metis fold_opt.simps(1) upt_0)
next
  case (Suc k)
  then obtain c W ev where "fold_opt (senderTarget K b) [0..<k] (e, ev0) = Some (e\<lparr>e_calls := c, e_wire := W\<rparr>, ev)"
    by auto
  then have step: "fold_opt (senderTarget K b) [0..<Suc k] (e, ev0) = senderTarget K b k (e\<lparr>e_calls := c, e_wire := W\<rparr>, ev)"
    by (simp add: fold_opt_snoc)
  obtain n err c' where "drainReliable' (K k) c (eb_msgs b ! k) = (n, err, c')" by (rule prod_cases3)
  then show ?case unfolding step using Suc.prems assms(1)
    by (cases "eb_msgs b ! k = []") (auto simp: senderTarget_def index_ok)
qed

lemma flushToSender_return:
  assumes wf: "egress_wf D e" and q: "e_sendQ e = Some q" and ok: "sender_ok e"
  shows "\<exists>e' ev. flushToSender K e = Some (e', ev) \<and> egress_wf D e' \<and> sender_ok e' \<and>
     e_targets e' = e_targets e \<and> e_meta e' = [] \<and> e_poolSize e' = e_poolSize e \<and> e_coal e' = e_coal e"
proof -
  obtain e1 ev1 where e1: "flushTees e = (e1, ev1)" by fastforce
  have f: "e1 = e\<lparr>e_tee := e_tee e1, e_mirror := e_mirror e1\<rparr>"
    using flushTees_effect [of e] e1 by simp
  have k1: "egress_wf D e1" "sender_ok e1" "e_sendQ e1 = Some q" "e_targets e1 = e_targets e"
    "e_poolSize e1 = e_poolSize e" "e_coal e1 = e_coal e"
    using wf q ok by (subst f, simp add: egress_wf_def sender_ok_def)+
  show ?thesis
  proof (cases "e_meta e1 = []")
    case True
    then show ?thesis using e1 k1 by (simp add: flushToSender_def)
  next
    case False
    have "\<exists>e2 ev2 q2. (if e_free e1 = 0 then senderStep K e1 else Some (e1, [])) = Some (e2, ev2) \<and>
        e_sendQ e2 = Some q2 \<and> egress_wf D e2 \<and> (\<forall>b \<in> set q2. length (eb_msgs b) = length (e_targets e)) \<and>
        e_targets e2 = e_targets e \<and> e_poolSize e2 = e_poolSize e \<and> e_coal e2 = e_coal e"
    proof (cases "e_free e1 = 0")
      case True
      then obtain b q2 where b: "q = b # q2" using k1 by (cases q) (auto simp: sender_ok_def)
      have lb: "length (eb_msgs b) = length (e_targets (e1\<lparr>e_sendQ := Some q2\<rparr>))"
        using k1 b by (simp add: sender_ok_def)
      obtain c W ev where "fold_opt (senderTarget K b) [0..<length (e_targets e1)] (e1\<lparr>e_sendQ := Some q2\<rparr>, []) =
          Some (e1\<lparr>e_sendQ := Some q2, e_calls := c, e_wire := W\<rparr>, ev)"
        using senderTargets_return [OF lb, of "length (e_targets e1)" K "[]"] by auto
      then show ?thesis using True b k1 by (auto simp: senderStep_def egress_wf_def sender_ok_def)
    qed (use k1 in \<open>simp add: sender_ok_def\<close>)
    then obtain e2 ev2 q2 where e2: "(if e_free e1 = 0 then senderStep K e1 else Some (e1, [])) = Some (e2, ev2)"
      "e_sendQ e2 = Some q2" "egress_wf D e2" "\<forall>b \<in> set q2. length (eb_msgs b) = length (e_targets e)"
      "e_targets e2 = e_targets e" "e_poolSize e2 = e_poolSize e" "e_coal e2 = e_coal e" by blast
    then show ?thesis using e1 False
      by (auto simp: flushToSender_def sender_ok_def egress_wf_def)
  qed
qed

lemma flush_returns:
  assumes "egress_wf D e" "sender_ok e"
  shows "\<exists>e' ev. egress_flush K e = Some (e', ev) \<and> egress_wf D e' \<and> sender_ok e' \<and>
     e_targets e' = e_targets e \<and> e_meta e' = [] \<and> e_poolSize e' = e_poolSize e \<and> e_coal e' = e_coal e"
    and "\<exists>e' ev. FlushVia fn e = Some (e', ev) \<and> egress_wf D e' \<and> sender_ok e' \<and>
     e_targets e' = e_targets e \<and> e_meta e' = [] \<and> e_poolSize e' = e_poolSize e \<and> e_coal e' = e_coal e"
proof -
  show "\<exists>e' ev. FlushVia fn e = Some (e', ev) \<and> egress_wf D e' \<and> sender_ok e' \<and>
     e_targets e' = e_targets e \<and> e_meta e' = [] \<and> e_poolSize e' = e_poolSize e \<and> e_coal e' = e_coal e"
    using transport.flush_effect [OF assms(1), of fn] assms(2)
    by (auto simp: FlushVia_def flush_result_def intro: sender_ok_same)
  show "\<exists>e' ev. egress_flush K e = Some (e', ev) \<and> egress_wf D e' \<and> sender_ok e' \<and>
     e_targets e' = e_targets e \<and> e_meta e' = [] \<and> e_poolSize e' = e_poolSize e \<and> e_coal e' = e_coal e"
  proof (cases "e_sendQ e")
    case None
    then show ?thesis using kernel.flush_effect [OF assms(1), of K]
      by (auto simp: egress_flush_def flush_result_def sender_ok_def)
  next
    case (Some q)
    then show ?thesis using flushToSender_return [OF assms(1) Some assms(2), of K]
      by (simp add: egress_flush_def)
  qed
qed

lemma wire_of_batch:
  "i < n \<Longrightarrow> map snd (filter (\<lambda>p. fst p = i) (concat (map (\<lambda>j. map (Pair j) (Q j)) [0..<n]))) = Q i"
proof (induction n)
  case (Suc n)
  have own: "filter (\<lambda>p. fst p = i) (map (Pair n) (Q n)) = (if i = n then map (Pair n) (Q n) else [])"
    by (auto simp: filter_map o_def)
  have none: "filter (\<lambda>p. fst p = n) (concat (map (\<lambda>j. map (Pair j) (Q j)) [0..<k])) = []" if "k \<le> n" for k
    using that by (auto simp: filter_empty_conv)
  show ?case using Suc own none [of n] by (cases "i = n") (simp_all add: o_def)
qed simp

lemma senderStep_inv:
  assumes K: "\<forall>i. healthy (K i)" and inv: "sender_inv D ts e h" and q: "sendQueue e = b # q"
  shows "\<exists>e' ev. senderStep K e = Some (e', ev) \<and> sender_inv D ts e' h \<and> sendQueue e' = q \<and>
           0 < e_free e' \<and> e_msgs e' = e_msgs e \<and> e_meta e' = e_meta e \<and> e_pooled e' = e_pooled e"
proof -
  have Q: "e_sendQ e = Some (b # q)" "e_targets e = ts" "length (eb_msgs b) = length ts"
    using inv q by (auto simp: sender_inv_def)
  let ?e0 = "e\<lparr>e_sendQ := Some q\<rparr>"
  obtain c ev where run: "fold_opt (senderTarget K b) [0..<length ts] (?e0, []) =
     Some (?e0\<lparr>e_calls := c,
             e_wire := e_wire e @ concat (map (\<lambda>i. map (Pair i) (eb_msgs b ! i)) [0..<length ts])\<rparr>, ev)"
    using senderTargets_healthy [of K b ?e0 "length ts" "[]"] K Q by auto
  define e' where "e' = e\<lparr>e_sendQ := Some q, e_calls := c,
      e_wire := e_wire e @ concat (map (\<lambda>i. map (Pair i) (eb_msgs b ! i)) [0..<length ts]),
      e_pool := rev (eb_pooled b) @ e_pool e, e_free := Suc (e_free e)\<rparr>"
  have step: "senderStep K e = Some (e', ev)"
    using run Q by (simp add: senderStep_def e'_def)
  have w: "wireOf i e' = wireOf i e @ eb_msgs b ! i" if "i < length ts" for i
    using that wire_of_batch [of i "length ts" "\<lambda>i. eb_msgs b ! i"] by (simp add: wireOf_def e'_def)
  have p: "pendingOf i e = eb_msgs b ! i @ pendingOf i e'" "sendQueue e' = q" for i
    using q by (simp_all add: pendingOf_def sendQueue_def e'_def)
  have "egress_wf D e" using inv by (simp add: sender_inv_def)
  then have "egress_wf D e'" by (simp add: egress_wf_def e'_def)
  then have "sender_inv D ts e' h"
    using inv q w p Q by (simp add: sender_inv_def) (simp add: e'_def)
  then show ?thesis using step p by (auto simp: e'_def)
qed


lemma flushTees_inv: "sender_inv D ts (fst (flushTees e)) h = sender_inv D ts e h"
  by (simp add: flushTees_effect sender_inv_def egress_wf_def wireOf_def pendingOf_def sendQueue_def)

lemma flushToSender_inv:
  assumes K: "\<forall>i. healthy (K i)" and inv: "sender_inv D ts e h"
  shows "\<exists>e' ev. flushToSender K e = Some (e', ev) \<and> sender_inv D ts e' h \<and> e_meta e' = []"
proof -
  obtain e1 ev1 where e1: "flushTees e = (e1, ev1)" by fastforce
  have inv1: "sender_inv D ts e1 h" using inv flushTees_inv [of D ts e h] e1 by simp
  show ?thesis
  proof (cases "e_meta e1 = []")
    case True
    then show ?thesis using inv1 e1 by (simp add: flushToSender_def)
  next
    case False
    obtain e2 ev2 where e2: "(if e_free e1 = 0 then senderStep K e1 else Some (e1, [])) = Some (e2, ev2)"
      "sender_inv D ts e2 h"
    proof (cases "e_free e1 = 0")
      case True
      then obtain b q where "sendQueue e1 = b # q"
        using inv1 by (cases "sendQueue e1") (auto simp: sender_inv_def)
      then show ?thesis using senderStep_inv [OF K inv1] True that by auto
    qed (use inv1 that in auto)
    define e' where "e' = e2\<lparr>e_msgs := map (\<lambda>_. []) (e_msgs e2), e_meta := [], e_pooled := [],
        e_free := e_free e2 - 1,
        e_sendQ := Some (sendQueue e2 @ [\<lparr>eb_msgs = e_msgs e2, eb_meta = e_meta e2, eb_pooled = e_pooled e2\<rparr>])\<rparr>"
    have q: "e_sendQ e2 = Some (sendQueue e2)" using e2(2) by (simp add: sender_inv_def)
    have "flushToSender K e = Some (e', ev1 @ ev2)"
      using e1 False e2(1) q by (simp add: flushToSender_def e'_def)
    moreover have wf2: "egress_wf D e2" "e_targets e2 = ts" using e2(2) by (auto simp: sender_inv_def)
    moreover have "pendingOf i e' = pendingOf i e2" if "i < length ts" for i
      using that wf2 by (simp add: pendingOf_def e'_def sendQueue_def egress_wf_def)
    moreover have "egress_wf D e'" using wf2 by (auto simp: egress_wf_def e'_def)
    moreover have "sendQueue e' = sendQueue e2 @
        [\<lparr>eb_msgs = e_msgs e2, eb_meta = e_meta e2, eb_pooled = e_pooled e2\<rparr>]" "wireOf i e' = wireOf i e2"
      "e_sendQ e' = Some (sendQueue e')" "e_targets e' = ts" for i
      using wf2(2) by (simp_all add: sendQueue_def wireOf_def e'_def)
    moreover have "length (e_msgs e2) = length ts" using wf2 by (simp add: egress_wf_def)
    ultimately have "flushToSender K e = Some (e', ev1 @ ev2) \<and> sender_inv D ts e' h"
      using e2(2) by (simp add: sender_inv_def)
    then show ?thesis by (auto simp: e'_def)
  qed
qed

lemma enqueue_inv:
  assumes inv: "sender_inv D ts e h" and e': "egress_enqueue raw dst m p e = Some e'"
    and dst: "mm_label m = '''' \<Longrightarrow> \<forall>t. zoned dst t = zoned (D (mm_group m)) t"
  shows "sender_inv D ts e' (h @ [(raw, dst)])"
proof -
  have wf: "egress_wf D e" "e_targets e = ts" using inv by (auto simp: sender_inv_def)
  obtain C where C: "e' = enqueued raw dst m p C e" "egress_wf D e'"
    using enqueue_effect [OF wf(1) dst, of raw p] e' by auto
  have q: "sendQueue e' = sendQueue e" "wireOf i e' = wireOf i e" "e_targets e' = ts"
    "e_sendQ e' = e_sendQ e" "e_free e' = e_free e" for i
    using wf(2) by (simp_all add: C(1) enqueued_def sendQueue_def wireOf_def)
  have "pendingOf i e' = pendingOf i e @ [\<lparr>m_buf = raw, m_addr = zoned dst (ts ! i)\<rparr>]"
    if "i < length ts" for i
    using that wf unfolding pendingOf_def q
    by (simp add: C(1) enqueued_def appended_def egress_wf_def)
  then show ?thesis using inv C(2) q by (simp add: sender_inv_def flip: append_assoc)
qed

lemma sstep_inv:
  assumes "sstep K D (e, h) (e', h')" "\<forall>i. healthy (K i)" "sender_inv D ts e h"
  shows "sender_inv D ts e' h'"
  using assms
proof (cases rule: sstep.cases)
  case (sstep_enqueue raw dst m p)
  then show ?thesis using enqueue_inv assms(3) by blast
next
  case (sstep_flush ev)
  then have "flushToSender K e = Some (e', ev)"
    using assms(3) by (simp add: egress_flush_def sender_inv_def)
  then show ?thesis using flushToSender_inv [OF assms(2,3)] sstep_flush by auto
next
  case (sstep_send ev)
  then obtain b q where "sendQueue e = b # q"
    using assms(3) by (cases "sendQueue e") (auto simp: senderStep_def sendQueue_def sender_inv_def)
  then show ?thesis using senderStep_inv [OF assms(2,3)] sstep_send by auto
qed

lemma sstep_reach_inv:
  assumes "(sstep K D)\<^sup>*\<^sup>* (e0, h0) (e, h)" "\<forall>i. healthy (K i)" "sender_inv D ts e0 h0"
  shows "sender_inv D ts e h"
  using assms(1) by (induction rule: rtranclp_induct2) (use assms(2,3) sstep_inv in blast)+

lemma senderRun_all:
  assumes K: "\<forall>i. healthy (K i)" and inv: "sender_inv D ts e h"
  shows "\<exists>e' ev'. senderRun K (length (sendQueue e)) (e, ev) = Some (e', ev') \<and>
           sender_inv D ts e' h \<and> sendQueue e' = [] \<and> e_msgs e' = e_msgs e"
  using inv
proof (induction "sendQueue e" arbitrary: e ev)
  case Nil
  then show ?case by simp
next
  case (Cons b q)
  obtain e1 ev1 where s: "senderStep K e = Some (e1, ev1)" "sender_inv D ts e1 h" "sendQueue e1 = q"
    "e_msgs e1 = e_msgs e"
    using senderStep_inv [OF K Cons.prems Cons.hyps(2) [symmetric]] by auto
  then show ?case
    using Cons.hyps(1) [of e1 "ev @ ev1"] Cons.hyps(2) [symmetric] by auto
qed

lemma sender_inv_start: "sender_inv D ts (StartSender d (NewEgress f c mm ts hint r)) []"
  using egress_wf_new [of D f c mm ts hint r]
  by (simp add: sender_inv_def StartSender_def sendQueue_def wireOf_def pendingOf_def egress_wf_def
      NewEgress_def)


subsection \<open>Properties\<close>

text \<open>An enqueue on a well-formed egress never panics and never loops.  Every target's queue
  gains exactly the given datagram, addressed to the given destination on that target's own
  interface even when the address came from the per-target cache.  One metadata entry is
  added, so the queues stay in lock step with the metadata.  The retry tee and the local mirror
  gain the datagram exactly when it is theirs.\<close>

lemma enqueue_fans_out:
  assumes "egress_wf D e"
    and "mm_label m = '''' \<Longrightarrow> \<forall>t. zoned dst t = zoned (D (mm_group m)) t"
  shows "\<exists>e'. egress_enqueue raw dst m pooled e = Some e' \<and> egress_wf D e' \<and>
     e_meta e' = e_meta e @ [m] \<and>
     (\<forall>i < length (e_targets e).
        e_msgs e' ! i = e_msgs e ! i @ [\<lparr>m_buf = raw, m_addr = zoned dst (e_targets e ! i)\<rparr>]) \<and>
     e_tee e' = map_option (\<lambda>t. if mm_teeable m then tee_append raw t else t) (e_tee e) \<and>
     e_mirror e' = map_option (\<lambda>t. if mm_label m = '''' then tee_append raw t else t) (e_mirror e)"
proof -
  obtain C where "egress_enqueue raw dst m pooled e = Some (enqueued raw dst m pooled C e)"
    "egress_wf D (enqueued raw dst m pooled C e)"
    using enqueue_effect [OF assms] by blast
  then show ?thesis using assms(1)
    by (intro exI [of _ "enqueued raw dst m pooled C e"])
      (simp add: enqueued_def appended_def egress_wf_def)
qed





end
