(* ===== verification/Forwarder.thy ===== *)
theory Forwarder
  imports Egress Chains RateLimit SubtreeRoot
begin

text \<open>
  \<^verbatim>\<open>forwarder/forwarder.go\<close>: the configuration of the forwarder, its shared state, dedup claims,
  group addresses, stamping, and the fragmentation of transactions, blocks and subtrees.
  The record \<open>Forwarder\<close> holds what the setters fix before the workers start; the record
  \<open>fstate\<close> holds what the handlers change: the group address cache, the bridging engine,
  the limiter, the sequence counters, the history of the dedup stores, the metric events,
  the egress of the calling worker (\<^const>\<open>None\<close> for a nil egress) and the clock.  A handler returns
  \<^const>\<open>None\<close> exactly where the Go code panics.  Log lines are not modelled.
\<close>

subsection \<open>The forwarder\<close>

text \<open>A claim store as a function of the claims made so far; \<open>True\<close> is a won claim
  or an error (fail open).\<close>

type_synonym claim_store = "(string \<times> bytes) list \<Rightarrow> string \<Rightarrow> bytes \<Rightarrow> bool"

record BridgingEngine =
  br_secondary :: engine
  br_epoch :: int

record BEEFSubmitPolicy =
  pol_DeliverCount :: "bytes \<Rightarrow> int \<Rightarrow> int"
  pol_MaxObjectBytes :: "bytes \<Rightarrow> int"

record Forwarder =
  fw_engine :: engine
  fw_mcPrefix :: u16
  fw_mcGroupID :: u16
  fw_egressPort :: int
  fw_debug :: bool
  fw_rec :: bool
  fw_fragDataSize :: nat
  fw_bindSource :: "bytes option"
  fw_stampSource :: bool
  fw_hopLimit :: int
  fw_egressLoop :: bool
  fw_coalesce :: bool
  fw_coalesceMaxBytes :: int
  fw_coalesceBudget :: int
  fw_coalesceMaxMembers :: int
  fw_coalesceCarryTxid :: bool
  fw_requireBlockPoW :: bool
  fw_powFloor :: "nat option"
  fw_requireEF :: bool
  fw_allowStampedIngress :: bool
  fw_verifyPayloadHash :: bool
  fw_verifySubtreeRoot :: bool
  fw_txDedup :: "claim_store option"
  fw_txDedupPrefix :: string
  fw_beefDedup :: "claim_store option"
  fw_beefDedupPrefix :: string
  fw_beefEngine :: "(bytes \<Rightarrow> u32) option"
  fw_beefMaxObject :: int
  fw_beefPolicy :: "BEEFSubmitPolicy option"

text \<open>\<open>s_procs\<close> and \<open>s_sched\<close> are the Go runtime: the processor count and the order in which
  concurrent hash workers run.\<close>

record fstate =
  s_addrs :: "udp_addr option list"
  s_bridging :: "BridgingEngine option"
  s_limit :: "beefLimiter option"
  s_chains :: chains
  s_txClaims :: "(string \<times> bytes) list"
  s_beefClaims :: "(string \<times> bytes) list"
  s_ev :: "event list"
  s_egr :: "Egress option"
  s_now :: int
  s_procs :: nat
  s_sched :: "nat list list \<Rightarrow> nat list"

definition ipv6UDPHeaderSize :: nat where "ipv6UDPHeaderSize = 40 + 8"
definition ipv6UDPOverhead :: nat where "ipv6UDPOverhead = ipv6UDPHeaderSize + HeaderSizeV3"
definition DefaultCoalesceMaxBytes :: int where "DefaultCoalesceMaxBytes = 1500"

definition New :: "engine \<Rightarrow> u16 \<Rightarrow> u16 \<Rightarrow> int \<Rightarrow> bool \<Rightarrow> bool \<Rightarrow> Forwarder" where
  "New engine mcPrefix mcGroupID egressPort debug rec =
     \<lparr>fw_engine = engine, fw_mcPrefix = mcPrefix, fw_mcGroupID = mcGroupID,
      fw_egressPort = egressPort, fw_debug = debug, fw_rec = rec, fw_fragDataSize = 0,
      fw_bindSource = None, fw_stampSource = False, fw_hopLimit = 0, fw_egressLoop = False,
      fw_coalesce = False, fw_coalesceMaxBytes = 0, fw_coalesceBudget = 0,
      fw_coalesceMaxMembers = 0, fw_coalesceCarryTxid = False, fw_requireBlockPoW = False,
      fw_powFloor = None, fw_requireEF = False, fw_allowStampedIngress = False,
      fw_verifyPayloadHash = False, fw_verifySubtreeRoot = False, fw_txDedup = None,
      fw_txDedupPrefix = '''', fw_beefDedup = None, fw_beefDedupPrefix = '''',
      fw_beefEngine = None, fw_beefMaxObject = 0, fw_beefPolicy = None\<rparr>"

text \<open>The rest of \<^verbatim>\<open>New\<close>: the state a new forwarder starts from, with no egress yet.\<close>

definition newState :: "int \<Rightarrow> nat \<Rightarrow> (nat list list \<Rightarrow> nat list) \<Rightarrow> fstate" where
  "newState now procs sched =
     \<lparr>s_addrs = replicate maxGroupCache None, s_bridging = None, s_limit = None,
      s_chains = emptyChains, s_txClaims = [], s_beefClaims = [], s_ev = [], s_egr = None,
      s_now = now, s_procs = procs, s_sched = sched\<rparr>"

definition SetBridging :: "BridgingEngine option \<Rightarrow> fstate \<Rightarrow> fstate" where
  "SetBridging b s = s\<lparr>s_bridging := b\<rparr>"

definition Bridging :: "fstate \<Rightarrow> BridgingEngine option" where
  "Bridging s = s_bridging s"

definition SetBindSource :: "bytes option \<Rightarrow> Forwarder \<Rightarrow> Forwarder" where
  "SetBindSource ip fw = fw\<lparr>fw_bindSource := ip\<rparr>"

definition SetStampSource :: "bool \<Rightarrow> Forwarder \<Rightarrow> Forwarder" where
  "SetStampSource on fw = fw\<lparr>fw_stampSource := on\<rparr>"

definition SetEgressHopLimit :: "int \<Rightarrow> Forwarder \<Rightarrow> Forwarder" where
  "SetEgressHopLimit n fw = fw\<lparr>fw_hopLimit := n\<rparr>"

definition SetEgressLoop :: "bool \<Rightarrow> Forwarder \<Rightarrow> Forwarder" where
  "SetEgressLoop on fw = fw\<lparr>fw_egressLoop := on\<rparr>"

definition SetBlockPoW :: "lib \<Rightarrow> bool \<Rightarrow> u32 \<Rightarrow> Forwarder \<Rightarrow> Forwarder" where
  "SetBlockPoW L required floorBits fw =
     fw\<lparr>fw_requireBlockPoW := required,
        fw_powFloor := (if required \<and> floorBits \<noteq> 0 then Some (pow_CompactToTarget L floorBits)
                        else None)\<rparr>"

definition SetRequireEF :: "bool \<Rightarrow> Forwarder \<Rightarrow> Forwarder" where
  "SetRequireEF required fw = fw\<lparr>fw_requireEF := required\<rparr>"

definition SetAllowStampedIngress :: "bool \<Rightarrow> Forwarder \<Rightarrow> Forwarder" where
  "SetAllowStampedIngress allow fw = fw\<lparr>fw_allowStampedIngress := allow\<rparr>"

definition SetVerifySubtreeRoot :: "bool \<Rightarrow> Forwarder \<Rightarrow> Forwarder" where
  "SetVerifySubtreeRoot verify fw = fw\<lparr>fw_verifySubtreeRoot := verify\<rparr>"

definition SetVerifyPayloadHash :: "bool \<Rightarrow> Forwarder \<Rightarrow> Forwarder" where
  "SetVerifyPayloadHash v fw = fw\<lparr>fw_verifyPayloadHash := v\<rparr>"

definition SetCoalesce :: "bool \<Rightarrow> int \<Rightarrow> int \<Rightarrow> bool \<Rightarrow> Forwarder \<Rightarrow> Forwarder" where
  "SetCoalesce enabled maxBytes maxMembers carryTxid fw =
     (let mb = (if maxBytes \<le> 0 then DefaultCoalesceMaxBytes else maxBytes)
      in fw\<lparr>fw_coalesce := enabled, fw_coalesceMaxBytes := mb,
            fw_coalesceBudget := mb - int ipv6UDPHeaderSize,
            fw_coalesceMaxMembers := maxMembers, fw_coalesceCarryTxid := carryTxid\<rparr>)"

definition SetTxidDedup :: "claim_store option \<Rightarrow> string \<Rightarrow> Forwarder \<Rightarrow> Forwarder" where
  "SetTxidDedup d pfx fw = fw\<lparr>fw_txDedup := d, fw_txDedupPrefix := pfx\<rparr>"

definition SetBEEFDedup :: "claim_store option \<Rightarrow> string \<Rightarrow> Forwarder \<Rightarrow> Forwarder" where
  "SetBEEFDedup d pfx fw = fw\<lparr>fw_beefDedup := d, fw_beefDedupPrefix := pfx\<rparr>"

definition SetFragMTU :: "int \<Rightarrow> Forwarder \<Rightarrow> Forwarder" where
  "SetFragMTU mtu fw =
     fw\<lparr>fw_fragDataSize := (if mtu > int ipv6UDPOverhead then nat (mtu - int ipv6UDPOverhead) else 0)\<rparr>"

definition EgressPort :: "Forwarder \<Rightarrow> int" where
  "EgressPort fw = fw_egressPort fw"

subsection \<open>Metrics, dedup and addresses\<close>

definition emit :: "Forwarder \<Rightarrow> event \<Rightarrow> fstate \<Rightarrow> fstate" where
  "emit fw e s = (if fw_rec fw then s\<lparr>s_ev := s_ev s @ [e]\<rparr> else s)"

definition dropped :: "Forwarder \<Rightarrow> int \<Rightarrow> string \<Rightarrow> fstate \<Rightarrow> fstate" where
  "dropped fw workerID reason s = emit fw (PacketDropped (egrIface (s_egr s)) workerID reason) s"

text \<open>A decode error is counted only when there is a target to name.\<close>

definition droppedDecode :: "Forwarder \<Rightarrow> int \<Rightarrow> fstate \<Rightarrow> fstate" where
  "droppedDecode fw workerID s =
     (case s_egr s of
        None \<Rightarrow> s
      | Some e \<Rightarrow> if e_targets e = [] then s else dropped fw workerID ''decode_error'' s)"

definition claimIngressIn ::
  "Forwarder \<Rightarrow> claim_store option \<Rightarrow> string \<Rightarrow> bytes \<Rightarrow> string \<Rightarrow> string \<Rightarrow> int \<Rightarrow> (string \<times> bytes) list \<Rightarrow>
   bool \<times> (string \<times> bytes) list \<times> event list" where
  "claimIngressIn fw store pfx txid frameType iface workerID hist =
     (case store of
        None \<Rightarrow> (True, hist, [])
      | Some st \<Rightarrow>
          if st hist pfx txid then (True, hist @ [(pfx, txid)], [])
          else (False, hist @ [(pfx, txid)],
                if fw_rec fw then [IngressDeduped iface workerID frameType] else []))"

definition claimIngress :: "Forwarder \<Rightarrow> bytes \<Rightarrow> string \<Rightarrow> string \<Rightarrow> int \<Rightarrow> fstate \<Rightarrow> bool \<times> fstate" where
  "claimIngress fw txid frameType iface workerID s =
     (case claimIngressIn fw (fw_txDedup fw) (fw_txDedupPrefix fw) txid frameType iface workerID (s_txClaims s) of
        (ok, h, ev) \<Rightarrow> (ok, s\<lparr>s_txClaims := h, s_ev := s_ev s @ ev\<rparr>))"

definition claimBEEFIngress :: "Forwarder \<Rightarrow> bytes \<Rightarrow> string \<Rightarrow> string \<Rightarrow> int \<Rightarrow> fstate \<Rightarrow> bool \<times> fstate" where
  "claimBEEFIngress fw key frameType iface workerID s =
     (if fw_beefDedup fw \<noteq> None then
        (case claimIngressIn fw (fw_beefDedup fw) (fw_beefDedupPrefix fw) key frameType iface workerID (s_beefClaims s) of
           (ok, h, ev) \<Rightarrow> (ok, s\<lparr>s_beefClaims := h, s_ev := s_ev s @ ev\<rparr>))
      else claimIngress fw key frameType iface workerID s)"

definition addrFor :: "Forwarder \<Rightarrow> u32 \<Rightarrow> fstate \<Rightarrow> udp_addr \<times> fstate" where
  "addrFor fw idx s =
     (if unat idx \<ge> length (s_addrs s) then (eng_addr (fw_engine fw) idx (fw_egressPort fw), s)
      else
        case s_addrs s ! unat idx of
          Some a \<Rightarrow> (a, s)
        | None \<Rightarrow>
            let a = eng_addr (fw_engine fw) idx (fw_egressPort fw)
            in (a, s\<lparr>s_addrs := (s_addrs s)[unat idx := Some a]\<rparr>))"

text \<open>The address of a control group.\<close>

definition controlAddr :: "lib \<Rightarrow> Forwarder \<Rightarrow> u32 \<Rightarrow> int \<Rightarrow> udp_addr" where
  "controlAddr L fw idx port =
     \<lparr>ua_ip = shard_GroupAddr L (fw_mcPrefix fw) (fw_mcGroupID fw) idx, ua_port = port, ua_zone = ''''\<rparr>"

text \<open>\<open>onEgress f s\<close> runs \<open>f\<close> on the egress; with a nil egress the handler returns.\<close>

definition onEgress :: "(Egress \<Rightarrow> Egress option) \<Rightarrow> fstate \<Rightarrow> fstate option" where
  "onEgress f s =
     (case s_egr s of
        None \<Rightarrow> Some s
      | Some e \<Rightarrow> do { e' \<leftarrow> f e; Some (s\<lparr>s_egr := Some e'\<rparr>) })"

definition stamp :: "lib \<Rightarrow> Forwarder \<Rightarrow> bytes \<Rightarrow> bytes \<Rightarrow> u32 \<Rightarrow> bytes \<Rightarrow> fstate \<Rightarrow> (bytes \<times> fstate) option" where
  "stamp L fw raw ip groupIdx sub s =
     do { (raw', ch) \<leftarrow> stampInPlace (seqhash_Hash L) (fw_stampSource fw) raw ip groupIdx sub (s_chains s);
          Some (raw', s\<lparr>s_chains := ch\<rparr>) }"

subsection \<open>Fragmentation\<close>

text \<open>The fragment loop the four fragmenting handlers share: allocate a sequence number of the
  flow, encode fragment \<open>i\<close> into a pooled buffer, finish it and enqueue it.  An encode error
  returns the buffer to the pool and goes on.\<close>

definition fragStep ::
  "lib \<Rightarrow> bytes \<Rightarrow> u32 \<Rightarrow> bytes \<Rightarrow> (nat \<Rightarrow> u64 \<Rightarrow> u64 \<Rightarrow> fragment_hdr) \<Rightarrow> (bytes \<Rightarrow> bytes option) \<Rightarrow>
   (bytes \<Rightarrow> nat \<Rightarrow> Egress \<Rightarrow> Egress option) \<Rightarrow> nat \<Rightarrow> fstate \<Rightarrow> fstate option" where
  "fragStep L ip groupIdx sub mk fin enq i s =
     (case nextSeq (seqhash_Hash L) ip groupIdx sub (s_chains s) of
        ((hashKey, seqNum), ch) \<Rightarrow>
          onEgress (\<lambda>e.
            do { (b, e1) \<leftarrow> PoolGet e;
                 sz \<leftarrow> e_poolSize e;
                 case frame_EncodeFragment L sz (mk i hashKey seqNum) of
                   None \<Rightarrow> Some (poolPut b e1)
                 | Some d \<Rightarrow> do { d' \<leftarrow> fin d; enq d' b e1 } }) (s\<lparr>s_chains := ch\<rparr>))"

definition fragLoop ::
  "lib \<Rightarrow> bytes \<Rightarrow> u32 \<Rightarrow> bytes \<Rightarrow> (nat \<Rightarrow> u64 \<Rightarrow> u64 \<Rightarrow> fragment_hdr) \<Rightarrow> (bytes \<Rightarrow> bytes option) \<Rightarrow>
   (bytes \<Rightarrow> nat \<Rightarrow> Egress \<Rightarrow> Egress option) \<Rightarrow> nat \<Rightarrow> fstate \<Rightarrow> fstate option" where
  "fragLoop L ip groupIdx sub mk fin enq k s =
     fold_opt (fragStep L ip groupIdx sub mk fin enq) [0..<k] s"

text \<open>The count \<^verbatim>\<open>(len(payload) + dataSize - 1) / dataSize\<close> and the slice of fragment \<open>i\<close>.\<close>

definition fragCount :: "nat \<Rightarrow> bytes \<Rightarrow> nat" where
  "fragCount dataSize payload = (length payload + dataSize - 1) div dataSize"

definition fragData :: "nat \<Rightarrow> bytes \<Rightarrow> nat \<Rightarrow> bytes" where
  "fragData dataSize payload i = take (min (i * dataSize + dataSize) (length payload) - i * dataSize) (drop (i * dataSize) payload)"

definition fragHdr ::
  "bytes \<Rightarrow> bytes \<Rightarrow> byte \<Rightarrow> nat \<Rightarrow> bytes \<Rightarrow> nat \<Rightarrow> nat \<Rightarrow> u64 \<Rightarrow> u64 \<Rightarrow> fragment_hdr" where
  "fragHdr txid sub ver dataSize payload k i hashKey seqNum =
     \<lparr>fr_txid = txid, fr_sub = sub, fr_hash = hashKey, fr_seq = seqNum,
      fr_origLen = of_nat (length payload), fr_index = of_nat i, fr_total = of_nat k,
      fr_origVer = ver, fr_data = fragData dataSize payload i\<rparr>"

text \<open>\<^verbatim>\<open>buf[7] = raw[7]\<close>: the message type rides in byte 7 of every fragment.\<close>

definition setByte7 :: "bytes \<Rightarrow> bytes \<Rightarrow> bytes option" where
  "setByte7 raw d = do { v \<leftarrow> index raw 7; Some (d[7 := v]) }"

text \<open>The count check the handlers share: too many fragments is a drop, otherwise the
  fragmentation is counted and the loop runs.\<close>

definition withFragCount ::
  "Forwarder \<Rightarrow> bytes \<Rightarrow> int \<Rightarrow> (nat \<Rightarrow> fstate \<Rightarrow> fstate option) \<Rightarrow> fstate \<Rightarrow> fstate option" where
  "withFragCount fw payload workerID loop s =
     do { require (fw_fragDataSize fw > 0);
          let k = fragCount (fw_fragDataSize fw) payload;
          if k > 65535 then Some (emit fw (PacketDropped '''' workerID ''frag_overflow'') s)
          else loop k (emit fw (FrameFragmented workerID k) s) }"

definition fragment :: "lib \<Rightarrow> Forwarder \<Rightarrow> Frame \<Rightarrow> bytes \<Rightarrow> u32 \<Rightarrow> int \<Rightarrow> fstate \<Rightarrow> fstate option" where
  "fragment L fw f ip groupIdx workerID s =
     withFragCount fw (f_payload f) workerID (\<lambda>k s1.
       case addrFor fw groupIdx s1 of (dst, s2) \<Rightarrow>
         fragLoop L ip groupIdx (f_sub f)
           (fragHdr (f_txid f) (f_sub f) 0 (fw_fragDataSize fw) (f_payload f) k) Some
           (\<lambda>d b. EnqueueDataPooled d dst groupIdx workerID b) k s2) s"

definition fragmentBlock ::
  "lib \<Rightarrow> Forwarder \<Rightarrow> bytes \<Rightarrow> BlockFrame \<Rightarrow> bytes \<Rightarrow> u32 \<Rightarrow> int \<Rightarrow> fstate \<Rightarrow> fstate option" where
  "fragmentBlock L fw raw bf ip ctrlIdx workerID s =
     withFragCount fw (bl_payload bf) workerID (\<lambda>k s1.
       let addr = controlAddr L fw GroupBlockBroadcast (fw_egressPort fw) in
            fragLoop L ip ctrlIdx zero32
              (fragHdr (bl_contentID bf) zero32 FrameVerV4 (fw_fragDataSize fw) (bl_payload bf) k)
              (setByte7 raw)
              (\<lambda>d b. EnqueueCacheablePooled d addr ''block_control'' workerID b) k s1) s"

definition fragmentSubtreeData ::
  "lib \<Rightarrow> Forwarder \<Rightarrow> bytes \<Rightarrow> SubtreeDataFrame \<Rightarrow> bytes \<Rightarrow> u32 \<Rightarrow> int \<Rightarrow> fstate \<Rightarrow> fstate option" where
  "fragmentSubtreeData L fw raw sf ip ctrlIdx workerID s =
     withFragCount fw (sd_payload sf) workerID (\<lambda>k s1.
       let addr = controlAddr L fw GroupSubtreeDataAnnounce (fw_egressPort fw) in
            fragLoop L ip ctrlIdx (sd_subtreeID sf)
              (fragHdr (sd_subtreeID sf) zero32 FrameVerV5 (fw_fragDataSize fw) (sd_payload sf) k)
              (setByte7 raw)
              (\<lambda>d b. EnqueueCacheablePooled d addr ''subtree_data'' workerID b) k s1) s"

subsection \<open>The invariant of the shared state\<close>

definition dst_of :: "Forwarder \<Rightarrow> u32 \<Rightarrow> udp_addr" where
  "dst_of fw g = eng_addr (fw_engine fw) g (fw_egressPort fw)"

definition addrs_ok :: "Forwarder \<Rightarrow> udp_addr option list \<Rightarrow> bool" where
  "addrs_ok fw as \<longleftrightarrow> length as \<le> maxGroupCache \<and>
     (\<forall>i a. i < length as \<longrightarrow> as ! i = Some a \<longrightarrow> a = dst_of fw (of_nat i))"

text \<open>The buckets of a coalescing buffer are distinct flows, and a bundle may hold a member.\<close>

abbreviation bucket_key :: "coalBucket \<Rightarrow> chainKey" where
  "bucket_key bk \<equiv> chain_key (cb_ip bk) (cb_group bk) (cb_subtree bk)"

definition coal_wf :: "coalBuffer \<Rightarrow> bool" where
  "coal_wf c \<longleftrightarrow> 0 < co_max c \<and> distinct (map bucket_key (co_buckets c))"

definition egr_ok :: "Forwarder \<Rightarrow> Egress option \<Rightarrow> bool" where
  "egr_ok fw eo \<longleftrightarrow>
     (case eo of
        None \<Rightarrow> True
      | Some e \<Rightarrow> egress_wf (dst_of fw) e \<and> sender_ok e \<and>
                  (0 < fw_fragDataSize fw \<longrightarrow> e_poolSize e = Some (HeaderSizeV3 + fw_fragDataSize fw)) \<and>
                  (\<forall>c. e_coal e = Some c \<longrightarrow> coal_wf c))"

definition fstate_ok :: "Forwarder \<Rightarrow> fstate \<Rightarrow> bool" where
  "fstate_ok fw s \<longleftrightarrow> addrs_ok fw (s_addrs s) \<and> chains_wf (s_chains s) \<and> egr_ok fw (s_egr s) \<and>
     (\<forall>cs. s_sched s cs \<in> interleavings cs)"

lemma newCoalBuffer_wf: "coal_wf (newCoalBuffer n)"
  by (simp add: coal_wf_def newCoalBuffer_def BundleMaxMembers_def)

lemma coal_add_keys:
  "bucket_key ` set (coal_add ip g sub m bs) = insert (chain_key ip g sub) (bucket_key ` set bs)"
  by (induction bs) auto

lemma coal_add_distinct:
  "distinct (map bucket_key bs) \<Longrightarrow> distinct (map bucket_key (coal_add ip g sub m bs))"
proof (induction bs)
  case (Cons b bs)
  have "bucket_key b \<notin> bucket_key ` set bs" using Cons.prems by auto
  then show ?case using Cons coal_add_keys [of ip g sub m bs] by auto
qed simp

lemma coalBuffer_add_wf: "coal_wf c \<Longrightarrow> coal_wf (coalBuffer_add ip g sub t p c)"
  by (simp add: coal_wf_def coalBuffer_add_def coal_add_distinct)

text \<open>\<open>adds ds s s'\<close>: from \<open>s\<close> to \<open>s'\<close> exactly the datagrams \<open>ds\<close> were appended to every
  target's queue, each addressed on that target's interface, and the coalescing buffer is as it was.\<close>

definition egr_adds :: "(bytes \<times> udp_addr) list \<Rightarrow> Egress \<Rightarrow> Egress \<Rightarrow> bool" where
  "egr_adds ds e e' \<longleftrightarrow>
     e_targets e' = e_targets e \<and> e_coal e' = e_coal e \<and>
     (\<forall>i < length (e_targets e). e_msgs e' ! i =
        e_msgs e ! i @ map (\<lambda>p. \<lparr>m_buf = fst p, m_addr = zoned (snd p) (e_targets e ! i)\<rparr>) ds)"

definition adds :: "(bytes \<times> udp_addr) list \<Rightarrow> fstate \<Rightarrow> fstate \<Rightarrow> bool" where
  "adds ds s s' \<longleftrightarrow>
     (case s_egr s of
        None \<Rightarrow> s_egr s' = None
      | Some e \<Rightarrow> (\<exists>e'. s_egr s' = Some e' \<and> egr_adds ds e e'))"

lemma adds_none: "s_egr s' = s_egr s \<Longrightarrow> adds [] s s'"
  by (auto simp: adds_def egr_adds_def split: option.splits)

lemma adds_trans: "adds a s s1 \<Longrightarrow> adds b s1 s2 \<Longrightarrow> adds (a @ b) s s2"
  by (fastforce simp: adds_def egr_adds_def split: option.splits)

lemma adds_left: "adds ds s s' \<Longrightarrow> s_egr t = s_egr s \<Longrightarrow> adds ds t s'"
  by (simp add: adds_def)

lemma adds_right: "adds ds s s' \<Longrightarrow> s_egr t = s_egr s' \<Longrightarrow> adds ds s t"
  by (simp add: adds_def split: option.splits)

lemma emit_frame [frame_simps]:
  "s_addrs (emit fw ev s) = s_addrs s" "s_bridging (emit fw ev s) = s_bridging s"
  "s_limit (emit fw ev s) = s_limit s" "s_chains (emit fw ev s) = s_chains s"
  "s_txClaims (emit fw ev s) = s_txClaims s" "s_beefClaims (emit fw ev s) = s_beefClaims s"
  "s_egr (emit fw ev s) = s_egr s" "s_now (emit fw ev s) = s_now s"
  "s_sched (emit fw ev s) = s_sched s" "s_procs (emit fw ev s) = s_procs s"
  "s_ev (emit fw ev s) = s_ev s @ (if fw_rec fw then [ev] else [])"
  by (simp_all add: emit_def)

lemma emit_ok [simp]: "fstate_ok fw (emit fw' ev s) = fstate_ok fw s"
  by (simp add: fstate_ok_def frame_simps)

lemma dropped_ok [simp]: "fstate_ok fw (dropped fw' w r s) = fstate_ok fw s"
  by (simp add: dropped_def)

lemma droppedDecode_ok [simp]: "fstate_ok fw (droppedDecode fw' w s) = fstate_ok fw s"
  by (simp add: droppedDecode_def split: option.splits)

text \<open>Everything but the events: what a drop leaves untouched.\<close>

definition same_but_events :: "fstate \<Rightarrow> fstate \<Rightarrow> bool" where
  "same_but_events s s' \<longleftrightarrow> s'\<lparr>s_ev := s_ev s\<rparr> = s"

lemma same_but_events_refl [simp]: "same_but_events s s"
  by (simp add: same_but_events_def)

lemma emit_same [simp]: "same_but_events s (emit fw ev s)"
  by (simp add: same_but_events_def emit_def)

lemma dropped_same [simp]: "same_but_events s (dropped fw w r s)"
  by (simp add: dropped_def)

lemma droppedDecode_same [simp]: "same_but_events s (droppedDecode fw w s)"
  by (simp add: droppedDecode_def split: option.splits)

lemma addrFor_ok:
  assumes "fstate_ok fw s"
  shows "\<exists>as. addrFor fw g s = (dst_of fw g, s\<lparr>s_addrs := as\<rparr>) \<and> fstate_ok fw (s\<lparr>s_addrs := as\<rparr>)"
proof -
  have ok: "addrs_ok fw (s_addrs s)" using assms by (simp add: fstate_ok_def)
  have id: "s\<lparr>s_addrs := s_addrs s\<rparr> = s" by simp
  show ?thesis
  proof (cases "unat g \<ge> length (s_addrs s)")
    case True
    then show ?thesis using assms id
      by (intro exI [of _ "s_addrs s"]) (simp add: addrFor_def dst_of_def)
  next
    case False
    then show ?thesis
    proof (cases "s_addrs s ! unat g")
      case None
      have "addrs_ok fw ((s_addrs s)[unat g := Some (dst_of fw g)])"
        using ok False by (auto simp: addrs_ok_def nth_list_update split: if_splits)
      then show ?thesis using False None assms
        by (intro exI [of _ "(s_addrs s)[unat g := Some (dst_of fw g)]"])
          (simp add: addrFor_def dst_of_def fstate_ok_def Let_def)
    next
      case (Some a)
      then have "a = dst_of fw (of_nat (unat g))" using ok False unfolding addrs_ok_def by (meson not_le)
      then have "a = dst_of fw g" by simp
      then show ?thesis using False Some assms id
        by (intro exI [of _ "s_addrs s"]) (simp add: addrFor_def)
    qed
  qed
qed

lemma claimIngress_frame:
  assumes "claimIngress fw txid ft iface w s = (ok, s')"
  shows "s_addrs s' = s_addrs s" "s_bridging s' = s_bridging s" "s_limit s' = s_limit s"
    "s_chains s' = s_chains s" "s_beefClaims s' = s_beefClaims s" "s_egr s' = s_egr s"
    "s_now s' = s_now s" "s_procs s' = s_procs s" "s_sched s' = s_sched s"
  using assms by (auto simp: claimIngress_def split: prod.splits)

lemma claimIngress_ok:
  "claimIngress fw txid ft iface w s = (ok, s') \<Longrightarrow> fstate_ok fw s' = fstate_ok fw s"
  by (simp add: fstate_ok_def claimIngress_frame)

lemma enqueue_ok:
  assumes ok: "fstate_ok fw s" and lab: "mm_label m = '''' \<Longrightarrow> dst = dst_of fw (mm_group m)"
  shows "\<exists>x. onEgress (egress_enqueue raw dst m p) s = Some (s\<lparr>s_egr := x\<rparr>) \<and>
             fstate_ok fw (s\<lparr>s_egr := x\<rparr>) \<and> adds [(raw, dst)] s (s\<lparr>s_egr := x\<rparr>)"
proof (cases "s_egr s")
  case None
  then show ?thesis using ok
    by (intro exI [of _ None]) (simp add: onEgress_def adds_def fstate_ok_def)
next
  case (Some e)
  have wf: "egress_wf (dst_of fw) e" using ok Some by (simp add: fstate_ok_def egr_ok_def)
  have lab': "mm_label m = '''' \<Longrightarrow> \<forall>t. zoned dst t = zoned (dst_of fw (mm_group m)) t"
    using lab by simp
  obtain C where C: "egress_enqueue raw dst m p e = Some (enqueued raw dst m p C e)"
    "egress_wf (dst_of fw) (enqueued raw dst m p C e)"
    using enqueue_effect [OF wf lab'] by blast
  have "egr_adds [(raw, dst)] e (enqueued raw dst m p C e)"
    using wf by (auto simp: egr_adds_def enqueued_def appended_def egress_wf_def)
  moreover have "e_poolSize (enqueued raw dst m p C e) = e_poolSize e"
    "e_coal (enqueued raw dst m p C e) = e_coal e" by (simp_all add: enqueued_def)
  ultimately show ?thesis using C Some ok
    by (intro exI [of _ "Some (enqueued raw dst m p C e)"])
      (simp add: onEgress_def adds_def fstate_ok_def egr_ok_def)
qed

lemmas enqueue_defs =
  EnqueueData_def EnqueueDataPooled_def EnqueueControl_def EnqueueControlPooled_def
  EnqueueCacheable_def EnqueueCacheablePooled_def

lemma EnqueueData_ok:
  assumes "fstate_ok fw s"
  shows "\<exists>x. onEgress (EnqueueData raw (dst_of fw g) g w) s = Some (s\<lparr>s_egr := x\<rparr>) \<and>
             fstate_ok fw (s\<lparr>s_egr := x\<rparr>) \<and> adds [(raw, dst_of fw g)] s (s\<lparr>s_egr := x\<rparr>)"
  using enqueue_ok [OF assms, of "\<lparr>mm_group = g, mm_size = length raw, mm_worker = w,
       mm_label = '''', mm_teeable = True\<rparr>" "dst_of fw g" raw None]
  by (simp add: EnqueueData_def [abs_def])

lemma EnqueueCacheable_ok:
  assumes "fstate_ok fw s" "label \<noteq> ''''"
  shows "\<exists>x. onEgress (EnqueueCacheable raw dst label w) s = Some (s\<lparr>s_egr := x\<rparr>) \<and>
             fstate_ok fw (s\<lparr>s_egr := x\<rparr>) \<and> adds [(raw, dst)] s (s\<lparr>s_egr := x\<rparr>)"
  using enqueue_ok [OF assms(1), of "\<lparr>mm_group = 0, mm_size = length raw, mm_worker = w,
       mm_label = label, mm_teeable = True\<rparr>" dst raw None] assms(2)
  by (simp add: EnqueueCacheable_def [abs_def])


subsection \<open>What stamping and fragmenting do\<close>

text \<open>The frame after \<^const>\<open>stampInPlace\<close>, with the flow's counter at \<open>cnt\<close>.\<close>

definition stamped :: "lib \<Rightarrow> Forwarder \<Rightarrow> bytes \<Rightarrow> bytes \<Rightarrow> u32 \<Rightarrow> bytes \<Rightarrow> u64 \<Rightarrow> bytes" where
  "stamped L fw raw ip g sub cnt =
     (if seq_of raw = 0 then with_stamp (seqhash_Hash L ip g sub) (cnt + 1) raw
      else if hash_of raw = 0 \<or> fw_stampSource fw
      then with_stamp (seqhash_Hash L ip g sub) (seq_of raw) raw
      else raw)"

lemma stamp_effect:
  assumes "fstate_ok fw s" "56 \<le> length raw"
  shows "\<exists>ch. stamp L fw raw ip g sub s =
       Some (stamped L fw raw ip g sub (counterOf (s_chains s) (chain_key ip g sub)), s\<lparr>s_chains := ch\<rparr>) \<and>
     fstate_ok fw (s\<lparr>s_chains := ch\<rparr>) \<and>
     counterOf ch = (if seq_of raw = 0
       then (counterOf (s_chains s))(chain_key ip g sub := counterOf (s_chains s) (chain_key ip g sub) + 1)
       else counterOf (s_chains s))"
proof -
  have wf: "chains_wf (s_chains s)" using assms(1) by (simp add: fstate_ok_def)
  have eq: "stamp L fw raw ip g sub s =
      Some (stamped L fw raw ip g sub (counterOf (s_chains s) (chain_key ip g sub)),
        s\<lparr>s_chains := (if seq_of raw = 0 then snd (reserveFirst (chain_key ip g sub) 1 (s_chains s))
                     else s_chains s)\<rparr>)"
    using wf assms(2) by (simp add: stamp_def stampInPlace_eq stamped_def)
  show ?thesis
    unfolding eq using assms(1) wf reserve_counter(2) [OF wf, of "chain_key ip g sub" 1]
    by (intro exI [of _ "if seq_of raw = 0 then snd (reserveFirst (chain_key ip g sub) 1 (s_chains s))
                         else s_chains s"])
      (simp add: fstate_ok_def reserve_wf)
qed

text \<open>The datagrams of one fragment: none when the encoder refuses it.\<close>

definition fragOut ::
  "lib \<Rightarrow> Forwarder \<Rightarrow> (nat \<Rightarrow> u64 \<Rightarrow> u64 \<Rightarrow> fragment_hdr) \<Rightarrow> (bytes \<Rightarrow> bytes) \<Rightarrow> udp_addr \<Rightarrow> u64 \<Rightarrow> u64 \<Rightarrow> nat \<Rightarrow>
   (bytes \<times> udp_addr) list" where
  "fragOut L fw mk fin dst hk cnt i =
     (case frame_EncodeFragment L (HeaderSizeV3 + fw_fragDataSize fw) (mk i hk (cnt + 1 + of_nat i)) of
        None \<Rightarrow> []
      | Some d \<Rightarrow> [(fin d, dst)])"

text \<open>The contract of the queue the fragments go to.\<close>

locale fragment_sink =
  fixes fw :: Forwarder
    and enq :: "bytes \<Rightarrow> nat \<Rightarrow> Egress \<Rightarrow> Egress option"
    and dst :: udp_addr
  assumes enq: "fstate_ok fw s \<Longrightarrow>
     \<exists>x. onEgress (enq d b) s = Some (s\<lparr>s_egr := x\<rparr>) \<and> fstate_ok fw (s\<lparr>s_egr := x\<rparr>) \<and>
         adds [(d, dst)] s (s\<lparr>s_egr := x\<rparr>)"
begin

lemma step_effect:
  assumes ok: "fstate_ok fw s" and frag: "0 < fw_fragDataSize fw"
    and fin: "\<And>d. fin d = Some (fin' d)"
    and cnt: "counterOf (s_chains s) (chain_key ip g sub) = cnt + of_nat i"
  shows "\<exists>ch x. fragStep L ip g sub mk fin enq i s = Some (s\<lparr>s_chains := ch, s_egr := x\<rparr>) \<and>
     fstate_ok fw (s\<lparr>s_chains := ch, s_egr := x\<rparr>) \<and>
     counterOf ch = (counterOf (s_chains s))(chain_key ip g sub := cnt + of_nat (Suc i)) \<and>
     adds (fragOut L fw mk fin' dst (seqhash_Hash L ip g sub) cnt i) s (s\<lparr>s_chains := ch, s_egr := x\<rparr>)"
proof -
  have wf: "chains_wf (s_chains s)" using ok by (simp add: fstate_ok_def)
  define ch where "ch = snd (reserveFirst (chain_key ip g sub) 1 (s_chains s))"
  have ch: "chains_wf ch" "counterOf ch = (counterOf (s_chains s))(chain_key ip g sub := cnt + of_nat (Suc i))"
    using reserve_wf [OF wf] reserve_counter(2) [OF wf, of "chain_key ip g sub" 1] cnt
    by (auto simp: ch_def add_ac)
  let ?s = "s\<lparr>s_chains := ch\<rparr>" and ?hk = "seqhash_Hash L ip g sub"
  let ?h = "mk i ?hk (cnt + 1 + of_nat i)" and ?sz = "HeaderSizeV3 + fw_fragDataSize fw"
  have ok1: "fstate_ok fw ?s" using ok ch(1) by (simp add: fstate_ok_def)
  have eq: "fragStep L ip g sub mk fin enq i s =
      onEgress (\<lambda>e. do { (b, e1) \<leftarrow> PoolGet e; sz \<leftarrow> e_poolSize e;
                 case frame_EncodeFragment L sz ?h of
                   None \<Rightarrow> Some (poolPut b e1) | Some d \<Rightarrow> enq (fin' d) b e1 }) ?s"
    using cnt fin by (simp add: fragStep_def nextSeq_eq [OF wf] ch_def add_ac cong: option.case_cong)
  show ?thesis
  proof (cases "s_egr s")
    case None
    then show ?thesis using ok1 ch(2) unfolding eq
      by (intro exI [of _ ch] exI [of _ None]) (simp add: onEgress_def adds_def fstate_ok_def)
  next
    case (Some e)
    have e: "e_poolSize e = Some ?sz" "egress_wf (dst_of fw) e" "sender_ok e" "\<forall>c. e_coal e = Some c \<longrightarrow> coal_wf c"
      using ok Some frag by (simp_all add: fstate_ok_def egr_ok_def)
    obtain b p n where pg: "PoolGet e = Some (b, e\<lparr>e_pool := p, e_poolNext := n\<rparr>)"
    proof (cases "e_pool e")
      case Nil
      then have "PoolGet e = Some (e_poolNext e, e\<lparr>e_pool := [], e_poolNext := Suc (e_poolNext e)\<rparr>)"
        using e(1) by (cases e) (simp add: PoolGet_def)
      then show ?thesis by (rule that)
    next
      case (Cons b bs)
      then have "PoolGet e = Some (b, e\<lparr>e_pool := bs, e_poolNext := e_poolNext e\<rparr>)"
        using e(1) by (simp add: PoolGet_def)
      then show ?thesis by (rule that)
    qed
    let ?e1 = "e\<lparr>e_pool := p, e_poolNext := n\<rparr>"
    have keep: "egr_ok fw (Some (e\<lparr>e_pool := q, e_poolNext := n\<rparr>))"
      "egr_ok fw (Some (e\<lparr>e_poolNext := n, e_pool := q\<rparr>))" for q
      using e frag by (simp_all add: egr_ok_def egress_wf_def)
    show ?thesis
    proof (cases "frame_EncodeFragment L ?sz ?h")
      case None
      then show ?thesis unfolding eq using Some pg e ok1 keep(2) [of "b # p"] ch
        by (intro exI [of _ ch] exI [of _ "Some (poolPut b ?e1)"])
          (simp add: onEgress_def poolPut_def fstate_ok_def adds_def egr_adds_def fragOut_def)
    next
      case enc: (Some d)
      let ?s1 = "?s\<lparr>s_egr := Some ?e1\<rparr>"
      have ok2: "fstate_ok fw ?s1" using ok1 keep(1) [of p] by (simp add: fstate_ok_def)
      obtain x where x: "onEgress (enq (fin' d) b) ?s1 = Some (?s1\<lparr>s_egr := x\<rparr>)"
        "fstate_ok fw (?s1\<lparr>s_egr := x\<rparr>)" "adds [(fin' d, dst)] ?s1 (?s1\<lparr>s_egr := x\<rparr>)"
        using enq [OF ok2] by blast
      have "fragStep L ip g sub mk fin enq i s = onEgress (enq (fin' d) b) ?s1"
        unfolding eq using Some pg e enc by (simp add: onEgress_def)
      moreover have "adds [(fin' d, dst)] s (s\<lparr>s_chains := ch, s_egr := x\<rparr>)"
        using x(3) Some by (simp add: adds_def egr_adds_def)
      ultimately show ?thesis using x enc ch(2)
        by (intro exI [of _ ch] exI [of _ x]) (simp add: fragOut_def)
    qed
  qed
qed

lemma loop_effect:
  assumes "fstate_ok fw s" and "0 < fw_fragDataSize fw" and "\<And>d. fin d = Some (fin' d)"
  shows "\<exists>ch x. fragLoop L ip g sub mk fin enq k s = Some (s\<lparr>s_chains := ch, s_egr := x\<rparr>) \<and>
     fstate_ok fw (s\<lparr>s_chains := ch, s_egr := x\<rparr>) \<and>
     counterOf ch = (counterOf (s_chains s))
       (chain_key ip g sub := counterOf (s_chains s) (chain_key ip g sub) + of_nat k) \<and>
     adds (concat (map (fragOut L fw mk fin' dst (seqhash_Hash L ip g sub)
             (counterOf (s_chains s) (chain_key ip g sub))) [0..<k])) s (s\<lparr>s_chains := ch, s_egr := x\<rparr>)"
proof (induction k)
  case 0
  have "s\<lparr>s_chains := s_chains s, s_egr := s_egr s\<rparr> = s" by simp
  then show ?case using assms(1)
    by (intro exI [of _ "s_chains s"] exI [of _ "s_egr s"]) (simp add: fragLoop_def adds_none)
next
  case (Suc k)
  let ?c = "counterOf (s_chains s) (chain_key ip g sub)"
  obtain ch x where IH: "fragLoop L ip g sub mk fin enq k s = Some (s\<lparr>s_chains := ch, s_egr := x\<rparr>)"
     "fstate_ok fw (s\<lparr>s_chains := ch, s_egr := x\<rparr>)"
     "counterOf ch = (counterOf (s_chains s))(chain_key ip g sub := ?c + of_nat k)"
     "adds (concat (map (fragOut L fw mk fin' dst (seqhash_Hash L ip g sub) ?c) [0..<k])) s
        (s\<lparr>s_chains := ch, s_egr := x\<rparr>)"
    using Suc by blast
  let ?s = "s\<lparr>s_chains := ch, s_egr := x\<rparr>"
  have cnt: "counterOf (s_chains ?s) (chain_key ip g sub) = ?c + of_nat k" using IH(3) by simp
  obtain ch' x' where st: "fragStep L ip g sub mk fin enq k ?s = Some (?s\<lparr>s_chains := ch', s_egr := x'\<rparr>)"
    "fstate_ok fw (?s\<lparr>s_chains := ch', s_egr := x'\<rparr>)"
    "counterOf ch' = (counterOf (s_chains ?s))(chain_key ip g sub := ?c + of_nat (Suc k))"
    "adds (fragOut L fw mk fin' dst (seqhash_Hash L ip g sub) ?c k) ?s (?s\<lparr>s_chains := ch', s_egr := x'\<rparr>)"
    using step_effect [where fin = fin and fin' = fin' and mk = mk and L = L, OF IH(2) assms(2,3) cnt]
    by blast
  have same: "?s\<lparr>s_chains := ch', s_egr := x'\<rparr> = s\<lparr>s_chains := ch', s_egr := x'\<rparr>" by simp
  have "fragLoop L ip g sub mk fin enq (Suc k) s = Some (s\<lparr>s_chains := ch', s_egr := x'\<rparr>)"
    using IH(1) st(1) by (simp add: fragLoop_def fold_opt_snoc)
  moreover have "counterOf ch' = (counterOf (s_chains s))(chain_key ip g sub := ?c + of_nat (Suc k))"
    using st(3) IH(3) by simp
  ultimately show ?case
    using st(2) adds_trans [OF IH(4) st(4)] unfolding same
    by (intro exI [of _ ch'] exI [of _ x']) simp
qed

lemma counted_effect:
  assumes ok: "fstate_ok fw s" and frag: "0 < fw_fragDataSize fw" and fin: "\<And>d. fin d = Some (fin' d)"
    and k: "k = fragCount (fw_fragDataSize fw) payload" "k \<le> 65535"
  shows "\<exists>s'. withFragCount fw payload w (\<lambda>k. fragLoop L ip g sub (mk k) fin enq k) s = Some s' \<and>
     fstate_ok fw s' \<and>
     counterOf (s_chains s') = (counterOf (s_chains s))
       (chain_key ip g sub := counterOf (s_chains s) (chain_key ip g sub) + of_nat k) \<and>
     adds (concat (map (fragOut L fw (mk k) fin' dst (seqhash_Hash L ip g sub)
             (counterOf (s_chains s) (chain_key ip g sub))) [0..<k])) s s'"
proof -
  let ?s1 = "emit fw (FrameFragmented w k) s"
  have ok1: "fstate_ok fw ?s1" using ok by simp
  obtain ch x where l: "fragLoop L ip g sub (mk k) fin enq k ?s1 = Some (?s1\<lparr>s_chains := ch, s_egr := x\<rparr>)"
    "fstate_ok fw (?s1\<lparr>s_chains := ch, s_egr := x\<rparr>)"
    "counterOf ch = (counterOf (s_chains ?s1))(chain_key ip g sub := counterOf (s_chains ?s1) (chain_key ip g sub) + of_nat k)"
    "adds (concat (map (fragOut L fw (mk k) fin' dst (seqhash_Hash L ip g sub)
             (counterOf (s_chains ?s1) (chain_key ip g sub))) [0..<k])) ?s1 (?s1\<lparr>s_chains := ch, s_egr := x\<rparr>)"
    using loop_effect [where fin = fin and fin' = fin', OF ok1 frag fin] by blast
  have "withFragCount fw payload w (\<lambda>k. fragLoop L ip g sub (mk k) fin enq k) s =
      Some (?s1\<lparr>s_chains := ch, s_egr := x\<rparr>)"
    using frag k l(1) by (simp add: withFragCount_def)
  then show ?thesis using l(2,3) adds_left [OF l(4), of s] by (auto simp: frame_simps)
qed

end

interpretation data_sink: fragment_sink fw "\<lambda>d b. EnqueueDataPooled d (dst_of fw g) g w b" "dst_of fw g"
  for fw g w
proof
  fix s d and b :: nat
  assume "fstate_ok fw s"
  then show "\<exists>x. onEgress (EnqueueDataPooled d (dst_of fw g) g w b) s = Some (s\<lparr>s_egr := x\<rparr>) \<and>
      fstate_ok fw (s\<lparr>s_egr := x\<rparr>) \<and> adds [(d, dst_of fw g)] s (s\<lparr>s_egr := x\<rparr>)"
    using enqueue_ok [of fw s "\<lparr>mm_group = g, mm_size = length d, mm_worker = w,
       mm_label = '''', mm_teeable = True\<rparr>" "dst_of fw g" d "Some b"]
    by (simp add: EnqueueDataPooled_def [abs_def])
qed

lemma control_sink_ok:
  assumes "fstate_ok fw s" "label \<noteq> ''''"
  shows "\<exists>x. onEgress (EnqueueCacheablePooled d dst label w b) s = Some (s\<lparr>s_egr := x\<rparr>) \<and>
      fstate_ok fw (s\<lparr>s_egr := x\<rparr>) \<and> adds [(d, dst)] s (s\<lparr>s_egr := x\<rparr>)"
  using enqueue_ok [OF assms(1), of "\<lparr>mm_group = 0, mm_size = length d, mm_worker = w,
       mm_label = label, mm_teeable = True\<rparr>" dst d "Some b"] assms(2)
  by (simp add: EnqueueCacheablePooled_def [abs_def])

interpretation block_sink: fragment_sink fw "\<lambda>d b. EnqueueCacheablePooled d dst ''block_control'' w b" dst
  for fw dst w
  by unfold_locales (simp add: control_sink_ok)

interpretation subtree_sink: fragment_sink fw "\<lambda>d b. EnqueueCacheablePooled d dst ''subtree_data'' w b" dst
  for fw dst w
  by unfold_locales (simp add: control_sink_ok)

subsection \<open>Total handlers\<close>

text \<open>What the handlers rely on in the decoders: a decoded frame carries the header
  fields the proxy stamps, and the subtree payload header reaches past its count.\<close>

definition lib_ok :: "lib \<Rightarrow> bool" where
  "lib_ok L \<longleftrightarrow>
     (\<forall>raw f. frame_Decode L raw = Some f \<longrightarrow> f_version f = FrameVerV2 \<longrightarrow> 56 \<le> length raw) \<and>
     (\<forall>raw bf. frame_DecodeBlock L raw = Some bf \<longrightarrow> 56 \<le> length raw) \<and>
     (\<forall>raw f. frame_DecodeAnchor L raw = Some f \<longrightarrow> 56 \<le> length raw) \<and>
     (\<forall>raw sf. frame_DecodeSubtreeData L raw = Some sf \<longrightarrow> 56 \<le> length raw) \<and>
     (\<forall>raw bf. frame_DecodeBEEF L raw = Some bf \<longrightarrow> 56 \<le> length raw) \<and>
     24 \<le> frame_SubtreeHdr L"

definition handler_total :: "Forwarder \<Rightarrow> (fstate \<Rightarrow> fstate option) \<Rightarrow> bool" where
  "handler_total fw h \<longleftrightarrow> (\<forall>s. fstate_ok fw s \<longrightarrow> (\<exists>s'. h s = Some s' \<and> fstate_ok fw s'))"

lemma handler_totalI [intro?]:
  "(\<And>s. fstate_ok fw s \<Longrightarrow> \<exists>s'. h s = Some s' \<and> fstate_ok fw s') \<Longrightarrow> handler_total fw h"
  by (simp add: handler_total_def)

lemma handler_totalD: "handler_total fw h \<Longrightarrow> fstate_ok fw s \<Longrightarrow> \<exists>s'. h s = Some s' \<and> fstate_ok fw s'"
  by (simp add: handler_total_def)

end
