(* ===== verification/Sample.thy ===== *)
theory Sample
  imports Forwarder
begin

text \<open>
  A concrete library and forwarder, at which the properties of the handlers are evaluated:
  decoders that read the fields at the offsets the proxy stamps, an encoder that prepends a
  blank header, and a forwarder with one egress interface.  They stand for no code.
\<close>

definition sampleDecode :: "bytes \<Rightarrow> Frame option" where
  "sampleDecode raw =
     (if length raw < 92 then None
      else Some \<lparr>f_version = raw ! 6, f_txid = take 32 (drop 8 raw), f_seq = seq_of raw,
                 f_sub = take 32 (drop 56 raw), f_payload = drop 92 raw\<rparr>)"

definition sampleEncode :: "nat \<Rightarrow> fragment_hdr \<Rightarrow> bytes option" where
  "sampleEncode sz h =
     (if HeaderSizeV3 + length (fr_data h) \<le> sz then Some (zeros HeaderSizeV3 @ fr_data h) else None)"

definition sampleLib :: lib where
  "sampleLib =
     \<lparr>seqhash_Hash = (\<lambda>ip g sub. 7), frame_Decode = sampleDecode,
      frame_DecodeBlock = (\<lambda>raw. if length raw < 92 then None
        else Some \<lparr>bl_msgType = raw ! 7, bl_contentID = take 32 (drop 8 raw), bl_payload = drop 92 raw\<rparr>),
      frame_DecodeAnchor = sampleDecode,
      frame_DecodeSubtreeData = (\<lambda>raw. if length raw < 92 then None
        else Some \<lparr>sd_msgType = raw ! 7, sd_subtreeID = take 32 (drop 8 raw), sd_payload = drop 92 raw\<rparr>),
      frame_DecodeBEEF = (\<lambda>raw. if length raw < 92 then None
        else Some \<lparr>bf_contentID = take 32 (drop 8 raw), bf_topicID = take 32 (drop 56 raw),
                   bf_deliver = raw ! 7, bf_payload = drop 92 raw\<rparr>),
      frame_EncodeFragment = sampleEncode, frame_SubtreeHdr = 48,
      objfmt_TxSize = (\<lambda>p. Some (length p)), objfmt_IsEF = (\<lambda>p. True),
      objfmt_TxID = (\<lambda>p. Some (zeros 32)),
      objfmt_MulticastBytes = (\<lambda>c p. Some (zeros 6 @ [2] @ zeros 85 @ p)),
      objfmt_DecodeBEEFRecord = (\<lambda>r. Some ([''a''], r, length r)),
      objfmt_IsBEEFObject = (\<lambda>p. True), objfmt_BEEFMulticastRecord = (\<lambda>r n. Some (replicate 92 1 @ r)),
      objfmt_SplitBEEFPayload = (\<lambda>p. Some (p, [])), objfmt_TopicID = (\<lambda>t. replicate 32 1),
      objfmt_ContentID = (\<lambda>p. replicate 32 1), pow_CheckHeader = (\<lambda>h fl. False),
      pow_CompactToTarget = unat, bundle_MemberOverhead = (\<lambda>c. if c then 34 else 2),
      bundle_Encode = (\<lambda>b. Some (zeros 66 @ concat (map mb_tx (bu_members b)))),
      shard_GroupAddr = (\<lambda>p i g. replicate 16 255), group_String = (\<lambda>g. ''group''),
      net_ParseHost = (\<lambda>t. []), addr_String = (\<lambda>a. ''peer'')\<rparr>"

definition sampleEngine :: engine where
  "sampleEngine = \<lparr>eng_bits = 1, eng_group = (\<lambda>txid. 1),
     eng_addr = (\<lambda>g port. \<lparr>ua_ip = replicate 16 255, ua_port = port, ua_zone = ''''\<rparr>)\<rparr>"

definition sampleFw :: Forwarder where
  "sampleFw = New sampleEngine 0xFF05 0x000B 9001 False True"

definition sampleState :: "Forwarder \<Rightarrow> fstate" where
  "sampleState fw = (newState 0 1 concat)\<lparr>s_egr := Some (NewEgress (fw_fragDataSize fw)
     (fw_coalesce fw) (fw_coalesceMaxMembers fw) [''eth0''] 64 True)\<rparr>"

definition sampleTx :: bytes where
  "sampleTx = zeros 6 @ [2] @ zeros 85 @ [1, 2, 3, 4, 5]"

definition sampleSrc :: net_addr where
  "sampleSrc = UDPAddr (replicate 16 9) 5000"

lemma sample_lib_ok: "lib_ok sampleLib"
  by (auto simp: lib_ok_def sampleLib_def sampleDecode_def split: if_splits)

lemma newState_ok: "(\<And>cs. sched cs \<in> interleavings cs) \<Longrightarrow> fstate_ok fw (newState now p sched)"
  by (auto simp: fstate_ok_def newState_def addrs_ok_def egr_ok_def)

lemma started_ok:
  "fstate_ok fw s \<Longrightarrow>
   fstate_ok fw (s\<lparr>s_egr := Some (NewEgress (fw_fragDataSize fw) c mm ts h r)\<rparr>)"
  using egress_wf_new [of "dst_of fw" "fw_fragDataSize fw" c mm ts h r]
  by (auto simp: fstate_ok_def egr_ok_def NewEgress_def newCoalBuffer_wf sender_ok_def)

lemma sample_state_ok: "fstate_ok fw (sampleState fw)"
  unfolding sampleState_def by (intro started_ok newState_ok concat_interleaving)

lemma sample_tx_decoded:
  "frame_Decode sampleLib sampleTx =
     Some \<lparr>f_version = 2, f_txid = zeros 32, f_seq = 0, f_sub = zeros 32, f_payload = [1, 2, 3, 4, 5]\<rparr>"
  by (simp add: sampleLib_def sampleDecode_def sampleTx_def nth_append seq_of_def hdr_seq_def)

lemmas sample_defs = sampleFw_def New_def sampleLib_def sampleEngine_def

end
