(* ===== verification/Handlers.thy ===== *)
theory Handlers
  imports Sample
begin

text \<open>
  \<^verbatim>\<open>forwarder/forwarder.go\<close>: the frame handlers \<^verbatim>\<open>process\<close>, \<^verbatim>\<open>ProcessBlock\<close>, \<^verbatim>\<open>ProcessAnchor\<close>,
  \<^verbatim>\<open>ProcessSubtreeData\<close> and \<^verbatim>\<open>ForwardControl\<close>: the admission gates, the dedup claim, and what is
  queued.  Every handler is total on the invariant of the shared state.
\<close>

subsection \<open>Transactions\<close>

text \<open>The gates of \<^verbatim>\<open>process\<close>, in order, with the drop reason of the first that fails.\<close>

definition processGate :: "lib \<Rightarrow> Forwarder \<Rightarrow> bool \<Rightarrow> Frame \<Rightarrow> string option" where
  "processGate L fw verify f =
     (if \<not> fw_allowStampedIngress fw \<and> f_version f = FrameVerV2 \<and> f_seq f \<noteq> 0
      then Some ''stamped_ingress''
      else if fw_requireEF fw \<and> (f_version f = FrameVerV1 \<or> \<not> objfmt_IsEF L (f_payload f))
      then Some ''ingress_not_ef''
      else if verify \<and> f_version f = FrameVerV2 \<and> objfmt_TxSize L (f_payload f) \<noteq> Some (length (f_payload f))
      then Some ''payload_not_one_tx''
      else if verify \<and> f_version f = FrameVerV2 \<and> objfmt_TxID L (f_payload f) \<noteq> Some (f_txid f)
      then Some ''payload_hash_mismatch''
      else None)"

text \<open>The end of \<^verbatim>\<open>process\<close>: enqueue to the group, and to the successor's group while a
  bridging engine is published.\<close>

definition emitTx :: "Forwarder \<Rightarrow> bytes \<Rightarrow> bytes \<Rightarrow> u32 \<Rightarrow> int \<Rightarrow> fstate \<Rightarrow> fstate option" where
  "emitTx fw raw txid groupIdx workerID s =
     (if s_egr s = None then Some s
      else
        case addrFor fw groupIdx s of (dst, s1) \<Rightarrow>
          do { s2 \<leftarrow> onEgress (EnqueueData raw dst groupIdx workerID) s1;
               case s_bridging s2 of
                 None \<Rightarrow> Some s2
               | Some bs \<Rightarrow>
                   let bridgeIdx = eng_group (br_secondary bs) txid
                   in if bridgeIdx \<noteq> groupIdx then
                        (case addrFor fw bridgeIdx s2 of (bridgeDst, s3) \<Rightarrow>
                           onEgress (EnqueueData raw bridgeDst bridgeIdx workerID) s3)
                      else Some s2 })"

text \<open>Whether a transaction goes into the coalescing buffer.\<close>

definition coalesces :: "lib \<Rightarrow> Forwarder \<Rightarrow> Frame \<Rightarrow> fstate \<Rightarrow> bool" where
  "coalesces L fw f s \<longleftrightarrow>
     fw_coalesce fw \<and> (case s_egr s of None \<Rightarrow> False | Some e \<Rightarrow> e_coal e \<noteq> None) \<and>
     s_bridging s = None \<and>
     int (BundleHeaderSize + bundle_MemberOverhead L (fw_coalesceCarryTxid fw) + length (f_payload f))
       \<le> fw_coalesceBudget fw"

definition coalesceTx :: "bytes \<Rightarrow> u32 \<Rightarrow> Frame \<Rightarrow> Egress \<Rightarrow> Egress option" where
  "coalesceTx ip groupIdx f e =
     do { c \<leftarrow> e_coal e;
          Some (e\<lparr>e_coal := Some (coalBuffer_add ip groupIdx (f_sub f) (f_txid f) (f_payload f) c)\<rparr>) }"

definition forwardTx :: "lib \<Rightarrow> Forwarder \<Rightarrow> bytes \<Rightarrow> Frame \<Rightarrow> net_addr option \<Rightarrow> int \<Rightarrow> fstate \<Rightarrow> fstate option" where
  "forwardTx L fw raw f src workerID s =
     (let groupIdx = eng_group (fw_engine fw) (f_txid f) in
      case (f_version f = FrameVerV2, src) of
        (True, Some a) \<Rightarrow>
          let ip = addrToIPv6 a in
          if fw_fragDataSize fw > 0 \<and> length (f_payload f) > fw_fragDataSize fw
          then fragment L fw f ip groupIdx workerID s
          else if coalesces L fw f s then onEgress (coalesceTx ip groupIdx f) s
          else do { (raw', s1) \<leftarrow> stamp L fw raw ip groupIdx (f_sub f) s;
                    emitTx fw raw' (f_txid f) groupIdx workerID s1 }
      | _ \<Rightarrow> emitTx fw raw (f_txid f) groupIdx workerID s)"

definition process ::
  "lib \<Rightarrow> Forwarder \<Rightarrow> bytes \<Rightarrow> net_addr option \<Rightarrow> int \<Rightarrow> bool \<Rightarrow> fstate \<Rightarrow> fstate option" where
  "process L fw raw src workerID verify s =
     (case frame_Decode L raw of
        None \<Rightarrow> Some (droppedDecode fw workerID s)
      | Some f \<Rightarrow>
          (case processGate L fw verify f of
             Some reason \<Rightarrow> Some (dropped fw workerID reason s)
           | None \<Rightarrow>
               if f_version f = FrameVerV2 then
                 (case claimIngress fw (f_txid f) ''brc124'' (egrIface (s_egr s)) workerID s of
                    (ok, s1) \<Rightarrow> if ok then forwardTx L fw raw f src workerID s1 else Some s1)
               else forwardTx L fw raw f src workerID s))"

definition Process :: "lib \<Rightarrow> Forwarder \<Rightarrow> bytes \<Rightarrow> net_addr option \<Rightarrow> int \<Rightarrow> fstate \<Rightarrow> fstate option" where
  "Process L fw raw src workerID s = process L fw raw src workerID (fw_verifyPayloadHash fw) s"


subsection \<open>Block, anchor and subtree frames\<close>

definition ProcessBlock :: "lib \<Rightarrow> Forwarder \<Rightarrow> bytes \<Rightarrow> net_addr option \<Rightarrow> int \<Rightarrow> fstate \<Rightarrow> fstate option" where
  "ProcessBlock L fw raw src workerID s =
     (case frame_DecodeBlock L raw of
        None \<Rightarrow> Some (droppedDecode fw workerID s)
      | Some bf \<Rightarrow>
          if fw_requireBlockPoW fw \<and> bl_msgType bf = BlockMsgAnnounce \<and>
             (length (bl_payload bf) < PowHeaderSize \<or>
              \<not> pow_CheckHeader L (take PowHeaderSize (bl_payload bf)) (fw_powFloor fw))
          then Some (emit fw BlockPoWRejected s)
          else
            case claimIngress fw (bl_contentID bf) ''brc131'' (egrIface (s_egr s)) workerID s of
              (False, s1) \<Rightarrow> Some s1
            | (True, s1) \<Rightarrow>
                let addr = controlAddr L fw GroupBlockBroadcast (fw_egressPort fw) in
                (case src of
                   Some a \<Rightarrow>
                     let ip = addrToIPv6 a;
                         ctrlIdx = (if bl_msgType bf = BlockMsgCoinbase then GroupCoinbaseFlow
                                    else GroupBlockBroadcast)
                     in if fw_fragDataSize fw > 0 \<and> length (bl_payload bf) > fw_fragDataSize fw
                        then fragmentBlock L fw raw bf ip ctrlIdx workerID s1
                        else do { (raw', s2) \<leftarrow> stamp L fw raw ip ctrlIdx zero32 s1;
                                  onEgress (EnqueueCacheable raw' addr ''block_control'' workerID) s2 }
                 | None \<Rightarrow> onEgress (EnqueueCacheable raw addr ''block_control'' workerID) s1))"

definition ProcessAnchor :: "lib \<Rightarrow> Forwarder \<Rightarrow> bytes \<Rightarrow> net_addr option \<Rightarrow> int \<Rightarrow> fstate \<Rightarrow> fstate option" where
  "ProcessAnchor L fw raw src workerID s =
     (case frame_DecodeAnchor L raw of
        None \<Rightarrow> Some (droppedDecode fw workerID s)
      | Some f \<Rightarrow>
          case claimIngress fw (f_txid f) ''brc134'' (egrIface (s_egr s)) workerID s of
            (False, s1) \<Rightarrow> Some s1
          | (True, s1) \<Rightarrow>
              let addr = controlAddr L fw GroupBlockBroadcast (fw_egressPort fw) in
              (case src of
                 Some a \<Rightarrow>
                   do { (raw', s2) \<leftarrow> stamp L fw raw (addrToIPv6 a) GroupAnchorFlow zero32 s1;
                        onEgress (EnqueueCacheable raw' addr ''anchor'' workerID) s2 }
               | None \<Rightarrow> onEgress (EnqueueCacheable raw addr ''anchor'' workerID) s1))"

definition ProcessSubtreeData :: "lib \<Rightarrow> Forwarder \<Rightarrow> bytes \<Rightarrow> net_addr option \<Rightarrow> int \<Rightarrow> fstate \<Rightarrow> fstate option" where
  "ProcessSubtreeData L fw raw src workerID s =
     (case frame_DecodeSubtreeData L raw of
        None \<Rightarrow> Some (droppedDecode fw workerID s)
      | Some sf \<Rightarrow>
          do { verdict \<leftarrow> (if fw_verifySubtreeRoot fw
                           then verifySubtreePayload (frame_SubtreeHdr L) (s_procs s) (s_sched s)
                                  (sd_subtreeID sf) (sd_msgType sf) (sd_payload sf)
                           else Some None);
               case verdict of
                 Some err \<Rightarrow>
                   Some (emit fw (SubtreeRootCheck
                           (if err = errSubtreeMalformed then ''malformed'' else ''mismatch'')) s)
               | None \<Rightarrow>
                   let s0 = (if fw_verifySubtreeRoot fw then emit fw (SubtreeRootCheck ''ok'') s else s) in
                   (case claimIngress fw (sd_subtreeID sf) ''brc132'' (egrIface (s_egr s0)) workerID s0 of
                      (False, s1) \<Rightarrow> Some s1
                    | (True, s1) \<Rightarrow>
                        let addr = controlAddr L fw GroupSubtreeDataAnnounce (fw_egressPort fw) in
                        (case src of
                           Some a \<Rightarrow>
                             if fw_fragDataSize fw > 0 \<and> length (sd_payload sf) > fw_fragDataSize fw
                             then fragmentSubtreeData L fw raw sf (addrToIPv6 a) GroupSubtreeDataAnnounce workerID s1
                             else do { (raw', s2) \<leftarrow> stamp L fw raw (addrToIPv6 a) GroupSubtreeDataAnnounce
                                                     (sd_subtreeID sf) s1;
                                       onEgress (EnqueueCacheable raw' addr ''subtree_data'' workerID) s2 }
                         | None \<Rightarrow> onEgress (EnqueueCacheable raw addr ''subtree_data'' workerID) s1)) })"

definition ForwardControl :: "lib \<Rightarrow> Forwarder \<Rightarrow> bytes \<Rightarrow> u32 \<Rightarrow> int \<Rightarrow> fstate \<Rightarrow> fstate option" where
  "ForwardControl L fw raw idx port s =
     onEgress (EnqueueControl raw (controlAddr L fw idx port) (group_String L idx) 0) s"


subsection \<open>What the transaction path does\<close>

text \<open>The second copy of a frame while a bridging engine is published.\<close>

definition bridgeOut :: "Forwarder \<Rightarrow> fstate \<Rightarrow> bytes \<Rightarrow> bytes \<Rightarrow> u32 \<Rightarrow> (bytes \<times> udp_addr) list" where
  "bridgeOut fw s raw txid g =
     (case s_bridging s of
        None \<Rightarrow> []
      | Some bs \<Rightarrow>
          let h = eng_group (br_secondary bs) txid in if h \<noteq> g then [(raw, dst_of fw h)] else [])"

lemma emitOne_effect:
  assumes ok: "fstate_ok fw s"
  shows "\<exists>as x. (case addrFor fw g s of (dst, s1) \<Rightarrow> onEgress (EnqueueData raw dst g w) s1) =
            Some (s\<lparr>s_addrs := as, s_egr := x\<rparr>) \<and>
     fstate_ok fw (s\<lparr>s_addrs := as, s_egr := x\<rparr>) \<and>
     adds [(raw, dst_of fw g)] s (s\<lparr>s_addrs := as, s_egr := x\<rparr>)"
proof -
  obtain as where a: "addrFor fw g s = (dst_of fw g, s\<lparr>s_addrs := as\<rparr>)" "fstate_ok fw (s\<lparr>s_addrs := as\<rparr>)"
    using addrFor_ok [OF ok] by blast
  obtain x where "onEgress (EnqueueData raw (dst_of fw g) g w) (s\<lparr>s_addrs := as\<rparr>) =
      Some (s\<lparr>s_addrs := as, s_egr := x\<rparr>)" "fstate_ok fw (s\<lparr>s_addrs := as, s_egr := x\<rparr>)"
    "adds [(raw, dst_of fw g)] (s\<lparr>s_addrs := as\<rparr>) (s\<lparr>s_addrs := as, s_egr := x\<rparr>)"
    using EnqueueData_ok [OF a(2), of raw g w] by blast
  then show ?thesis using a(1) adds_left [of "[(raw, dst_of fw g)]" "s\<lparr>s_addrs := as\<rparr>" _ s]
    by (intro exI [of _ as] exI [of _ x]) simp
qed

lemma emitTx_effect:
  assumes ok: "fstate_ok fw s"
  shows "\<exists>as x. emitTx fw raw txid g w s = Some (s\<lparr>s_addrs := as, s_egr := x\<rparr>) \<and>
     fstate_ok fw (s\<lparr>s_addrs := as, s_egr := x\<rparr>) \<and>
     adds ((raw, dst_of fw g) # bridgeOut fw s raw txid g) s (s\<lparr>s_addrs := as, s_egr := x\<rparr>)"
proof (cases "s_egr s = None")
  case True
  then show ?thesis using ok
    by (intro exI [of _ "s_addrs s"] exI [of _ None]) (simp add: emitTx_def adds_def fstate_ok_def)
next
  case False
  obtain as x where one: "(case addrFor fw g s of (dst, s1) \<Rightarrow> onEgress (EnqueueData raw dst g w) s1) =
      Some (s\<lparr>s_addrs := as, s_egr := x\<rparr>)" "fstate_ok fw (s\<lparr>s_addrs := as, s_egr := x\<rparr>)"
     "adds [(raw, dst_of fw g)] s (s\<lparr>s_addrs := as, s_egr := x\<rparr>)"
    using emitOne_effect [OF ok] by blast
  let ?s = "s\<lparr>s_addrs := as, s_egr := x\<rparr>"
  have eq: "emitTx fw raw txid g w s =
      (case s_bridging s of
         None \<Rightarrow> Some ?s
       | Some bs \<Rightarrow>
           let h = eng_group (br_secondary bs) txid
           in if h \<noteq> g then (case addrFor fw h ?s of (d, s3) \<Rightarrow> onEgress (EnqueueData raw d h w) s3)
              else Some ?s)"
    using False one(1) by (simp add: emitTx_def split: prod.splits)
  show ?thesis
  proof (cases "bridgeOut fw s raw txid g = []")
    case True
    then have "emitTx fw raw txid g w s = Some ?s"
      unfolding eq by (simp add: bridgeOut_def Let_def split: option.splits if_splits)
    then show ?thesis using one True by (intro exI [of _ as] exI [of _ x]) simp
  next
    case False
    then obtain bs where bs: "s_bridging s = Some bs" "eng_group (br_secondary bs) txid \<noteq> g"
      by (auto simp: bridgeOut_def Let_def split: option.splits if_splits)
    let ?h = "eng_group (br_secondary bs) txid"
    obtain as' x' where two: "(case addrFor fw ?h ?s of (d, s3) \<Rightarrow> onEgress (EnqueueData raw d ?h w) s3) =
        Some (?s\<lparr>s_addrs := as', s_egr := x'\<rparr>)" "fstate_ok fw (?s\<lparr>s_addrs := as', s_egr := x'\<rparr>)"
       "adds [(raw, dst_of fw ?h)] ?s (?s\<lparr>s_addrs := as', s_egr := x'\<rparr>)"
      using emitOne_effect [OF one(2)] by blast
    have same: "?s\<lparr>s_addrs := as', s_egr := x'\<rparr> = s\<lparr>s_addrs := as', s_egr := x'\<rparr>" by simp
    have out: "bridgeOut fw s raw txid g = [(raw, dst_of fw ?h)]" using bs by (simp add: bridgeOut_def)
    have "emitTx fw raw txid g w s = Some (s\<lparr>s_addrs := as', s_egr := x'\<rparr>)"
      unfolding eq using bs two(1) unfolding same by simp
    then show ?thesis using two(2) adds_trans [OF one(3) two(3)] unfolding same out
      by (intro exI [of _ as'] exI [of _ x']) simp
  qed
qed

text \<open>The fragments of a transaction, with the flow's counter at \<open>cnt\<close>.\<close>

definition txFragments :: "lib \<Rightarrow> Forwarder \<Rightarrow> Frame \<Rightarrow> bytes \<Rightarrow> u32 \<Rightarrow> u64 \<Rightarrow> (bytes \<times> udp_addr) list" where
  "txFragments L fw f ip g cnt =
     (let k = fragCount (fw_fragDataSize fw) (f_payload f) in
      concat (map (fragOut L fw (fragHdr (f_txid f) (f_sub f) 0 (fw_fragDataSize fw) (f_payload f) k)
                     (\<lambda>d. d) (dst_of fw g) (seqhash_Hash L ip g (f_sub f)) cnt) [0..<k]))"

lemma fragment_effect:
  assumes ok: "fstate_ok fw s" and frag: "0 < fw_fragDataSize fw"
    and k: "fragCount (fw_fragDataSize fw) (f_payload f) \<le> 65535"
  shows "\<exists>s'. fragment L fw f ip g w s = Some s' \<and> fstate_ok fw s' \<and>
     counterOf (s_chains s') = (counterOf (s_chains s))(chain_key ip g (f_sub f) :=
       counterOf (s_chains s) (chain_key ip g (f_sub f)) +
         of_nat (fragCount (fw_fragDataSize fw) (f_payload f))) \<and>
     adds (txFragments L fw f ip g (counterOf (s_chains s) (chain_key ip g (f_sub f)))) s s'"
proof -
  let ?k = "fragCount (fw_fragDataSize fw) (f_payload f)"
  let ?s1 = "emit fw (FrameFragmented w ?k) s"
  obtain as where a: "addrFor fw g ?s1 = (dst_of fw g, ?s1\<lparr>s_addrs := as\<rparr>)" "fstate_ok fw (?s1\<lparr>s_addrs := as\<rparr>)"
    using addrFor_ok [of fw ?s1 g] ok by auto
  let ?s2 = "?s1\<lparr>s_addrs := as\<rparr>"
  obtain ch x where l: "fragLoop L ip g (f_sub f)
        (fragHdr (f_txid f) (f_sub f) 0 (fw_fragDataSize fw) (f_payload f) ?k) Some
        (\<lambda>d b. EnqueueDataPooled d (dst_of fw g) g w b) ?k ?s2 = Some (?s2\<lparr>s_chains := ch, s_egr := x\<rparr>)"
     "fstate_ok fw (?s2\<lparr>s_chains := ch, s_egr := x\<rparr>)"
     "counterOf ch = (counterOf (s_chains ?s2))(chain_key ip g (f_sub f) :=
        counterOf (s_chains ?s2) (chain_key ip g (f_sub f)) + of_nat ?k)"
     "adds (concat (map (fragOut L fw (fragHdr (f_txid f) (f_sub f) 0 (fw_fragDataSize fw) (f_payload f) ?k)
         (\<lambda>d. d) (dst_of fw g) (seqhash_Hash L ip g (f_sub f))
         (counterOf (s_chains ?s2) (chain_key ip g (f_sub f)))) [0..<?k])) ?s2 (?s2\<lparr>s_chains := ch, s_egr := x\<rparr>)"
    using data_sink.loop_effect [where fin = Some and fin' = "\<lambda>d. d", OF a(2) frag refl] by blast
  have "fragment L fw f ip g w s = Some (?s2\<lparr>s_chains := ch, s_egr := x\<rparr>)"
    using frag k a(1) l(1) by (simp add: fragment_def withFragCount_def)
  moreover have "adds (txFragments L fw f ip g (counterOf (s_chains s) (chain_key ip g (f_sub f)))) s
      (?s2\<lparr>s_chains := ch, s_egr := x\<rparr>)"
    using adds_left [OF l(4), of s] by (simp add: txFragments_def Let_def frame_simps)
  ultimately show ?thesis using l(2,3) by (auto simp: frame_simps)
qed

lemma fragment_overflow:
  assumes "0 < fw_fragDataSize fw" "fragCount (fw_fragDataSize fw) (f_payload f) > 65535"
  shows "fragment L fw f ip g w s = Some (emit fw (PacketDropped '''' w ''frag_overflow'') s)"
  using assms by (simp add: fragment_def withFragCount_def)

lemma coalesceTx_effect:
  assumes "fstate_ok fw s" "coalesces L fw f s"
  shows "\<exists>e c. s_egr s = Some e \<and> e_coal e = Some c \<and>
     onEgress (coalesceTx ip g f) s =
       Some (s\<lparr>s_egr := Some (e\<lparr>e_coal := Some (coalBuffer_add ip g (f_sub f) (f_txid f) (f_payload f) c)\<rparr>)\<rparr>) \<and>
     fstate_ok fw (s\<lparr>s_egr := Some (e\<lparr>e_coal := Some (coalBuffer_add ip g (f_sub f) (f_txid f) (f_payload f) c)\<rparr>)\<rparr>)"
proof -
  obtain e c where e: "s_egr s = Some e" "e_coal e = Some c"
    using assms(2) by (auto simp: coalesces_def split: option.splits)
  moreover have "egr_ok fw (Some (e\<lparr>e_coal := Some (coalBuffer_add ip g (f_sub f) (f_txid f) (f_payload f) c)\<rparr>))"
    using assms(1) e by (simp add: fstate_ok_def egr_ok_def egress_wf_def coalBuffer_add_wf)
  ultimately show ?thesis using assms(1)
    by (intro exI [of _ e] exI [of _ c]) (simp add: onEgress_def coalesceTx_def fstate_ok_def)
qed


subsection \<open>The handlers never panic\<close>

lemma EnqueueCacheable_total:
  "fstate_ok fw s \<Longrightarrow> label \<noteq> '''' \<Longrightarrow>
   \<exists>s'. onEgress (EnqueueCacheable raw dst label w) s = Some s' \<and> fstate_ok fw s'"
  using EnqueueCacheable_ok by blast

lemma stamped_enqueue_total:
  assumes ok: "fstate_ok fw s" and len: "56 \<le> length raw" and lab: "label \<noteq> ''''"
  shows "\<exists>s'. (do { (raw', s2) \<leftarrow> stamp L fw raw ip g sub s;
                   onEgress (EnqueueCacheable raw' dst label w) s2 }) = Some s' \<and> fstate_ok fw s'"
proof -
  obtain raw' ch where st: "stamp L fw raw ip g sub s = Some (raw', s\<lparr>s_chains := ch\<rparr>)"
    "fstate_ok fw (s\<lparr>s_chains := ch\<rparr>)"
    using stamp_effect [OF ok len, of L ip g sub] by blast
  show ?thesis using st EnqueueCacheable_ok [OF st(2) lab, of raw' dst w] by auto
qed

lemma fragment_total: "0 < fw_fragDataSize fw \<Longrightarrow> handler_total fw (fragment L fw f ip g w)"
  by (rule handler_totalI, cases "fragCount (fw_fragDataSize fw) (f_payload f) \<le> 65535")
    (use fragment_effect fragment_overflow emit_ok in \<open>fastforce simp: not_le\<close>)+

lemma withFragCount_overflow:
  assumes "0 < fw_fragDataSize fw" "fragCount (fw_fragDataSize fw) payload > 65535"
  shows "withFragCount fw payload w loop s = Some (emit fw (PacketDropped '''' w ''frag_overflow'') s)"
  using assms by (simp add: withFragCount_def)

lemma setByte7_eq: "8 \<le> length raw \<Longrightarrow> setByte7 raw d = Some (d[7 := raw ! 7])"
  by (simp add: setByte7_def index_ok)

lemma controlFragments_total:
  assumes frag: "0 < fw_fragDataSize fw" and len: "8 \<le> length raw"
  shows "handler_total fw (fragmentBlock L fw raw bf ip g w)"
    and "handler_total fw (fragmentSubtreeData L fw raw sf ip g w)"
proof -
  note b7 = setByte7_eq [OF len]
  show "handler_total fw (fragmentBlock L fw raw bf ip g w)"
  proof (rule handler_totalI)
    fix s assume ok: "fstate_ok fw s"
    show "\<exists>s'. fragmentBlock L fw raw bf ip g w s = Some s' \<and> fstate_ok fw s'"
    proof (cases "fragCount (fw_fragDataSize fw) (bl_payload bf) \<le> 65535")
      case True
      show ?thesis unfolding fragmentBlock_def Let_def
        using block_sink.counted_effect [where fin = "setByte7 raw", OF ok frag b7 refl True] by blast
    qed (use ok frag in \<open>simp add: fragmentBlock_def withFragCount_overflow\<close>)
  qed
  show "handler_total fw (fragmentSubtreeData L fw raw sf ip g w)"
  proof (rule handler_totalI)
    fix s assume ok: "fstate_ok fw s"
    show "\<exists>s'. fragmentSubtreeData L fw raw sf ip g w s = Some s' \<and> fstate_ok fw s'"
    proof (cases "fragCount (fw_fragDataSize fw) (sd_payload sf) \<le> 65535")
      case True
      show ?thesis unfolding fragmentSubtreeData_def Let_def
        using subtree_sink.counted_effect [where fin = "setByte7 raw", OF ok frag b7 refl True] by blast
    qed (use ok frag in \<open>simp add: fragmentSubtreeData_def withFragCount_overflow\<close>)
  qed
qed

lemma forwardTx_total:
  assumes "f_version f = FrameVerV2 \<Longrightarrow> 56 \<le> length raw"
  shows "handler_total fw (forwardTx L fw raw f src w)"
proof
  fix s assume ok: "fstate_ok fw s"
  let ?g = "eng_group (fw_engine fw) (f_txid f)"
  have emit: "\<exists>s'. emitTx fw r (f_txid f) ?g w t = Some s' \<and> fstate_ok fw s'" if "fstate_ok fw t" for r t
    using emitTx_effect [OF that] by blast
  show "\<exists>s'. forwardTx L fw raw f src w s = Some s' \<and> fstate_ok fw s'"
  proof (cases "f_version f = FrameVerV2 \<and> src \<noteq> None")
    case False
    then have "forwardTx L fw raw f src w s = emitTx fw raw (f_txid f) ?g w s"
      by (auto simp: forwardTx_def Let_def split: option.splits bool.splits)
    then show ?thesis using emit [OF ok] by simp
  next
    case True
    then obtain a where a: "src = Some a" by auto
    let ?ip = "addrToIPv6 a"
    obtain raw' ch where st: "stamp L fw raw ?ip ?g (f_sub f) s = Some (raw', s\<lparr>s_chains := ch\<rparr>)"
      "fstate_ok fw (s\<lparr>s_chains := ch\<rparr>)"
      using stamp_effect [OF ok assms, of L ?ip ?g "f_sub f"] True by blast
    show ?thesis
      using True a st emit [OF st(2)] coalesceTx_effect [OF ok, of L f ?ip ?g]
        handler_totalD [OF fragment_total ok]
      by (auto simp: forwardTx_def Let_def)
  qed
qed

lemma process_total:
  assumes "lib_ok L" shows "handler_total fw (process L fw raw src w verify)"
proof
  fix s assume ok: "fstate_ok fw s"
  show "\<exists>s'. process L fw raw src w verify s = Some s' \<and> fstate_ok fw s'"
  proof (cases "frame_Decode L raw")
    case None
    then show ?thesis using ok by (simp add: process_def)
  next
    case (Some f)
    have t: "handler_total fw (forwardTx L fw raw f src w)"
      using assms Some by (intro forwardTx_total) (simp add: lib_ok_def)
    obtain b s1 where c: "claimIngress fw (f_txid f) ''brc124'' (egrIface (s_egr s)) w s = (b, s1)" by fastforce
    have "fstate_ok fw s1" using claimIngress_ok [OF c] ok by simp
    then show ?thesis
      using Some ok c handler_totalD [OF t ok] handler_totalD [OF t, of s1]
      by (auto simp: process_def split: option.splits)
  qed
qed

lemma ProcessBlock_total:
  assumes "lib_ok L" shows "handler_total fw (ProcessBlock L fw raw src w)"
proof
  fix s assume ok: "fstate_ok fw s"
  show "\<exists>s'. ProcessBlock L fw raw src w s = Some s' \<and> fstate_ok fw s'"
  proof (cases "frame_DecodeBlock L raw")
    case None
    then show ?thesis using ok by (simp add: ProcessBlock_def)
  next
    case (Some bf)
    have len: "56 \<le> length raw" using assms Some by (auto simp: lib_ok_def)
    obtain b s1 where c: "claimIngress fw (bl_contentID bf) ''brc131'' (egrIface (s_egr s)) w s = (b, s1)"
      by fastforce
    have ok1: "fstate_ok fw s1" using claimIngress_ok [OF c] ok by simp
    show ?thesis
      using Some ok c len ok1 stamped_enqueue_total [OF ok1 len, of "''block_control''"]
        EnqueueCacheable_total [OF ok1, of "''block_control''"]
        handler_totalD [OF controlFragments_total(1) [where raw = raw], OF _ _ ok1]
      by (auto simp: ProcessBlock_def Let_def split: option.splits bool.splits)
  qed
qed

lemma ProcessAnchor_total:
  assumes "lib_ok L" shows "handler_total fw (ProcessAnchor L fw raw src w)"
proof
  fix s assume ok: "fstate_ok fw s"
  show "\<exists>s'. ProcessAnchor L fw raw src w s = Some s' \<and> fstate_ok fw s'"
  proof (cases "frame_DecodeAnchor L raw")
    case None
    then show ?thesis using ok by (simp add: ProcessAnchor_def)
  next
    case (Some f)
    have len: "56 \<le> length raw" using assms Some by (auto simp: lib_ok_def)
    obtain b s1 where c: "claimIngress fw (f_txid f) ''brc134'' (egrIface (s_egr s)) w s = (b, s1)" by fastforce
    have ok1: "fstate_ok fw s1" using claimIngress_ok [OF c] ok by simp
    show ?thesis
      using Some ok c ok1 stamped_enqueue_total [OF ok1 len, of "''anchor''"]
        EnqueueCacheable_total [OF ok1, of "''anchor''"]
      by (auto simp: ProcessAnchor_def Let_def split: option.splits bool.splits)
  qed
qed


lemma ProcessSubtreeData_total:
  assumes "lib_ok L" shows "handler_total fw (ProcessSubtreeData L fw raw src w)"
proof
  fix s assume ok: "fstate_ok fw s"
  show "\<exists>s'. ProcessSubtreeData L fw raw src w s = Some s' \<and> fstate_ok fw s'"
  proof (cases "frame_DecodeSubtreeData L raw")
    case None
    then show ?thesis using ok by (simp add: ProcessSubtreeData_def)
  next
    case (Some sf)
    have len: "56 \<le> length raw" and hdr: "24 \<le> frame_SubtreeHdr L"
      using assms Some by (auto simp: lib_ok_def)
    have "\<exists>v. verifySubtreePayload (frame_SubtreeHdr L) (s_procs s) (s_sched s) (sd_subtreeID sf)
        (sd_msgType sf) (sd_payload sf) = Some v"
      using verifySubtreePayload_cases [OF hdr, of "s_sched s"] ok by (simp add: fstate_ok_def)
    then obtain v where v: "(if fw_verifySubtreeRoot fw
        then verifySubtreePayload (frame_SubtreeHdr L) (s_procs s) (s_sched s)
               (sd_subtreeID sf) (sd_msgType sf) (sd_payload sf)
        else Some None) = Some v" by (cases "fw_verifySubtreeRoot fw") auto
    let ?s0 = "if fw_verifySubtreeRoot fw then emit fw (SubtreeRootCheck ''ok'') s else s"
    obtain b s1 where c: "claimIngress fw (sd_subtreeID sf) ''brc132'' (egrIface (s_egr ?s0)) w ?s0 = (b, s1)"
      by fastforce
    have ok1: "fstate_ok fw s1" using claimIngress_ok [OF c] ok by simp
    show ?thesis
      using Some ok v c len ok1 stamped_enqueue_total [OF ok1 len, of "''subtree_data''"]
        EnqueueCacheable_total [OF ok1, of "''subtree_data''"]
        handler_totalD [OF controlFragments_total(2) [where raw = raw], OF _ _ ok1]
      by (cases v; cases b; cases src) (simp_all add: ProcessSubtreeData_def Let_def)
  qed
qed

lemma ForwardControl_total:
  assumes "group_String L idx \<noteq> ''''"
  shows "handler_total fw (ForwardControl L fw raw idx port)"
proof (rule handler_totalI)
  fix s assume "fstate_ok fw s"
  then show "\<exists>s'. ForwardControl L fw raw idx port s = Some s' \<and> fstate_ok fw s'"
    using enqueue_ok [of fw s "\<lparr>mm_group = 0, mm_size = length raw, mm_worker = 0,
       mm_label = group_String L idx, mm_teeable = False\<rparr>" "controlAddr L fw idx port" raw None] assms
    by (auto simp: ForwardControl_def EnqueueControl_def [abs_def])
qed

subsection \<open>Fragments and payloads\<close>

lemma fragData_eq: "fragData n p i = take n (drop (i * n) p)"
  by (auto simp: fragData_def min_def)

lemma fragData_concat_take: "concat (map (fragData n p) [0..<k]) = take (k * n) p"
proof (induction k)
  case (Suc k)
  have "take (Suc k * n) p = take (k * n) p @ take n (drop (k * n) p)"
    by (simp only: mult_Suc add.commute [of n] take_add)
  then show ?case using Suc by (simp add: fragData_eq)
qed simp

lemma fragCount_covers: "0 < n \<Longrightarrow> length p \<le> fragCount n p * n"
proof -
  assume n: "0 < n"
  have "length p + n - 1 = (length p + n - 1) div n * n + (length p + n - 1) mod n" by simp
  moreover have "(length p + n - 1) mod n < n" using n by simp
  ultimately show ?thesis unfolding fragCount_def using n by linarith
qed

lemma fragData_concat: "0 < n \<Longrightarrow> concat (map (fragData n p) [0..<fragCount n p]) = p"
  by (simp add: fragData_concat_take fragCount_covers)

lemma fragCount_index:
  assumes "i < fragCount n p" "0 < n" shows "i * n < length p"
proof -
  have "Suc i \<le> (length p + n - 1) div n" using assms by (simp add: fragCount_def)
  then have "Suc i * n \<le> length p + n - 1" using assms(2) by (simp add: less_eq_div_iff_mult_less_eq)
  then show ?thesis using assms(2) by simp
qed

lemma fragData_length:
  "i < fragCount n p \<Longrightarrow> 0 < n \<Longrightarrow> 0 < length (fragData n p i) \<and> length (fragData n p i) \<le> n"
  using fragCount_index [of i n p] by (simp add: fragData_eq)

lemma fragOut_encoded:
  assumes "\<And>h. length (fr_data h) \<le> fw_fragDataSize fw \<Longrightarrow>
      frame_EncodeFragment L (HeaderSizeV3 + fw_fragDataSize fw) h = Some (enc h)"
    and "0 < fw_fragDataSize fw" "k = fragCount (fw_fragDataSize fw) p"
  shows "concat (map (fragOut L fw (fragHdr t sb v (fw_fragDataSize fw) p k) fin dst hk cnt) [0..<k]) =
     map (\<lambda>i. (fin (enc (fragHdr t sb v (fw_fragDataSize fw) p k i hk (cnt + 1 + of_nat i))), dst)) [0..<k]"
proof -
  have "fragOut L fw (fragHdr t sb v (fw_fragDataSize fw) p k) fin dst hk cnt i =
      [(fin (enc (fragHdr t sb v (fw_fragDataSize fw) p k i hk (cnt + 1 + of_nat i))), dst)]" if "i < k" for i
    using fragData_length [of i "fw_fragDataSize fw" p] that assms(2,3)
    by (simp add: fragOut_def assms(1) fragHdr_def)
  then have "map (fragOut L fw (fragHdr t sb v (fw_fragDataSize fw) p k) fin dst hk cnt) [0..<k] =
      map (\<lambda>i. [(fin (enc (fragHdr t sb v (fw_fragDataSize fw) p k i hk (cnt + 1 + of_nat i))), dst)]) [0..<k]"
    by simp
  then show ?thesis by (simp only: concat_map_singleton)
qed


lemma stamped_enqueue_effect:
  assumes ok: "fstate_ok fw s1" and len: "56 \<le> length raw" and lab: "label \<noteq> ''''"
    and fr: "s_chains s1 = s_chains s" "s_egr s1 = s_egr s"
  shows "\<exists>s'. (do { (raw', s2) \<leftarrow> stamp L fw raw ip g sub s1;
                   onEgress (EnqueueCacheable raw' dst label w) s2 }) = Some s' \<and> fstate_ok fw s' \<and>
     adds [(stamped L fw raw ip g sub (counterOf (s_chains s) (chain_key ip g sub)), dst)] s s' \<and>
     counterOf (s_chains s') = (counterOf (s_chains s))(chain_key ip g sub :=
       counterOf (s_chains s) (chain_key ip g sub) + (if seq_of raw = 0 then 1 else 0))"
proof -
  let ?raw = "stamped L fw raw ip g sub (counterOf (s_chains s1) (chain_key ip g sub))"
  obtain ch where st: "stamp L fw raw ip g sub s1 = Some (?raw, s1\<lparr>s_chains := ch\<rparr>)"
    "fstate_ok fw (s1\<lparr>s_chains := ch\<rparr>)"
    "counterOf ch = (if seq_of raw = 0
       then (counterOf (s_chains s1))(chain_key ip g sub := counterOf (s_chains s1) (chain_key ip g sub) + 1)
       else counterOf (s_chains s1))"
    using stamp_effect [OF ok len, of L ip g sub] by blast
  obtain x where x: "onEgress (EnqueueCacheable ?raw dst label w) (s1\<lparr>s_chains := ch\<rparr>) =
      Some (s1\<lparr>s_chains := ch, s_egr := x\<rparr>)" "fstate_ok fw (s1\<lparr>s_chains := ch, s_egr := x\<rparr>)"
    "adds [(?raw, dst)] (s1\<lparr>s_chains := ch\<rparr>) (s1\<lparr>s_chains := ch, s_egr := x\<rparr>)"
    using EnqueueCacheable_ok [OF st(2) lab] by blast
  have "adds [(?raw, dst)] s (s1\<lparr>s_chains := ch, s_egr := x\<rparr>)"
    using adds_left [OF x(3), of s] fr(2) by simp
  then show ?thesis using st x(1,2) fr(1)
    by (intro exI [of _ "s1\<lparr>s_chains := ch, s_egr := x\<rparr>"]) simp
qed

subsection \<open>Properties\<close>

text \<open>C11.  A frame that an admission gate refuses leaves no trace but its counter: no dedup claim is
  made, no sequence number is taken and nothing is queued.  This holds for the four gates of
  the transaction path, for the proof-of-work gate of block announces and for the Merkle-root gate
  of subtree data, whatever the goroutine schedule of the hash workers.\<close>

theorem gates_precede_claim:
  assumes "24 \<le> frame_SubtreeHdr L" "\<And>cs. s_sched s cs \<in> interleavings cs"
  shows "(frame_Decode L raw = Some f \<longrightarrow> processGate L fw verify f = Some reason \<longrightarrow>
            process L fw raw src w verify s = Some (dropped fw w reason s)) \<and>
         (frame_DecodeBlock L raw = Some bf \<longrightarrow> fw_requireBlockPoW fw \<longrightarrow>
            bl_msgType bf = BlockMsgAnnounce \<longrightarrow>
            \<not> (PowHeaderSize \<le> length (bl_payload bf) \<and>
               pow_CheckHeader L (take PowHeaderSize (bl_payload bf)) (fw_powFloor fw)) \<longrightarrow>
            ProcessBlock L fw raw src w s = Some (emit fw BlockPoWRejected s)) \<and>
         (frame_DecodeSubtreeData L raw = Some sf \<longrightarrow> fw_verifySubtreeRoot fw \<longrightarrow>
            \<not> (payload_well_formed (frame_SubtreeHdr L) (sd_msgType sf) (sd_payload sf) \<and>
               merkle (nodes_of (drop (frame_SubtreeHdr L) (sd_payload sf)) (subtree_stride (sd_msgType sf))
                 (subtree_count (sd_payload sf))) = sd_subtreeID sf) \<longrightarrow>
            (\<exists>r. ProcessSubtreeData L fw raw src w s = Some (emit fw (SubtreeRootCheck r) s))) \<and>
         same_but_events s (dropped fw w reason s) \<and> same_but_events s (emit fw ev s)"
  using verifySubtreePayload_cases [OF assms, of "s_procs s" "sd_subtreeID sf" "sd_msgType sf" "sd_payload sf"]
  by (auto simp: process_def ProcessBlock_def ProcessSubtreeData_def)

theorem gates_precede_claim_witness:
  "process sampleLib (SetRequireEF True (SetAllowStampedIngress False sampleFw))
     (with_stamp 0 5 sampleTx) (Some sampleSrc) 0 True (sampleState sampleFw) =
   Some (dropped (SetRequireEF True (SetAllowStampedIngress False sampleFw)) 0 ''stamped_ingress''
     (sampleState sampleFw))"
proof -
  have d: "frame_Decode sampleLib (with_stamp 0 5 sampleTx) =
     Some \<lparr>f_version = 2, f_txid = zeros 32, f_seq = 5, f_sub = zeros 32, f_payload = [1, 2, 3, 4, 5]\<rparr>"
    by (simp add: sampleLib_def sampleDecode_def sampleTx_def)
      (simp add: with_stamp_def nth_append)
  have c: "24 \<le> frame_SubtreeHdr sampleLib" "\<And>cs. s_sched (sampleState sampleFw) cs \<in> interleavings cs"
    using sample_state_ok [of sampleFw] by (simp_all add: sampleLib_def fstate_ok_def)
  show ?thesis
    using gates_precede_claim [where L = sampleLib and raw = "with_stamp 0 5 sampleTx"
        and fw = "SetRequireEF True (SetAllowStampedIngress False sampleFw)" and verify = True
        and reason = "''stamped_ingress''" and src = "Some sampleSrc" and w = 0, OF c] d
    by (simp add: processGate_def SetRequireEF_def SetAllowStampedIngress_def FrameVerV2_def sampleFw_def New_def)
qed

text \<open>C2.  An admitted transaction that is neither fragmented nor coalesced is queued once on every
  target, stamped from its observed source, addressed to its shard group; while a bridging engine is
  published and maps it to another group, a second identical copy goes to that group.  Its flow's
  counter moves by one exactly when the frame came unstamped, and no other counter moves.\<close>

theorem process_forwards:
  assumes "lib_ok L" "fstate_ok fw s"
    and "frame_Decode L raw = Some f" "processGate L fw verify f = None" "f_version f = FrameVerV2"
    and "claimIngress fw (f_txid f) ''brc124'' (egrIface (s_egr s)) w s = (True, s1)"
    and "fw_fragDataSize fw = 0 \<or> length (f_payload f) \<le> fw_fragDataSize fw"
    and "\<not> coalesces L fw f s1"
    and "g = eng_group (fw_engine fw) (f_txid f)" "ip = addrToIPv6 a" "key = chain_key ip g (f_sub f)"
  shows "\<exists>s'. process L fw raw (Some a) w verify s = Some s' \<and> fstate_ok fw s' \<and>
     (let raw' = stamped L fw raw ip g (f_sub f) (counterOf (s_chains s) key) in
      adds ((raw', dst_of fw g) # bridgeOut fw s raw' (f_txid f) g) s s') \<and>
     counterOf (s_chains s') = (counterOf (s_chains s))
       (key := counterOf (s_chains s) key + (if seq_of raw = 0 then 1 else 0))"
proof -
  note fr = claimIngress_frame [OF assms(6)]
  have ok1: "fstate_ok fw s1" using claimIngress_ok [OF assms(6)] assms(2) by simp
  have len: "56 \<le> length raw" using assms(1,3,5) by (auto simp: lib_ok_def)
  let ?raw = "stamped L fw raw ip g (f_sub f) (counterOf (s_chains s1) key)"
  obtain ch where st: "stamp L fw raw ip g (f_sub f) s1 = Some (?raw, s1\<lparr>s_chains := ch\<rparr>)"
    "fstate_ok fw (s1\<lparr>s_chains := ch\<rparr>)"
    "counterOf ch = (if seq_of raw = 0 then (counterOf (s_chains s1))(key := counterOf (s_chains s1) key + 1)
                     else counterOf (s_chains s1))"
    using stamp_effect [OF ok1 len, of L ip g "f_sub f"] assms(11) by blast
  obtain as x where em: "emitTx fw ?raw (f_txid f) g w (s1\<lparr>s_chains := ch\<rparr>) =
      Some (s1\<lparr>s_chains := ch, s_addrs := as, s_egr := x\<rparr>)"
    "fstate_ok fw (s1\<lparr>s_chains := ch, s_addrs := as, s_egr := x\<rparr>)"
    "adds ((?raw, dst_of fw g) # bridgeOut fw (s1\<lparr>s_chains := ch\<rparr>) ?raw (f_txid f) g)
       (s1\<lparr>s_chains := ch\<rparr>) (s1\<lparr>s_chains := ch, s_addrs := as, s_egr := x\<rparr>)"
    using emitTx_effect [OF st(2)] by blast
  have run: "process L fw raw (Some a) w verify s = Some (s1\<lparr>s_chains := ch, s_addrs := as, s_egr := x\<rparr>)"
    using assms(3-10) st(1) em(1) by (auto simp: process_def forwardTx_def)
  have "adds ((?raw, dst_of fw g) # bridgeOut fw s ?raw (f_txid f) g) s
      (s1\<lparr>s_chains := ch, s_addrs := as, s_egr := x\<rparr>)"
    using adds_left [OF em(3), of s] fr by (simp add: bridgeOut_def)
  moreover have "counterOf ch = (counterOf (s_chains s))
      (key := counterOf (s_chains s) key + (if seq_of raw = 0 then 1 else 0))"
    using st(3) fr by simp
  ultimately show ?thesis using run em(2) fr(4) by simp
qed

theorem process_forwards_witness:
  "\<exists>s'. process sampleLib sampleFw sampleTx (Some sampleSrc) 0 False (sampleState sampleFw) = Some s' \<and>
     adds [(with_stamp 7 1 sampleTx, dst_of sampleFw 1)] (sampleState sampleFw) s'"
proof -
  have s: "s_bridging (sampleState sampleFw) = None" "s_chains (sampleState sampleFw) = emptyChains"
    by (simp_all add: sampleState_def newState_def)
  have q: "seq_of sampleTx = 0" by (simp add: sampleTx_def seq_of_def hdr_seq_def)
  have "\<exists>s'. process sampleLib sampleFw sampleTx (Some sampleSrc) 0 False (sampleState sampleFw) = Some s' \<and>
      fstate_ok sampleFw s' \<and>
      (let raw' = stamped sampleLib sampleFw sampleTx (addrToIPv6 sampleSrc) 1 (zeros 32)
         (counterOf (s_chains (sampleState sampleFw)) (chain_key (addrToIPv6 sampleSrc) 1 (zeros 32))) in
       adds ((raw', dst_of sampleFw 1) # bridgeOut sampleFw (sampleState sampleFw) raw' (zeros 32) 1)
         (sampleState sampleFw) s') \<and>
      counterOf (s_chains s') = (counterOf (s_chains (sampleState sampleFw)))
        (chain_key (addrToIPv6 sampleSrc) 1 (zeros 32) :=
           counterOf (s_chains (sampleState sampleFw)) (chain_key (addrToIPv6 sampleSrc) 1 (zeros 32)) +
             (if seq_of sampleTx = 0 then 1 else 0))"
    using process_forwards [where verify = False and a = sampleSrc and w = 0 and ?s1.0 = "sampleState sampleFw"
          and ip = "addrToIPv6 sampleSrc" and g = 1 and key = "chain_key (addrToIPv6 sampleSrc) 1 (zeros 32)"
          and fw = sampleFw, OF sample_lib_ok sample_state_ok sample_tx_decoded]
    by (simp add: processGate_def FrameVerV2_def claimIngress_def claimIngressIn_def coalesces_def sample_defs)
  then show ?thesis
    using q by (auto simp: Let_def s bridgeOut_def stamped_def sampleLib_def)
qed


text \<open>C3.  Fragmentation round trip.  With an encoder that accepts fragments up to the data size,
  an admitted transaction above the data size is queued as fragments whose data, in order, is exactly
  the payload.  Fragment \<open>i\<close> of \<open>k\<close> carries index \<open>i\<close>, total \<open>k\<close>, the frame's identifiers and
  the \<open>i\<close>-th of \<open>k\<close> consecutive numbers of its flow; every fragment is non-empty and
  within the data size.  The counter ends at the last number used.\<close>

theorem fragments_reassemble:
  assumes "fstate_ok fw s" "0 < fw_fragDataSize fw"
    and "\<And>h. length (fr_data h) \<le> fw_fragDataSize fw \<Longrightarrow>
           frame_EncodeFragment L (HeaderSizeV3 + fw_fragDataSize fw) h = Some (enc h)"
    and "k = fragCount (fw_fragDataSize fw) (f_payload f)" "k \<le> 65535"
    and "cnt = counterOf (s_chains s) (chain_key ip g (f_sub f))"
  shows "\<exists>s' hs. fragment L fw f ip g w s = Some s' \<and> fstate_ok fw s' \<and>
     adds (map (\<lambda>h. (enc h, dst_of fw g)) hs) s s' \<and>
     concat (map fr_data hs) = f_payload f \<and>
     map fr_seq hs = map (\<lambda>i. cnt + 1 + of_nat i) [0..<k] \<and>
     map (\<lambda>h. unat (fr_index h)) hs = [0..<k] \<and>
     list_all (\<lambda>h. fr_txid h = f_txid f \<and> fr_sub h = f_sub f \<and> unat (fr_total h) = k \<and>
       fr_hash h = seqhash_Hash L ip g (f_sub f) \<and>
       0 < length (fr_data h) \<and> length (fr_data h) \<le> fw_fragDataSize fw) hs \<and>
     counterOf (s_chains s') = (counterOf (s_chains s))(chain_key ip g (f_sub f) := cnt + of_nat k)"
proof -
  let ?H = "\<lambda>i. fragHdr (f_txid f) (f_sub f) 0 (fw_fragDataSize fw) (f_payload f) k i
               (seqhash_Hash L ip g (f_sub f)) (cnt + 1 + of_nat i)"
  let ?hs = "map ?H [0..<k]"
  obtain s' where s': "fragment L fw f ip g w s = Some s'" "fstate_ok fw s'"
    "counterOf (s_chains s') = (counterOf (s_chains s))(chain_key ip g (f_sub f) := cnt + of_nat k)"
    "adds (txFragments L fw f ip g cnt) s s'"
    using fragment_effect [OF assms(1,2), of f L ip g w] assms(4-6) by auto
  have out: "txFragments L fw f ip g cnt = map (\<lambda>h. (enc h, dst_of fw g)) ?hs"
    using fragOut_encoded [OF assms(3,2,4)] assms(4) by (simp add: txFragments_def Let_def o_def)
  have small: "unat (of_nat i :: u16) = i" if "i \<le> 65535" for i
    using that by (simp add: unat_of_nat take_bit_nat_eq_self)
  have "concat (map fr_data ?hs) = f_payload f"
    using fragData_concat [OF assms(2), of "f_payload f"] assms(4) by (simp add: fragHdr_def o_def)
  moreover have "map fr_seq ?hs = map (\<lambda>i. cnt + 1 + of_nat i) [0..<k]" by (simp add: fragHdr_def)
  moreover have "map (\<lambda>h. unat (fr_index h)) ?hs = [0..<k]"
    using assms(5) small by (intro nth_equalityI) (simp_all add: fragHdr_def)
  moreover have "list_all (\<lambda>h. fr_txid h = f_txid f \<and> fr_sub h = f_sub f \<and> unat (fr_total h) = k \<and>
       fr_hash h = seqhash_Hash L ip g (f_sub f) \<and>
       0 < length (fr_data h) \<and> length (fr_data h) \<le> fw_fragDataSize fw) ?hs"
    using fragData_length [OF _ assms(2), of _ "f_payload f"] assms(4) small [OF assms(5)]
    by (auto simp: list_all_iff fragHdr_def)
  ultimately show ?thesis using s' unfolding out by blast
qed

theorem fragments_reassemble_witness:
  "\<exists>s' (hs :: fragment_hdr list). fragment sampleLib (SetFragMTU 154 sampleFw)
       \<lparr>f_version = 2, f_txid = zeros 32, f_seq = 0, f_sub = zeros 32, f_payload = [1, 2, 3, 4, 5]\<rparr>
       (zeros 16) 1 0 (sampleState (SetFragMTU 154 sampleFw)) = Some s' \<and>
     concat (map fr_data hs) = [1, 2, 3, 4, 5] \<and> map fr_seq hs = [1, 2, 3] \<and>
     adds (map (\<lambda>h. (zeros HeaderSizeV3 @ fr_data h, dst_of (SetFragMTU 154 sampleFw) 1)) hs)
       (sampleState (SetFragMTU 154 sampleFw)) s'"
proof -
  let ?fw = "SetFragMTU 154 sampleFw"
  have d: "fw_fragDataSize ?fw = 2"
    by (simp add: SetFragMTU_def ipv6UDPOverhead_def ipv6UDPHeaderSize_def HeaderSizeV3_def)
  have e: "frame_EncodeFragment sampleLib (HeaderSizeV3 + fw_fragDataSize ?fw) h =
      Some (zeros HeaderSizeV3 @ fr_data h)" if "length (fr_data h) \<le> fw_fragDataSize ?fw" for h
    using that by (simp add: sampleLib_def sampleEncode_def)
  have c: "counterOf (s_chains (sampleState ?fw)) k = 0" for k
    by (simp add: sampleState_def newState_def)
  let ?f = "\<lparr>f_version = 2, f_txid = zeros 32, f_seq = 0, f_sub = zeros 32, f_payload = [1, 2, 3, 4, 5]\<rparr>"
  have pre: "0 < fw_fragDataSize ?fw" "3 = fragCount (fw_fragDataSize ?fw) (f_payload ?f)" "(3::nat) \<le> 65535"
    "0 = counterOf (s_chains (sampleState ?fw)) (chain_key (zeros 16) 1 (f_sub ?f))"
    by (simp_all add: c d fragCount_def)
  have q: "map (\<lambda>i. 0 + 1 + of_nat i :: u64) [0..<3] = [1, 2, 3]" by (simp add: eval_nat_numeral)
  obtain s' and hs :: "fragment_hdr list" where "fragment sampleLib ?fw ?f (zeros 16) 1 0 (sampleState ?fw) = Some s'"
    "adds (map (\<lambda>h. (zeros HeaderSizeV3 @ fr_data h, dst_of ?fw 1)) hs) (sampleState ?fw) s'"
    "concat (map fr_data hs) = f_payload ?f" "map fr_seq hs = map (\<lambda>i. 0 + 1 + of_nat i) [0..<3]"
    using fragments_reassemble [where enc = "\<lambda>h. zeros HeaderSizeV3 @ fr_data h" and L = sampleLib and w = 0,
        OF sample_state_ok pre(1) e pre(2-4)] by blast
  then show ?thesis unfolding q by (intro exI [of _ s'] exI [of _ hs]) simp
qed






text \<open>The group address cache is invisible: after any sequence of lookups the answer for a
  group is the address the shard engine computes, so the cache needs no invalidation.\<close>

lemma addrFor_is_uncached:
  assumes "fstate_ok fw s"
  shows "map_option fst (fold_opt (\<lambda>g (rs, t). case addrFor fw g t of (a, t') \<Rightarrow> Some (rs @ [a], t')) gs ([], s)) =
     Some (map (\<lambda>g. eng_addr (fw_engine fw) g (fw_egressPort fw)) gs)"
proof -
  have "\<exists>t'. fold_opt (\<lambda>g (rs, t). case addrFor fw g t of (a, t') \<Rightarrow> Some (rs @ [a], t')) gs (r, t) =
      Some (r @ map (dst_of fw) gs, t')" if "fstate_ok fw t" for r t
    using that
  proof (induction gs arbitrary: r t)
    case (Cons g gs)
    obtain as where a: "addrFor fw g t = (dst_of fw g, t\<lparr>s_addrs := as\<rparr>)" "fstate_ok fw (t\<lparr>s_addrs := as\<rparr>)"
      using addrFor_ok [OF Cons.prems] by blast
    then show ?case using Cons.IH [OF a(2), of "r @ [dst_of fw g]"] by simp
  qed simp
  then obtain t' where t': "fold_opt (\<lambda>g (rs, t). case addrFor fw g t of (a, t') \<Rightarrow> Some (rs @ [a], t')) gs ([], s) =
      Some ([] @ map (dst_of fw) gs, t')" using assms by blast
  show ?thesis unfolding t' by (simp add: dst_of_def)
qed

end
