(* ===== verification/Coalesce.thy ===== *)
theory Coalesce
  imports Handlers
begin

text \<open>
  \<^verbatim>\<open>forwarder/coalesce.go\<close>: the relay of ready-made bundles (\<^verbatim>\<open>ProcessBundle\<close>) and the packing of
  the transactions buffered in a receive batch into bundles (\<^verbatim>\<open>FlushCoalesced\<close>).  The packing
  loop of the source ends only when a bundle takes at least one member; it is a partial function, and
  it is proved to end for the limits \<^verbatim>\<open>newCoalBuffer\<close> produces.
\<close>

subsection \<open>Relay\<close>

definition ProcessBundle :: "Forwarder \<Rightarrow> bytes \<Rightarrow> int \<Rightarrow> fstate \<Rightarrow> fstate option" where
  "ProcessBundle fw raw workerID s =
     (if length raw < BundleHeaderSize then Some (dropped fw workerID ''bundle_short'' s)
      else
        do { magic \<leftarrow> gslice 0 4 raw \<bind> BE_Uint32;
             declared \<leftarrow> gslice 62 66 raw \<bind> BE_Uint32;
             if magic \<noteq> MagicBSV \<or> BundleHeaderSize + unat declared > length raw
             then Some (dropped fw workerID ''bundle_malformed'' s)
             else if s_egr s = None then Some s
             else
               do { g16 \<leftarrow> gslice 56 58 raw \<bind> BE_Uint16;
                    let grp = (ucast g16 :: u32);
                    cnt \<leftarrow> gslice 60 62 raw \<bind> BE_Uint16;
                    case addrFor fw grp s of (dst, s1) \<Rightarrow>
                      do { s2 \<leftarrow> onEgress (EnqueueData raw dst grp workerID) s1;
                           Some (emit fw (CoalesceFlushed (egrIface (s_egr s2)) workerID (unat cnt) ''relay'') s2) } } })"

subsection \<open>Packing\<close>

text \<open>The inner loop: take members while the limit and the byte budget allow; the first member
  is always taken.\<close>

fun packBundle ::
  "nat \<Rightarrow> int \<Rightarrow> nat \<Rightarrow> bundle_member list \<Rightarrow> nat \<Rightarrow> bundle_member list \<Rightarrow> bundle_member list \<times> bundle_member list"
  where
  "packBundle overhead maxBytes maxMembers acc sz [] = (acc, [])"
| "packBundle overhead maxBytes maxMembers acc sz (m # ms) =
     (if length acc < maxMembers then
        let add = overhead + length (mb_tx m)
        in if acc \<noteq> [] \<and> int (sz + add) > maxBytes then (acc, m # ms)
           else packBundle overhead maxBytes maxMembers (acc @ [m]) (sz + add) ms
      else (acc, m # ms))"

definition coalesceBodyBudget :: "Forwarder \<Rightarrow> int" where
  "coalesceBodyBudget fw =
     (if fw_coalesceBudget fw \<le> 0 then DefaultCoalesceMaxBytes - int ipv6UDPHeaderSize
      else fw_coalesceBudget fw)"

definition bundleOf :: "Forwarder \<Rightarrow> coalBucket \<Rightarrow> u64 \<Rightarrow> u64 \<Rightarrow> bundle_member list \<Rightarrow> Bundle" where
  "bundleOf fw bk hashKey seqNum ms =
     \<lparr>bu_group = ucast (cb_group bk), bu_shardBits = of_nat (eng_bits (fw_engine fw)),
      bu_subtree = cb_subtree bk, bu_txidsPresent = fw_coalesceCarryTxid fw,
      bu_hash = hashKey, bu_seq = seqNum, bu_members = ms\<rparr>"

text \<open>Stamp, encode and enqueue one bundle.\<close>

definition sendBundle ::
  "lib \<Rightarrow> Forwarder \<Rightarrow> coalBucket \<Rightarrow> udp_addr \<Rightarrow> int \<Rightarrow> bundle_member list \<Rightarrow> fstate \<Rightarrow> fstate option" where
  "sendBundle L fw bk dst workerID ms s =
     (case nextSeq (seqhash_Hash L) (cb_ip bk) (cb_group bk) (cb_subtree bk) (s_chains s) of
        ((hashKey, seqNum), ch) \<Rightarrow>
          let s1 = s\<lparr>s_chains := ch\<rparr>; iface = egrIface (s_egr s) in
          (case bundle_Encode L (bundleOf fw bk hashKey seqNum ms) of
             None \<Rightarrow> Some (emit fw (CoalesceFlushed iface workerID 0 ''encode_error'') s1)
           | Some raw \<Rightarrow>
               do { s2 \<leftarrow> onEgress (EnqueueData raw dst (cb_group bk) workerID) s1;
                    Some (emit fw (CoalesceFlushed iface workerID (length ms) ''batch'') s2) }))"

text \<open>The loop over one bucket's members.\<close>

partial_function (option) packBucket ::
  "lib \<Rightarrow> Forwarder \<Rightarrow> nat \<Rightarrow> coalBucket \<Rightarrow> udp_addr \<Rightarrow> int \<Rightarrow> bundle_member list \<Rightarrow> fstate \<Rightarrow> fstate option" where
  "packBucket L fw maxMembers bk dst workerID ms s =
     (if ms = [] then Some s
      else
        case packBundle (bundle_MemberOverhead L (fw_coalesceCarryTxid fw)) (coalesceBodyBudget fw)
               maxMembers [] BundleHeaderSize ms of
          (ps, rest) \<Rightarrow>
            do { s1 \<leftarrow> sendBundle L fw bk dst workerID ps s;
                 packBucket L fw maxMembers bk dst workerID rest s1 })"

definition flushBucket :: "lib \<Rightarrow> Forwarder \<Rightarrow> nat \<Rightarrow> int \<Rightarrow> coalBucket \<Rightarrow> fstate \<Rightarrow> fstate option" where
  "flushBucket L fw maxMembers workerID bk s =
     (case addrFor fw (cb_group bk) s of
        (dst, s1) \<Rightarrow> packBucket L fw maxMembers bk dst workerID (cb_members bk) s1)"

definition FlushCoalesced :: "lib \<Rightarrow> Forwarder \<Rightarrow> int \<Rightarrow> fstate \<Rightarrow> fstate option" where
  "FlushCoalesced L fw workerID s =
     (case s_egr s of
        None \<Rightarrow> Some s
      | Some e \<Rightarrow>
          (case e_coal e of
             None \<Rightarrow> Some s
           | Some c \<Rightarrow>
               if co_buckets c = [] then Some s
               else
                 do { s1 \<leftarrow> fold_opt (flushBucket L fw (co_max c) workerID) (co_buckets c) s;
                      onEgress (\<lambda>e. Some (e\<lparr>e_coal := map_option coalBuffer_reset (e_coal e)\<rparr>)) s1 }))"

subsection \<open>The reference packing\<close>

function packAll :: "nat \<Rightarrow> int \<Rightarrow> nat \<Rightarrow> bundle_member list \<Rightarrow> bundle_member list list" where
  "packAll overhead maxBytes maxMembers ms =
     (if ms = [] \<or> maxMembers = 0 then []
      else case packBundle overhead maxBytes maxMembers [] BundleHeaderSize ms of
             (ps, rest) \<Rightarrow> ps # packAll overhead maxBytes maxMembers rest)"
  by pat_completeness auto

lemma packBundle_split:
  "packBundle ov mb mm acc sz ms = (ps, rest) \<Longrightarrow> ps @ rest = acc @ ms"
  by (induction ov mb mm acc sz ms rule: packBundle.induct) (auto simp: Let_def split: if_splits)

lemma packBundle_grows:
  "packBundle ov mb mm acc sz ms = (ps, rest) \<Longrightarrow> length acc \<le> length ps"
  by (induction ov mb mm acc sz ms rule: packBundle.induct) (auto simp: Let_def split: if_splits)

lemma packBundle_progress:
  assumes "packBundle ov mb mm [] sz (m # ms) = (ps, rest)" "0 < mm"
  shows "ps \<noteq> []" "length rest < length (m # ms)"
proof -
  have "length [m] \<le> length ps"
    using assms packBundle_grows [of ov mb mm "[m]" "sz + (ov + length (mb_tx m))" ms ps rest]
    by (simp add: Let_def)
  then show "ps \<noteq> []" by auto
  then have "0 < length ps" by simp
  moreover have "length ps + length rest = length (m # ms)"
    using packBundle_split [OF assms(1)] by (metis append_Nil length_append)
  ultimately show "length rest < length (m # ms)" by linarith
qed

termination packAll
proof (relation "measure (\<lambda>(ov, mb, mm, ms). length ms)", goal_cases)
  case (2 ov mb mm ms ps rest)
  then show ?case
    using packBundle_progress(2) [of ov mb mm BundleHeaderSize "hd ms" "tl ms" ps rest] by simp
qed simp

declare packAll.simps [simp del]

text \<open>The body size of a bundle.\<close>

definition bodySize :: "nat \<Rightarrow> bundle_member list \<Rightarrow> nat" where
  "bodySize ov ms = BundleHeaderSize + sum_list (map (\<lambda>m. ov + length (mb_tx m)) ms)"

lemma packBundle_bounds:
  assumes "packBundle ov mb mm acc sz ms = (ps, rest)" "sz = bodySize ov acc" "length acc \<le> mm"
    and "int (bodySize ov acc) \<le> mb \<or> length acc \<le> 1" and "acc = [] \<longrightarrow> 0 < mm"
  shows "length ps \<le> mm \<and> (int (bodySize ov ps) \<le> mb \<or> length ps \<le> 1)"
  using assms
proof (induction ov mb mm acc sz ms arbitrary: rule: packBundle.induct)
  case (2 ov mb mm acc sz m ms)
  let ?add = "ov + length (mb_tx m)"
  show ?case
  proof (cases "length acc < mm \<and> \<not> (acc \<noteq> [] \<and> int (sz + ?add) > mb)")
    case True
    have "int (bodySize ov (acc @ [m])) \<le> mb \<or> length (acc @ [m]) \<le> 1"
      using True 2(3) by (auto simp: bodySize_def)
    moreover have "sz + ?add = bodySize ov (acc @ [m])" using 2(3) by (simp add: bodySize_def)
    moreover have "packBundle ov mb mm (acc @ [m]) (sz + ?add) ms = (ps, rest)"
      using 2(2) True by (auto simp: Let_def split: if_splits)
    ultimately show ?thesis using 2(1) [OF _ refl] True by auto
  next
    case False
    then show ?thesis using 2 by (auto simp: Let_def split: if_splits)
  qed
qed auto

lemma packAll_spec:
  assumes "0 < mm"
  shows "concat (packAll ov mb mm ms) = ms"
    and "b \<in> set (packAll ov mb mm ms) \<Longrightarrow>
           b \<noteq> [] \<and> length b \<le> mm \<and> (int (bodySize ov b) \<le> mb \<or> length b = 1)"
proof -
  have "concat (packAll ov mb mm ms) = ms \<and> (\<forall>b \<in> set (packAll ov mb mm ms).
      b \<noteq> [] \<and> length b \<le> mm \<and> (int (bodySize ov b) \<le> mb \<or> length b = 1))"
    using assms
  proof (induction ov mb mm ms rule: packAll.induct)
    case (1 ov mb mm ms)
    show ?case
    proof (cases ms)
      case (Cons m ms')
      obtain ps rest where pk: "packBundle ov mb mm [] BundleHeaderSize ms = (ps, rest)" by fastforce
      have ne: "ps \<noteq> []" using packBundle_progress(1) pk 1(2) unfolding Cons by blast
      have bd: "length ps \<le> mm \<and> (int (bodySize ov ps) \<le> mb \<or> length ps \<le> 1)"
        using packBundle_bounds [OF pk] 1(2) by (simp add: bodySize_def)
      then have "length ps \<le> mm \<and> (int (bodySize ov ps) \<le> mb \<or> length ps = 1)"
        using ne by (cases ps) auto
      moreover have "packAll ov mb mm ms = ps # packAll ov mb mm rest"
        using pk 1(2) Cons by (subst packAll.simps) simp
      moreover have "ps @ rest = ms" using packBundle_split [OF pk] by simp
      ultimately show ?thesis using ne 1(1) [OF _ pk [symmetric] 1(2)] 1(2) Cons by auto
    qed (subst packAll.simps, simp)+
  qed
  then show "concat (packAll ov mb mm ms) = ms"
    and "b \<in> set (packAll ov mb mm ms) \<Longrightarrow>
           b \<noteq> [] \<and> length b \<le> mm \<and> (int (bodySize ov b) \<le> mb \<or> length b = 1)"
    by blast+
qed


subsection \<open>What a flush of the buffer does\<close>

text \<open>The datagrams of a bucket's bundles, with the flow's counter at \<open>cnt\<close>.\<close>

definition bundleOut ::
  "lib \<Rightarrow> Forwarder \<Rightarrow> coalBucket \<Rightarrow> u64 \<Rightarrow> bundle_member list \<Rightarrow> (bytes \<times> udp_addr) list" where
  "bundleOut L fw bk q ms =
     (case bundle_Encode L (bundleOf fw bk (seqhash_Hash L (cb_ip bk) (cb_group bk) (cb_subtree bk)) q ms) of
        None \<Rightarrow> []
      | Some raw \<Rightarrow> [(raw, dst_of fw (cb_group bk))])"

fun bundlesOut ::
  "lib \<Rightarrow> Forwarder \<Rightarrow> coalBucket \<Rightarrow> u64 \<Rightarrow> bundle_member list list \<Rightarrow> (bytes \<times> udp_addr) list" where
  "bundlesOut L fw bk cnt [] = []"
| "bundlesOut L fw bk cnt (ms # mss) = bundleOut L fw bk (cnt + 1) ms @ bundlesOut L fw bk (cnt + 1) mss"

lemma sendBundle_effect:
  assumes ok: "fstate_ok fw s"
  shows "\<exists>s'. sendBundle L fw bk (dst_of fw (cb_group bk)) w ms s = Some s' \<and> fstate_ok fw s' \<and>
     counterOf (s_chains s') = (counterOf (s_chains s))
       (bucket_key bk := counterOf (s_chains s) (bucket_key bk) + 1) \<and>
     adds (bundleOut L fw bk (counterOf (s_chains s) (bucket_key bk) + 1) ms) s s'"
proof -
  have wf: "chains_wf (s_chains s)" using ok by (simp add: fstate_ok_def)
  define ch where "ch = snd (reserveFirst (bucket_key bk) 1 (s_chains s))"
  have ch: "chains_wf ch" "counterOf ch = (counterOf (s_chains s))
       (bucket_key bk := counterOf (s_chains s) (bucket_key bk) + 1)"
    using reserve_wf [OF wf] reserve_counter(2) [OF wf, of "bucket_key bk" 1] by (auto simp: ch_def)
  have ok1: "fstate_ok fw (s\<lparr>s_chains := ch\<rparr>)" using ok ch(1) by (simp add: fstate_ok_def)
  let ?q = "counterOf (s_chains s) (bucket_key bk) + 1"
  let ?b = "bundleOf fw bk (seqhash_Hash L (cb_ip bk) (cb_group bk) (cb_subtree bk)) ?q ms"
  have nx: "nextSeq (seqhash_Hash L) (cb_ip bk) (cb_group bk) (cb_subtree bk) (s_chains s) =
      ((seqhash_Hash L (cb_ip bk) (cb_group bk) (cb_subtree bk), ?q), ch)"
    using nextSeq_eq [OF wf] by (simp add: ch_def)
  show ?thesis
  proof (cases "bundle_Encode L ?b")
    case None
    then show ?thesis using ok1 ch nx
      by (auto simp: sendBundle_def bundleOut_def frame_simps intro!: adds_none)
  next
    case (Some raw)
    obtain x where x: "onEgress (EnqueueData raw (dst_of fw (cb_group bk)) (cb_group bk) w) (s\<lparr>s_chains := ch\<rparr>) =
        Some (s\<lparr>s_chains := ch, s_egr := x\<rparr>)" "fstate_ok fw (s\<lparr>s_chains := ch, s_egr := x\<rparr>)"
      "adds [(raw, dst_of fw (cb_group bk))] (s\<lparr>s_chains := ch\<rparr>) (s\<lparr>s_chains := ch, s_egr := x\<rparr>)"
      using EnqueueData_ok [OF ok1] by blast
    let ?s' = "emit fw (CoalesceFlushed (egrIface (s_egr s)) w (length ms) ''batch'') (s\<lparr>s_chains := ch, s_egr := x\<rparr>)"
    have "adds [(raw, dst_of fw (cb_group bk))] s ?s'"
      using adds_right [OF adds_left [OF x(3), of s], of ?s'] by (simp add: frame_simps)
    then show ?thesis using Some nx x ch(2)
      by (intro exI [of _ ?s']) (simp add: sendBundle_def bundleOut_def frame_simps)
  qed
qed

lemma packBucket_effect:
  assumes "0 < mm" "fstate_ok fw s"
  shows "\<exists>s'. packBucket L fw mm bk (dst_of fw (cb_group bk)) w ms s = Some s' \<and> fstate_ok fw s' \<and>
     (\<exists>n. counterOf (s_chains s') = (counterOf (s_chains s))
       (bucket_key bk := counterOf (s_chains s) (bucket_key bk) + n)) \<and>
     adds (bundlesOut L fw bk (counterOf (s_chains s) (bucket_key bk))
       (packAll (bundle_MemberOverhead L (fw_coalesceCarryTxid fw)) (coalesceBodyBudget fw) mm ms)) s s'"
  using assms(2)
proof (induction "length ms" arbitrary: ms s rule: less_induct)
  case less
  let ?ov = "bundle_MemberOverhead L (fw_coalesceCarryTxid fw)" and ?mb = "coalesceBodyBudget fw"
  show ?case
  proof (cases ms)
    case Nil
    then show ?thesis using less.prems
      by (intro exI [of _ s] conjI exI [of _ 0])
        (simp_all add: packBucket.simps packAll.simps adds_none)
  next
    case (Cons m ms')
    obtain ps rest where pk: "packBundle ?ov ?mb mm [] BundleHeaderSize ms = (ps, rest)" by fastforce
    have dec: "length rest < length ms" using packBundle_progress(2) pk assms(1) unfolding Cons by blast
    have pa: "packAll ?ov ?mb mm ms = ps # packAll ?ov ?mb mm rest"
      using pk assms(1) Cons by (subst packAll.simps) simp
    let ?c = "counterOf (s_chains s)"
    obtain s1 where s1: "sendBundle L fw bk (dst_of fw (cb_group bk)) w ps s = Some s1" "fstate_ok fw s1"
      "counterOf (s_chains s1) = ?c(bucket_key bk := ?c (bucket_key bk) + 1)"
      "adds (bundleOut L fw bk (?c (bucket_key bk) + 1) ps) s s1"
      using sendBundle_effect [OF less.prems] by blast
    obtain s' n where s': "packBucket L fw mm bk (dst_of fw (cb_group bk)) w rest s1 = Some s'" "fstate_ok fw s'"
      "counterOf (s_chains s') = (counterOf (s_chains s1))
         (bucket_key bk := counterOf (s_chains s1) (bucket_key bk) + n)"
      "adds (bundlesOut L fw bk (counterOf (s_chains s1) (bucket_key bk)) (packAll ?ov ?mb mm rest)) s1 s'"
      using less.hyps [OF dec s1(2)] by blast
    have "packBucket L fw mm bk (dst_of fw (cb_group bk)) w ms s = Some s'"
      using pk s1(1) s'(1) Cons by (subst packBucket.simps) simp
    moreover have "counterOf (s_chains s') = ?c(bucket_key bk := ?c (bucket_key bk) + (1 + n))"
      using s'(3) s1(3) by (simp add: add_ac)
    moreover have "adds (bundlesOut L fw bk (?c (bucket_key bk)) (packAll ?ov ?mb mm ms)) s s'"
      using adds_trans [OF s1(4) s'(4)] s1(3) pa by simp
    ultimately show ?thesis using s'(2) by blast
  qed
qed

lemma flushBucket_effect:
  assumes "0 < mm" "fstate_ok fw s"
  shows "\<exists>s'. flushBucket L fw mm w bk s = Some s' \<and> fstate_ok fw s' \<and>
     (\<exists>n. counterOf (s_chains s') = (counterOf (s_chains s))
       (bucket_key bk := counterOf (s_chains s) (bucket_key bk) + n)) \<and>
     adds (bundlesOut L fw bk (counterOf (s_chains s) (bucket_key bk))
       (packAll (bundle_MemberOverhead L (fw_coalesceCarryTxid fw)) (coalesceBodyBudget fw) mm (cb_members bk))) s s'"
proof -
  obtain as where a: "addrFor fw (cb_group bk) s = (dst_of fw (cb_group bk), s\<lparr>s_addrs := as\<rparr>)"
    "fstate_ok fw (s\<lparr>s_addrs := as\<rparr>)" using addrFor_ok [OF assms(2)] by blast
  show ?thesis
    using packBucket_effect [OF assms(1) a(2), of L bk w "cb_members bk"] a(1) adds_left [of _ "s\<lparr>s_addrs := as\<rparr>" _ s]
    by (auto simp: flushBucket_def)
qed

lemma flushBuckets_effect:
  assumes "0 < mm" "fstate_ok fw s" "distinct (map bucket_key bks)"
  shows "\<exists>s'. fold_opt (flushBucket L fw mm w) bks s = Some s' \<and> fstate_ok fw s' \<and>
     (\<forall>k. k \<notin> bucket_key ` set bks \<longrightarrow> counterOf (s_chains s') k = counterOf (s_chains s) k) \<and>
     adds (concat (map (\<lambda>bk. bundlesOut L fw bk (counterOf (s_chains s) (bucket_key bk))
       (packAll (bundle_MemberOverhead L (fw_coalesceCarryTxid fw)) (coalesceBodyBudget fw) mm (cb_members bk))) bks)) s s'"
  using assms(2,3)
proof (induction bks arbitrary: s)
  case Nil
  then show ?case by (simp add: adds_none)
next
  case (Cons bk bks)
  let ?pk = "\<lambda>b. packAll (bundle_MemberOverhead L (fw_coalesceCarryTxid fw)) (coalesceBodyBudget fw) mm (cb_members b)"
  obtain s1 n where s1: "flushBucket L fw mm w bk s = Some s1" "fstate_ok fw s1"
    "counterOf (s_chains s1) = (counterOf (s_chains s))(bucket_key bk := counterOf (s_chains s) (bucket_key bk) + n)"
    "adds (bundlesOut L fw bk (counterOf (s_chains s) (bucket_key bk)) (?pk bk)) s s1"
    using flushBucket_effect [OF assms(1) Cons.prems(1)] by blast
  have d: "distinct (map bucket_key bks)" "bucket_key bk \<notin> bucket_key ` set bks"
    using Cons.prems(2) by auto
  obtain s' where s': "fold_opt (flushBucket L fw mm w) bks s1 = Some s'" "fstate_ok fw s'"
    "\<forall>k. k \<notin> bucket_key ` set bks \<longrightarrow> counterOf (s_chains s') k = counterOf (s_chains s1) k"
    "adds (concat (map (\<lambda>b. bundlesOut L fw b (counterOf (s_chains s1) (bucket_key b)) (?pk b)) bks)) s1 s'"
    using Cons.IH [OF s1(2) d(1)] by blast
  have c: "counterOf (s_chains s1) (bucket_key b) = counterOf (s_chains s) (bucket_key b)" if "b \<in> set bks" for b
  proof -
    have m: "bucket_key b \<in> bucket_key ` set bks" using that by (rule imageI)
    have "bucket_key b \<noteq> bucket_key bk"
    proof
      assume "bucket_key b = bucket_key bk"
      with m have "bucket_key bk \<in> bucket_key ` set bks" by (simp only:)
      with d(2) show False by contradiction
    qed
    then show ?thesis unfolding s1(3) by (rule fun_upd_other)
  qed
  have same: "map (\<lambda>b. bundlesOut L fw b (counterOf (s_chains s1) (bucket_key b)) (?pk b)) bks =
      map (\<lambda>b. bundlesOut L fw b (counterOf (s_chains s) (bucket_key b)) (?pk b)) bks"
    using c by simp
  show ?case using s1(1) s'(1,2) s'(3) s1(3) adds_trans [OF s1(4) s'(4)] unfolding same by auto
qed


subsection \<open>The buffer\<close>

text \<open>The members buffered for a flow.\<close>

fun flowMembers :: "chainKey \<Rightarrow> coalBucket list \<Rightarrow> bundle_member list" where
  "flowMembers k [] = []"
| "flowMembers k (b # bs) = (if bucket_key b = k then cb_members b else []) @ flowMembers k bs"

lemma flowMembers_absent: "k \<notin> bucket_key ` set bs \<Longrightarrow> flowMembers k bs = []"
  by (induction bs) auto

lemma coal_add_members:
  "distinct (map bucket_key bs) \<Longrightarrow>
   flowMembers k (coal_add ip g sub m bs) = flowMembers k bs @ (if k = chain_key ip g sub then [m] else [])"
proof (induction bs)
  case (Cons b bs)
  show ?case
  proof (cases "bucket_key b = chain_key ip g sub")
    case True
    have "bucket_key b \<notin> bucket_key ` set bs" using Cons.prems by auto
    then have "flowMembers (chain_key ip g sub) bs = []" using flowMembers_absent True by metis
    then show ?thesis using True by auto
  next
    case False
    then show ?thesis using Cons by auto
  qed
qed auto

definition bufferAll ::
  "(bytes \<times> u32 \<times> bytes \<times> bytes \<times> bytes) list \<Rightarrow> coalBuffer \<Rightarrow> coalBuffer" where
  "bufferAll xs c = foldl (\<lambda>c (ip, g, sub, txid, payload). coalBuffer_add ip g sub txid payload c) c xs"

lemma bufferAll_snoc:
  "bufferAll (xs @ [(ip, g, sub, t, p)]) c = coalBuffer_add ip g sub t p (bufferAll xs c)"
  by (simp add: bufferAll_def)

lemma bufferAll_wf: "coal_wf c \<Longrightarrow> coal_wf (bufferAll xs c)"
  by (induction xs rule: rev_induct) (auto simp: bufferAll_snoc coalBuffer_add_wf, simp add: bufferAll_def)

lemma bufferAll_members:
  assumes "coal_wf c"
  shows "flowMembers k (co_buckets (bufferAll xs c)) = flowMembers k (co_buckets c) @
     map (\<lambda>(ip, g, sub, t, p). \<lparr>mb_txid = t, mb_tx = p\<rparr>)
       (filter (\<lambda>(ip, g, sub, t, p). chain_key ip g sub = k) xs)"
proof (induction xs rule: rev_induct)
  case (snoc x xs)
  obtain ip g sub t p where x: "x = (ip, g, sub, t, p)" by (metis prod_cases5)
  have "distinct (map bucket_key (co_buckets (bufferAll xs c)))"
    using bufferAll_wf [OF assms] by (simp add: coal_wf_def)
  then show ?case
    using snoc coal_add_members [of "co_buckets (bufferAll xs c)" k ip g sub "\<lparr>mb_txid = t, mb_tx = p\<rparr>"]
    unfolding x bufferAll_snoc by (simp add: coalBuffer_add_def)
qed (simp add: bufferAll_def)

lemma flowMembers_bucket:
  "distinct (map bucket_key bs) \<Longrightarrow> b \<in> set bs \<Longrightarrow> flowMembers (bucket_key b) bs = cb_members b"
proof (induction bs)
  case (Cons a bs)
  have a: "bucket_key a \<notin> bucket_key ` set bs" using Cons.prems(1) by simp
  show ?case
  proof (cases "b = a")
    case True
    then show ?thesis using flowMembers_absent [OF a] by simp
  next
    case False
    then have b: "b \<in> set bs" using Cons.prems(2) by simp
    then have "bucket_key b \<in> bucket_key ` set bs" by (rule imageI)
    then have "bucket_key a \<noteq> bucket_key b" using a by metis
    then show ?thesis using Cons.IH [OF _ b] Cons.prems(1) by (simp only: flowMembers.simps if_False) simp
  qed
qed simp


lemma FlushCoalesced_effect:
  assumes ok: "fstate_ok fw s" and e: "s_egr s = Some e" "e_coal e = Some c" and wf: "coal_wf c"
  shows "\<exists>s' e'. FlushCoalesced L fw w s = Some s' \<and> fstate_ok fw s' \<and> s_egr s' = Some e' \<and>
     e_coal e' = Some (c\<lparr>co_buckets := []\<rparr>) \<and> e_targets e' = e_targets e \<and>
     (\<forall>k. k \<notin> bucket_key ` set (co_buckets c) \<longrightarrow> counterOf (s_chains s') k = counterOf (s_chains s) k) \<and>
     (\<forall>i < length (e_targets e). e_msgs e' ! i = e_msgs e ! i @
        map (\<lambda>p. \<lparr>m_buf = fst p, m_addr = zoned (snd p) (e_targets e ! i)\<rparr>)
          (concat (map (\<lambda>bk. bundlesOut L fw bk (counterOf (s_chains s) (bucket_key bk))
            (packAll (bundle_MemberOverhead L (fw_coalesceCarryTxid fw)) (coalesceBodyBudget fw)
               (co_max c) (cb_members bk))) (co_buckets c))))"
proof (cases "co_buckets c = []")
  case True
  then have "c = c\<lparr>co_buckets := []\<rparr>" by (cases c) simp
  then show ?thesis using True ok e by (simp add: FlushCoalesced_def)
next
  case False
  have c: "0 < co_max c" "distinct (map bucket_key (co_buckets c))" using wf by (simp_all add: coal_wf_def)
  obtain s1 where s1: "fold_opt (flushBucket L fw (co_max c) w) (co_buckets c) s = Some s1" "fstate_ok fw s1"
    "\<forall>k. k \<notin> bucket_key ` set (co_buckets c) \<longrightarrow> counterOf (s_chains s1) k = counterOf (s_chains s) k"
    "adds (concat (map (\<lambda>bk. bundlesOut L fw bk (counterOf (s_chains s) (bucket_key bk))
       (packAll (bundle_MemberOverhead L (fw_coalesceCarryTxid fw)) (coalesceBodyBudget fw) (co_max c) (cb_members bk)))
       (co_buckets c))) s s1"
    using flushBuckets_effect [OF c(1) ok c(2)] by blast
  obtain e1 where e1: "s_egr s1 = Some e1" "e_coal e1 = Some c" "e_targets e1 = e_targets e"
    "\<forall>i < length (e_targets e). e_msgs e1 ! i = e_msgs e ! i @
        map (\<lambda>p. \<lparr>m_buf = fst p, m_addr = zoned (snd p) (e_targets e ! i)\<rparr>)
          (concat (map (\<lambda>bk. bundlesOut L fw bk (counterOf (s_chains s) (bucket_key bk))
            (packAll (bundle_MemberOverhead L (fw_coalesceCarryTxid fw)) (coalesceBodyBudget fw)
               (co_max c) (cb_members bk))) (co_buckets c)))"
    using s1(4) e unfolding adds_def egr_adds_def by (simp only: option.case) blast
  let ?e' = "e1\<lparr>e_coal := Some (c\<lparr>co_buckets := []\<rparr>)\<rparr>"
  have run: "FlushCoalesced L fw w s = Some (s1\<lparr>s_egr := Some ?e'\<rparr>)"
    using False e s1(1) e1(1,2) by (simp add: FlushCoalesced_def onEgress_def coalBuffer_reset_def)
  have "fstate_ok fw (s1\<lparr>s_egr := Some ?e'\<rparr>)"
    using s1(2) e1(1) c(1) by (simp add: fstate_ok_def egr_ok_def egress_wf_def coal_wf_def)
  then show ?thesis using run e1 s1(3)
    by (intro exI [of _ "s1\<lparr>s_egr := Some ?e'\<rparr>"] exI [of _ ?e']) simp
qed

text \<open>The header fields a relayed bundle is routed by.\<close>

definition bundle_group :: "bytes \<Rightarrow> u32" where
  "bundle_group raw = ucast (of_nat (be_nat (take 2 (drop 56 raw))) :: u16)"

definition bundle_valid :: "bytes \<Rightarrow> bool" where
  "bundle_valid raw \<longleftrightarrow> BundleHeaderSize \<le> length raw \<and>
     (of_nat (be_nat (take 4 raw)) :: u32) = MagicBSV \<and>
     BundleHeaderSize + be_nat (take 4 (drop 62 raw)) \<le> length raw"

lemma be_nat_u32: "length b = 4 \<Longrightarrow> unat (of_nat (be_nat b) :: u32) = be_nat b"
  using be_nat_less [of b] by (simp add: unat_of_nat take_bit_nat_eq_self)

lemma ProcessBundle_effect:
  assumes ok: "fstate_ok fw s"
  shows "\<exists>s'. ProcessBundle fw raw w s = Some s' \<and> fstate_ok fw s' \<and> s_chains s' = s_chains s \<and>
     s_txClaims s' = s_txClaims s \<and>
     (bundle_valid raw \<longrightarrow> adds [(raw, dst_of fw (bundle_group raw))] s s') \<and>
     (\<not> bundle_valid raw \<longrightarrow> same_but_events s s')"
proof (cases "length raw < BundleHeaderSize")
  case True
  then show ?thesis using ok by (simp add: ProcessBundle_def bundle_valid_def dropped_def frame_simps)
next
  case False
  then have len: "66 \<le> length raw" by (simp add: BundleHeaderSize_def)
  have r: "gslice 0 4 raw \<bind> BE_Uint32 = Some (of_nat (be_nat (take 4 raw)))"
    "gslice 62 66 raw \<bind> BE_Uint32 = Some (of_nat (be_nat (take 4 (drop 62 raw))))"
    "gslice 56 58 raw \<bind> BE_Uint16 = Some (of_nat (be_nat (take 2 (drop 56 raw))))"
    "\<exists>n. gslice 60 62 raw \<bind> BE_Uint16 = Some n"
    using len by (simp_all add: gslice_ok BE_Uint32_def BE_Uint16_def)
  have d: "unat (of_nat (be_nat (take 4 (drop 62 raw))) :: u32) = be_nat (take 4 (drop 62 raw))"
    using be_nat_u32 len by simp
  show ?thesis
  proof (cases "bundle_valid raw")
    case invalid: False
    then have "ProcessBundle fw raw w s = Some (dropped fw w ''bundle_malformed'' s)"
      using False len by (auto simp: ProcessBundle_def r d bundle_valid_def not_le)
    then show ?thesis using ok invalid by (simp add: dropped_def frame_simps)
  next
    case True
    obtain n where n: "gslice 60 62 raw \<bind> BE_Uint16 = Some n" using r(4) by blast
    obtain as x where em: "(case addrFor fw (bundle_group raw) s of
         (dst, s1) \<Rightarrow> onEgress (EnqueueData raw dst (bundle_group raw) w) s1) = Some (s\<lparr>s_addrs := as, s_egr := x\<rparr>)"
      "fstate_ok fw (s\<lparr>s_addrs := as, s_egr := x\<rparr>)"
      "adds [(raw, dst_of fw (bundle_group raw))] s (s\<lparr>s_addrs := as, s_egr := x\<rparr>)"
      using emitOne_effect [OF ok] by blast
    let ?s1 = "s\<lparr>s_addrs := as, s_egr := x\<rparr>"
    have "ProcessBundle fw raw w s =
        (if s_egr s = None then Some s
         else Some (emit fw (CoalesceFlushed (egrIface (s_egr ?s1)) w (unat n) ''relay'') ?s1))"
      using True False em(1) unfolding ProcessBundle_def r n
      by (auto simp: d bundle_valid_def bundle_group_def split: prod.splits)
    moreover have "s_egr s = None \<Longrightarrow> adds [(raw, dst_of fw (bundle_group raw))] s s"
      by (simp add: adds_def)
    ultimately show ?thesis using True ok em(2) adds_right [OF em(3)]
      by (cases "s_egr s = None") (simp_all add: frame_simps)
  qed
qed

lemma ProcessBundle_total: "handler_total fw (ProcessBundle fw raw w)"
  by (rule handler_totalI) (use ProcessBundle_effect in blast)


lemma FlushCoalesced_total: "handler_total fw (FlushCoalesced L fw w)"
proof (rule handler_totalI)
  fix s assume ok: "fstate_ok fw s"
  show "\<exists>s'. FlushCoalesced L fw w s = Some s' \<and> fstate_ok fw s'"
  proof (cases "\<exists>e c. s_egr s = Some e \<and> e_coal e = Some c")
    case True
    then obtain e c where e: "s_egr s = Some e" "e_coal e = Some c" by blast
    then have "coal_wf c" using ok by (simp add: fstate_ok_def egr_ok_def)
    then show ?thesis using FlushCoalesced_effect [OF ok e] by blast
  next
    case False
    then show ?thesis using ok by (auto simp: FlushCoalesced_def split: option.splits)
  qed
qed

subsection \<open>Properties\<close>

text \<open>Buffering keeps every flow apart and in order: after any sequence of transactions, the
  members buffered for a (sender, group, subtree) flow are exactly the transactions of that flow, in
  arrival order, and the buffer never holds two buckets for one flow.\<close>

lemma coalBuffer_groups_by_flow:
  "flowMembers k (co_buckets (bufferAll xs (newCoalBuffer n))) =
     map (\<lambda>(ip, g, sub, t, p). \<lparr>mb_txid = t, mb_tx = p\<rparr>)
       (filter (\<lambda>(ip, g, sub, t, p). chain_key ip g sub = k) xs) \<and>
   distinct (map bucket_key (co_buckets (bufferAll xs (newCoalBuffer n))))"
  using bufferAll_members [OF newCoalBuffer_wf, of k xs n] bufferAll_wf [OF newCoalBuffer_wf, of xs n]
  by (simp add: coal_wf_def newCoalBuffer_def)





end
