(* ===== verification/Beef.thy ===== *)
theory Beef
  imports Coalesce
begin

text \<open>
  \<^verbatim>\<open>forwarder/beef.go\<close>: the BEEF object plane.  A submission record is checked and framed
  (\<^verbatim>\<open>PrepareBEEF\<close>), then admitted in order (\<^verbatim>\<open>DispatchBEEF\<close>), or admitted and fragmented apart
  (\<^verbatim>\<open>AdmitBEEF\<close>, \<^verbatim>\<open>FragmentBEEFInto\<close>); a ready-made frame enters through \<^verbatim>\<open>ProcessBEEF\<close>.
\<close>

subsection \<open>Configuration and bounds\<close>

definition BEEFMaxObject :: "Forwarder \<Rightarrow> int" where
  "BEEFMaxObject fw = fw_beefMaxObject fw"

definition SetBEEF :: "(bytes \<Rightarrow> u32) \<Rightarrow> int \<Rightarrow> Forwarder \<Rightarrow> Forwarder" where
  "SetBEEF pe maxObjectBytes fw = fw\<lparr>fw_beefEngine := Some pe, fw_beefMaxObject := maxObjectBytes\<rparr>"

definition SetBEEFSubmitPolicy :: "BEEFSubmitPolicy option \<Rightarrow> Forwarder \<Rightarrow> Forwarder" where
  "SetBEEFSubmitPolicy p fw = fw\<lparr>fw_beefPolicy := p\<rparr>"

definition SetBEEFRateLimit :: "BEEFRateConfig \<Rightarrow> fstate \<Rightarrow> fstate" where
  "SetBEEFRateLimit cfg s = s\<lparr>s_limit := Some (newBEEFLimiter cfg)\<rparr>"

definition beefClaimKey :: "bytes \<Rightarrow> bytes \<Rightarrow> bytes" where
  "beefClaimKey contentID topicID = sha256 (contentID @ topicID)"

definition beefObjectBoundFor :: "Forwarder \<Rightarrow> net_addr option \<Rightarrow> int" where
  "beefObjectBoundFor fw src =
     (case fw_beefPolicy fw of
        None \<Rightarrow> fw_beefMaxObject fw
      | Some p \<Rightarrow>
          let lifted = pol_MaxObjectBytes p (srcIPOf src)
          in if lifted > fw_beefMaxObject fw then lifted else fw_beefMaxObject fw)"

definition BEEFRecordBound :: "Forwarder \<Rightarrow> net_addr option \<Rightarrow> int" where
  "BEEFRecordBound fw src =
     (let obj = beefObjectBoundFor fw src in if obj \<le> 0 then 0 else obj + int BEEFRecordMaxEnvelope)"

definition rejectOnBEEFLane :: "Forwarder \<Rightarrow> int \<Rightarrow> fstate \<Rightarrow> fstate" where
  "rejectOnBEEFLane fw workerID s = dropped fw workerID ''non_beef_on_beef_lane'' s"

definition beefDeliverCount :: "Forwarder \<Rightarrow> net_addr option \<Rightarrow> int \<Rightarrow> int" where
  "beefDeliverCount fw src n =
     (let deliver =
        (case fw_beefPolicy fw of
           None \<Rightarrow> 1
         | Some p \<Rightarrow> if srcIPOf src \<noteq> [] then pol_DeliverCount p (srcIPOf src) n else 1);
          deliver = (if deliver < 1 then 1 else deliver)
      in if deliver > n then n else deliver)"

subsection \<open>Preparation\<close>

record PreparedBEEF =
  pb_frame :: "bytes option"
  pb_result :: string
  pb_topics :: nat
  pb_deliver :: int

definition PreparedBEEF_Len :: "PreparedBEEF option \<Rightarrow> nat" where
  "PreparedBEEF_Len p =
     (case p of None \<Rightarrow> 0 | Some q \<Rightarrow> (case pb_frame q of None \<Rightarrow> 0 | Some f \<Rightarrow> length f))"

definition refusedBEEF :: "string \<Rightarrow> PreparedBEEF" where
  "refusedBEEF result = \<lparr>pb_frame = None, pb_result = result, pb_topics = 0, pb_deliver = 0\<rparr>"

definition PrepareBEEF :: "lib \<Rightarrow> Forwarder \<Rightarrow> bytes \<Rightarrow> net_addr option \<Rightarrow> PreparedBEEF" where
  "PrepareBEEF L fw rec src =
     (if fw_beefEngine fw = None then refusedBEEF ''disabled''
      else
        case objfmt_DecodeBEEFRecord L rec of
          None \<Rightarrow> refusedBEEF ''malformed''
        | Some (topics, object, n) \<Rightarrow>
            if n \<noteq> length rec then refusedBEEF ''malformed''
            else if beefObjectBoundFor fw src > 0 \<and> int (length object) > beefObjectBoundFor fw src
            then refusedBEEF ''oversize''
            else if \<not> objfmt_IsBEEFObject L object then refusedBEEF ''bad_marker''
            else
              let deliver = beefDeliverCount fw src (int (length topics)) in
              (case objfmt_BEEFMulticastRecord L rec (nat deliver) of
                 None \<Rightarrow> refusedBEEF ''malformed''
               | Some buf \<Rightarrow> \<lparr>pb_frame = Some buf, pb_result = ''ok'', pb_topics = length topics,
                              pb_deliver = deliver\<rparr>))"

subsection \<open>Admission\<close>

text \<open>The conformance checks of \<^verbatim>\<open>checkBEEF\<close> after the payload was split into object and
  topics (an empty list for a bare object), in order.\<close>

definition beefConformance ::
  "lib \<Rightarrow> Forwarder \<Rightarrow> net_addr option \<Rightarrow> BEEFFrame \<Rightarrow> bytes \<Rightarrow> string list \<Rightarrow> string option" where
  "beefConformance L fw src bf object topics =
     (if fw_beefMaxObject fw > 0 \<and> int (length object) > fw_beefMaxObject fw \<and>
         int (length object) > beefObjectBoundFor fw src
      then Some ''beef_oversize''
      else if bf_topicID bf = zero32 then Some ''beef_no_topic''
      else if topics \<noteq> [] \<and> bf_topicID bf \<noteq> objfmt_TopicID L (hd topics) then Some ''beef_topic_mismatch''
      else if \<not> objfmt_IsBEEFObject L object then Some ''beef_bad_marker''
      else None)"

text \<open>The DeliverCount overwrite: byte 7 of the frame and the decoded field.\<close>

definition setDeliver ::
  "Forwarder \<Rightarrow> net_addr option \<Rightarrow> string list \<Rightarrow> bytes \<Rightarrow> BEEFFrame \<Rightarrow> (bytes \<times> BEEFFrame) option" where
  "setDeliver fw src topics raw bf =
     (if src = None then Some (raw, bf)
      else
        do { require (7 < length raw);
             let n = (if topics = [] then 1 else int (length topics));
             let d = (of_int (beefDeliverCount fw src n) :: byte);
             Some (raw[7 := d], bf\<lparr>bf_deliver := d\<rparr>) })"

definition chargeBEEF :: "lib \<Rightarrow> net_addr option \<Rightarrow> nat \<Rightarrow> fstate \<Rightarrow> rateDecision \<times> fstate" where
  "chargeBEEF L src n s =
     (case s_limit s of
        None \<Rightarrow> (rateAllow, s)
      | Some l \<Rightarrow>
          (case limiter_allow (net_ParseHost L) (addr_String L) src n (s_now s) l of
             (d, l') \<Rightarrow> (d, s\<lparr>s_limit := Some l'\<rparr>)))"

definition checkBEEF ::
  "lib \<Rightarrow> Forwarder \<Rightarrow> bytes \<Rightarrow> net_addr option \<Rightarrow> int \<Rightarrow> bool \<Rightarrow> fstate \<Rightarrow>
   (fstate \<times> (bytes \<times> BEEFFrame \<times> u32) option) option" where
  "checkBEEF L fw raw src workerID checkContentID s =
     (case fw_beefEngine fw of
        None \<Rightarrow> Some (dropped fw workerID ''beef_disabled'' s, None)
      | Some pe \<Rightarrow>
         (case frame_DecodeBEEF L raw of
            None \<Rightarrow> Some (dropped fw workerID ''decode_error'' s, None)
          | Some bf0 \<Rightarrow>
             (case objfmt_SplitBEEFPayload L (bf_payload bf0) of
                None \<Rightarrow> Some (dropped fw workerID ''beef_bad_record'' s, None)
              | Some (object, topics) \<Rightarrow>
                 (case beefConformance L fw src bf0 object topics of
                    Some reason \<Rightarrow> Some (dropped fw workerID reason s, None)
                  | None \<Rightarrow>
                      do { (raw1, bf) \<leftarrow> setDeliver fw src topics raw bf0;
                           case chargeBEEF L src (length raw1) s of (d, s1) \<Rightarrow>
                             if d \<noteq> rateAllow then Some (dropped fw workerID (rate_reason d) s1, None)
                             else if checkContentID \<and> src \<noteq> None \<and>
                                     bf_contentID bf \<noteq> objfmt_ContentID L (bf_payload bf)
                             then Some (dropped fw workerID ''beef_bad_contentid'' s1, None)
                             else
                               case claimBEEFIngress fw (beefClaimKey (bf_contentID bf) (bf_topicID bf)) ''brc148''
                                      (egrIface (s_egr s1)) workerID s1 of
                                 (ok, s2) \<Rightarrow>
                                   if ok then Some (s2, Some (raw1, bf, pe (bf_topicID bf)))
                                   else Some (s2, None) }))))"

subsection \<open>Emission\<close>

definition beefFragTotal :: "Forwarder \<Rightarrow> BEEFFrame \<Rightarrow> int \<Rightarrow> fstate \<Rightarrow> (nat option \<times> fstate) option" where
  "beefFragTotal fw bf workerID s =
     do { require (fw_fragDataSize fw > 0);
          let k = fragCount (fw_fragDataSize fw) (bf_payload bf);
          if k > 65535 then Some (None, emit fw (PacketDropped '''' workerID ''frag_overflow'') s)
          else Some (Some k, s) }"

definition beefHdr :: "Forwarder \<Rightarrow> BEEFFrame \<Rightarrow> nat \<Rightarrow> nat \<Rightarrow> u64 \<Rightarrow> u64 \<Rightarrow> fragment_hdr" where
  "beefHdr fw bf = fragHdr (bf_contentID bf) (bf_topicID bf) FrameVerV9 (fw_fragDataSize fw) (bf_payload bf)"

text \<open>\<open>sz\<close> is the length of the buffer.\<close>

definition encodeBEEFFragment ::
  "lib \<Rightarrow> Forwarder \<Rightarrow> nat \<Rightarrow> BEEFFrame \<Rightarrow> nat \<Rightarrow> nat \<Rightarrow> u64 \<Rightarrow> u64 \<Rightarrow> bytes option" where
  "encodeBEEFFragment L fw sz bf i k hashKey seqNum =
     map_option (\<lambda>d. d[7 := bf_deliver bf]) (frame_EncodeFragment L sz (beefHdr fw bf k i hashKey seqNum))"

text \<open>The loop of \<^verbatim>\<open>fragmentBEEF\<close> is the shared fragment loop; its encoder is
  \<^const>\<open>encodeBEEFFragment\<close>, whose last step is the \<open>fin\<close> of the loop.\<close>

definition fragmentBEEF :: "lib \<Rightarrow> Forwarder \<Rightarrow> BEEFFrame \<Rightarrow> bytes \<Rightarrow> u32 \<Rightarrow> int \<Rightarrow> fstate \<Rightarrow> fstate option" where
  "fragmentBEEF L fw bf ip groupIdx workerID s =
     do { (ko, s1) \<leftarrow> beefFragTotal fw bf workerID s;
          case ko of
            None \<Rightarrow> Some s1
          | Some k \<Rightarrow>
              (case addrFor fw groupIdx (emit fw (FrameFragmented workerID k) s1) of
                 (dst, s2) \<Rightarrow>
                   fragLoop L ip groupIdx zero32 (beefHdr fw bf k) (\<lambda>d. Some (d[7 := bf_deliver bf]))
                     (\<lambda>d b. EnqueueDataPooled d dst groupIdx workerID b) k s2) }"

definition emitBEEF :: "Forwarder \<Rightarrow> bytes \<Rightarrow> u32 \<Rightarrow> int \<Rightarrow> fstate \<Rightarrow> fstate option" where
  "emitBEEF fw raw groupIdx workerID s =
     (if s_egr s = None then Some s
      else case addrFor fw groupIdx s of (dst, s1) \<Rightarrow> onEgress (EnqueueData raw dst groupIdx workerID) s1)"

text \<open>\<^verbatim>\<open>processBEEF\<close> after the checks.\<close>

definition deliverBEEF ::
  "lib \<Rightarrow> Forwarder \<Rightarrow> bytes \<Rightarrow> BEEFFrame \<Rightarrow> u32 \<Rightarrow> net_addr option \<Rightarrow> int \<Rightarrow> fstate \<Rightarrow> fstate option" where
  "deliverBEEF L fw raw bf groupIdx src workerID s =
     (case src of
        None \<Rightarrow> emitBEEF fw raw groupIdx workerID s
      | Some a \<Rightarrow>
          if fw_fragDataSize fw > 0 \<and> length (bf_payload bf) > fw_fragDataSize fw
          then fragmentBEEF L fw bf (addrToIPv6 a) groupIdx workerID s
          else do { (raw', s1) \<leftarrow> stamp L fw raw (addrToIPv6 a) groupIdx zero32 s;
                    emitBEEF fw raw' groupIdx workerID s1 })"

definition processBEEF ::
  "lib \<Rightarrow> Forwarder \<Rightarrow> bytes \<Rightarrow> net_addr option \<Rightarrow> int \<Rightarrow> bool \<Rightarrow> fstate \<Rightarrow> fstate option" where
  "processBEEF L fw raw src workerID checkContentID s =
     do { (s1, adm) \<leftarrow> checkBEEF L fw raw src workerID checkContentID s;
          case adm of
            None \<Rightarrow> Some s1
          | Some (raw1, bf, groupIdx) \<Rightarrow> deliverBEEF L fw raw1 bf groupIdx src workerID s1 }"

definition ProcessBEEF :: "lib \<Rightarrow> Forwarder \<Rightarrow> bytes \<Rightarrow> net_addr option \<Rightarrow> int \<Rightarrow> fstate \<Rightarrow> fstate option" where
  "ProcessBEEF L fw raw src workerID s = processBEEF L fw raw src workerID True s"

definition meterBEEF :: "Forwarder \<Rightarrow> PreparedBEEF \<Rightarrow> bytes \<Rightarrow> fstate \<Rightarrow> fstate" where
  "meterBEEF fw p raw s =
     emit fw (BEEFTopics (pb_topics p) (nat (pb_deliver p)))
       (emit fw (IngressMetered IngressClassBEEF False (length raw)) s)"

text \<open>The submission is recorded when the function returns (\<^verbatim>\<open>defer\<close>).\<close>

definition DispatchBEEF ::
  "lib \<Rightarrow> Forwarder \<Rightarrow> PreparedBEEF option \<Rightarrow> net_addr option \<Rightarrow> int \<Rightarrow> fstate \<Rightarrow> fstate option" where
  "DispatchBEEF L fw po src workerID s =
     (case po of
        None \<Rightarrow> Some s
      | Some p \<Rightarrow>
          do { s1 \<leftarrow> (case pb_frame p of
                        None \<Rightarrow> Some s
                      | Some raw \<Rightarrow> processBEEF L fw raw src workerID False (meterBEEF fw p raw s));
               Some (emit fw (BEEFSubmission (pb_result p)) s1) })"

definition SubmitBEEF :: "lib \<Rightarrow> Forwarder \<Rightarrow> bytes \<Rightarrow> net_addr option \<Rightarrow> int \<Rightarrow> fstate \<Rightarrow> fstate option" where
  "SubmitBEEF L fw rec src workerID s = DispatchBEEF L fw (Some (PrepareBEEF L fw rec src)) src workerID s"

subsection \<open>Admission apart from fragmenting\<close>

record BEEFAdmission =
  ad_raw :: bytes
  ad_bf :: BEEFFrame
  ad_ip :: bytes
  ad_group :: u32
  ad_dst :: udp_addr
  ad_hash :: u64
  ad_first :: u64
  ad_k :: nat
  ad_worker :: int

definition Datagrams :: "BEEFAdmission \<Rightarrow> nat" where
  "Datagrams a = (if ad_k a > 0 then ad_k a else 1)"

definition admission_Bytes :: "BEEFAdmission \<Rightarrow> nat" where
  "admission_Bytes a =
     (if ad_k a > 0 then ad_k a * HeaderSizeV3 + length (bf_payload (ad_bf a)) else length (ad_raw a))"

definition Dst :: "BEEFAdmission \<Rightarrow> udp_addr" where "Dst a = ad_dst a"
definition GroupIdx :: "BEEFAdmission \<Rightarrow> u32" where "GroupIdx a = ad_group a"
definition Seqs :: "BEEFAdmission \<Rightarrow> u64 \<times> u64" where "Seqs a = (ad_hash a, ad_first a)"

text \<open>What \<^verbatim>\<open>AdmitBEEF\<close> does once the frame is checked.\<close>

definition reserveBEEF ::
  "lib \<Rightarrow> Forwarder \<Rightarrow> bytes \<Rightarrow> BEEFFrame \<Rightarrow> u32 \<Rightarrow> net_addr option \<Rightarrow> int \<Rightarrow> fstate \<Rightarrow>
   (fstate \<times> BEEFAdmission option) option" where
  "reserveBEEF L fw raw bf groupIdx src workerID s =
     (case addrFor fw groupIdx s of
        (dst, s1) \<Rightarrow>
          let a = \<lparr>ad_raw = raw, ad_bf = bf, ad_ip = zeros 16, ad_group = groupIdx, ad_dst = dst,
                   ad_hash = 0, ad_first = 0, ad_k = 0, ad_worker = workerID\<rparr>
          in case src of
               None \<Rightarrow> Some (s1, Some a)
             | Some addr \<Rightarrow>
                 let ip = addrToIPv6 addr in
                 if fw_fragDataSize fw > 0 \<and> length (bf_payload bf) > fw_fragDataSize fw then
                   do { (ko, s2) \<leftarrow> beefFragTotal fw bf workerID s1;
                        case ko of
                          None \<Rightarrow> Some (s2, None)
                        | Some k \<Rightarrow>
                            (case reserveSeq (seqhash_Hash L) ip groupIdx zero32 k (s_chains s2) of
                               ((hashKey, first), ch) \<Rightarrow>
                                 Some (s2\<lparr>s_chains := ch\<rparr>,
                                       Some (a\<lparr>ad_ip := ip, ad_k := k, ad_hash := hashKey, ad_first := first\<rparr>))) }
                 else
                   do { (raw2, s2) \<leftarrow> stamp L fw raw ip groupIdx zero32 s1;
                        h \<leftarrow> gslice 40 48 raw2 \<bind> BE_Uint64;
                        q \<leftarrow> gslice 48 56 raw2 \<bind> BE_Uint64;
                        Some (s2, Some (a\<lparr>ad_raw := raw2, ad_ip := ip, ad_hash := h, ad_first := q\<rparr>)) })"

definition AdmitBEEF ::
  "lib \<Rightarrow> Forwarder \<Rightarrow> PreparedBEEF option \<Rightarrow> net_addr option \<Rightarrow> int \<Rightarrow> fstate \<Rightarrow>
   (fstate \<times> BEEFAdmission option) option" where
  "AdmitBEEF L fw po src workerID s =
     (case po of
        None \<Rightarrow> Some (s, None)
      | Some p \<Rightarrow>
          do { (s1, ao) \<leftarrow>
                 (case pb_frame p of
                    None \<Rightarrow> Some (s, None)
                  | Some raw \<Rightarrow>
                      do { (s2, adm) \<leftarrow> checkBEEF L fw raw src workerID False (meterBEEF fw p raw s);
                           case adm of
                             None \<Rightarrow> Some (s2, None)
                           | Some (raw1, bf, groupIdx) \<Rightarrow> reserveBEEF L fw raw1 bf groupIdx src workerID s2 });
               Some (emit fw (BEEFSubmission (pb_result p)) s1, ao) })"

definition ReserveBEEFSeqs :: "lib \<Rightarrow> net_addr \<Rightarrow> u32 \<Rightarrow> nat \<Rightarrow> fstate \<Rightarrow> (u64 \<times> u64) \<times> fstate" where
  "ReserveBEEFSeqs L src groupIdx n s =
     (case reserveSeq (seqhash_Hash L) (addrToIPv6 src) groupIdx zero32 n (s_chains s) of
        (r, ch) \<Rightarrow> (r, s\<lparr>s_chains := ch\<rparr>))"

datatype beef_error = errNilAdmission | errBEEFAlloc | errEncodeFragment

text \<open>\<open>alloc i n\<close> is the length of the slice the \<open>i\<close>-th call of the allocator returns for \<open>n\<close>.\<close>

fun fragInto ::
  "lib \<Rightarrow> Forwarder \<Rightarrow> BEEFAdmission \<Rightarrow> (nat \<Rightarrow> nat \<Rightarrow> nat) \<Rightarrow> nat list \<Rightarrow> bytes list \<Rightarrow> beef_error + bytes list" where
  "fragInto L fw a alloc [] out = Inr out"
| "fragInto L fw a alloc (i # is) out =
     (let sz = HeaderSizeV3 + min (fw_fragDataSize fw) (length (bf_payload (ad_bf a)) - i * fw_fragDataSize fw)
      in if alloc i sz \<noteq> sz then Inl errBEEFAlloc
         else
           case encodeBEEFFragment L fw sz (ad_bf a) i (ad_k a) (ad_hash a) (ad_first a + of_nat i) of
             None \<Rightarrow> Inl errEncodeFragment
           | Some d \<Rightarrow> fragInto L fw a alloc is (out @ [d]))"

definition FragmentBEEFInto ::
  "lib \<Rightarrow> Forwarder \<Rightarrow> BEEFAdmission option \<Rightarrow> (nat \<Rightarrow> nat \<Rightarrow> nat) \<Rightarrow> (beef_error + bytes list) \<times> event list" where
  "FragmentBEEFInto L fw ao alloc =
     (case ao of
        None \<Rightarrow> (Inl errNilAdmission, [])
      | Some a \<Rightarrow>
          if ad_k a = 0 then
            (if alloc 0 (length (ad_raw a)) \<noteq> length (ad_raw a) then (Inl errBEEFAlloc, [])
             else (Inr [ad_raw a], []))
          else (fragInto L fw a alloc [0..<ad_k a] [],
                if fw_rec fw then [FrameFragmented (ad_worker a) (ad_k a)] else []))"

subsection \<open>What the checks do\<close>

lemma claimBEEFIngress_frame:
  assumes "claimBEEFIngress fw key ft iface w s = (ok, s')"
  shows "s_addrs s' = s_addrs s" "s_bridging s' = s_bridging s" "s_limit s' = s_limit s"
    "s_chains s' = s_chains s" "s_egr s' = s_egr s" "s_sched s' = s_sched s"
  using assms by (auto simp: claimBEEFIngress_def split: if_splits prod.splits dest: claimIngress_frame)

lemma chargeBEEF_frame:
  assumes "chargeBEEF L src n s = (d, s')"
  shows "s_addrs s' = s_addrs s" "s_bridging s' = s_bridging s" "s_chains s' = s_chains s"
    "s_egr s' = s_egr s" "s_sched s' = s_sched s" "s_txClaims s' = s_txClaims s"
    "s_beefClaims s' = s_beefClaims s"
  using assms by (auto simp: chargeBEEF_def split: option.splits prod.splits)

lemma beefDeliverCount_bounds:
  assumes "1 \<le> n"
  shows "1 \<le> beefDeliverCount fw src n" "beefDeliverCount fw src n \<le> n"
    and "fw_beefPolicy fw = None \<Longrightarrow> beefDeliverCount fw src n = 1"
  using assms by (auto simp: beefDeliverCount_def Let_def)

lemma setDeliver_effect:
  assumes "8 \<le> length raw"
  shows "\<exists>raw' d. setDeliver fw src topics raw bf = Some (raw', bf\<lparr>bf_deliver := d\<rparr>) \<and>
     length raw' = length raw \<and> seq_of raw' = seq_of raw \<and> hash_of raw' = hash_of raw \<and>
     (src = None \<longrightarrow> raw' = raw \<and> d = bf_deliver bf) \<and>
     (src \<noteq> None \<longrightarrow> raw' = raw[7 := d] \<and>
        d = of_int (beefDeliverCount fw src (if topics = [] then 1 else int (length topics))))"
  using assms
  by (auto simp: setDeliver_def seq_of_def hash_of_def hdr_seq_def hdr_hash_def Let_def)

text \<open>Both outcomes of \<^const>\<open>checkBEEF\<close> leave the queues, the counters and the address cache alone.\<close>

lemma checkBEEF_effect:
  assumes lib: "lib_ok L" and ok: "fstate_ok fw s"
  shows "\<exists>s' adm. checkBEEF L fw raw src w chk s = Some (s', adm) \<and> fstate_ok fw s' \<and>
     s_egr s' = s_egr s \<and> s_chains s' = s_chains s \<and> s_addrs s' = s_addrs s \<and>
     (\<forall>raw1 bf g. adm = Some (raw1, bf, g) \<longrightarrow> length raw1 = length raw \<and> 56 \<le> length raw)"
proof (cases "\<exists>pe bf0 object topics. fw_beefEngine fw = Some pe \<and> frame_DecodeBEEF L raw = Some bf0 \<and>
    objfmt_SplitBEEFPayload L (bf_payload bf0) = Some (object, topics) \<and>
    beefConformance L fw src bf0 object topics = None")
  case False
  then have "\<exists>r. checkBEEF L fw raw src w chk s = Some (dropped fw w r s, None)"
    by (auto simp: checkBEEF_def split: option.splits)
  then show ?thesis using ok by (auto simp: dropped_def frame_simps)
next
  case True
  then obtain pe bf0 object topics where p: "fw_beefEngine fw = Some pe" "frame_DecodeBEEF L raw = Some bf0"
    "objfmt_SplitBEEFPayload L (bf_payload bf0) = Some (object, topics)"
    "beefConformance L fw src bf0 object topics = None" by blast
  have len: "56 \<le> length raw" using lib p(2) by (auto simp: lib_ok_def)
  obtain raw' d where sd: "setDeliver fw src topics raw bf0 = Some (raw', bf0\<lparr>bf_deliver := d\<rparr>)"
    "length raw' = length raw"
    using setDeliver_effect [of raw fw src topics bf0] len by auto
  obtain rd s1 where ch: "chargeBEEF L src (length raw') s = (rd, s1)" by fastforce
  note f1 = chargeBEEF_frame [OF ch]
  have ok1: "fstate_ok fw s1" using ok f1 by (simp add: fstate_ok_def)
  obtain won s2 where cl: "claimBEEFIngress fw (beefClaimKey (bf_contentID bf0) (bf_topicID bf0)) ''brc148''
      (egrIface (s_egr s1)) w s1 = (won, s2)" by fastforce
  note f2 = claimBEEFIngress_frame [OF cl]
  have ok2: "fstate_ok fw s2" using ok1 f2 by (simp add: fstate_ok_def)
  have eq: "checkBEEF L fw raw src w chk s =
      (if rd \<noteq> rateAllow then Some (dropped fw w (rate_reason rd) s1, None)
       else if chk \<and> src \<noteq> None \<and> bf_contentID bf0 \<noteq> objfmt_ContentID L (bf_payload bf0)
       then Some (dropped fw w ''beef_bad_contentid'' s1, None)
       else Some (s2, if won then Some (raw', bf0\<lparr>bf_deliver := d\<rparr>, pe (bf_topicID bf0)) else None))"
    using p sd ch cl by (cases "src = None") (auto simp: checkBEEF_def)
  show ?thesis unfolding eq using ok1 ok2 f1 f2 sd(2) len by (auto simp: dropped_def frame_simps)
qed


subsection \<open>What emission does\<close>

lemma emitBEEF_effect:
  assumes ok: "fstate_ok fw s"
  shows "\<exists>as x. emitBEEF fw raw g w s = Some (s\<lparr>s_addrs := as, s_egr := x\<rparr>) \<and>
     fstate_ok fw (s\<lparr>s_addrs := as, s_egr := x\<rparr>) \<and>
     adds [(raw, dst_of fw g)] s (s\<lparr>s_addrs := as, s_egr := x\<rparr>)"
proof (cases "s_egr s = None")
  case True
  then show ?thesis using ok
    by (intro exI [of _ "s_addrs s"] exI [of _ None]) (simp add: emitBEEF_def adds_def fstate_ok_def)
next
  case False
  then show ?thesis using emitOne_effect [OF ok, where g = g and raw = raw and w = w] by (auto simp: emitBEEF_def)
qed

text \<open>The fragments of a BEEF object, with the flow's counter at \<open>cnt\<close>.\<close>

definition beefFragments :: "lib \<Rightarrow> Forwarder \<Rightarrow> BEEFFrame \<Rightarrow> bytes \<Rightarrow> u32 \<Rightarrow> u64 \<Rightarrow> (bytes \<times> udp_addr) list" where
  "beefFragments L fw bf ip g cnt =
     (let k = fragCount (fw_fragDataSize fw) (bf_payload bf) in
      concat (map (fragOut L fw (beefHdr fw bf k) (\<lambda>d. d[7 := bf_deliver bf]) (dst_of fw g)
                     (seqhash_Hash L ip g zero32) cnt) [0..<k]))"

lemma fragmentBEEF_effect:
  assumes ok: "fstate_ok fw s" and frag: "0 < fw_fragDataSize fw"
    and k: "fragCount (fw_fragDataSize fw) (bf_payload bf) \<le> 65535"
  shows "\<exists>s'. fragmentBEEF L fw bf ip g w s = Some s' \<and> fstate_ok fw s' \<and>
     counterOf (s_chains s') = (counterOf (s_chains s))(chain_key ip g zero32 :=
       counterOf (s_chains s) (chain_key ip g zero32) + of_nat (fragCount (fw_fragDataSize fw) (bf_payload bf))) \<and>
     s_txClaims s' = s_txClaims s \<and> s_beefClaims s' = s_beefClaims s \<and> s_limit s' = s_limit s \<and>
     adds (beefFragments L fw bf ip g (counterOf (s_chains s) (chain_key ip g zero32))) s s'"
proof -
  let ?k = "fragCount (fw_fragDataSize fw) (bf_payload bf)"
  let ?s1 = "emit fw (FrameFragmented w ?k) s"
  obtain as where a: "addrFor fw g ?s1 = (dst_of fw g, ?s1\<lparr>s_addrs := as\<rparr>)" "fstate_ok fw (?s1\<lparr>s_addrs := as\<rparr>)"
    using addrFor_ok [of fw ?s1 g] ok by auto
  let ?s2 = "?s1\<lparr>s_addrs := as\<rparr>" and ?fin = "\<lambda>d. Some (d[7 := bf_deliver bf])"
  obtain ch x where l: "fragLoop L ip g zero32 (beefHdr fw bf ?k) ?fin
        (\<lambda>d b. EnqueueDataPooled d (dst_of fw g) g w b) ?k ?s2 = Some (?s2\<lparr>s_chains := ch, s_egr := x\<rparr>)"
     "fstate_ok fw (?s2\<lparr>s_chains := ch, s_egr := x\<rparr>)"
     "counterOf ch = (counterOf (s_chains ?s2))(chain_key ip g zero32 :=
        counterOf (s_chains ?s2) (chain_key ip g zero32) + of_nat ?k)"
     "adds (concat (map (fragOut L fw (beefHdr fw bf ?k) (\<lambda>d. d[7 := bf_deliver bf]) (dst_of fw g)
         (seqhash_Hash L ip g zero32) (counterOf (s_chains ?s2) (chain_key ip g zero32))) [0..<?k]))
         ?s2 (?s2\<lparr>s_chains := ch, s_egr := x\<rparr>)"
    using data_sink.loop_effect [where fin = ?fin and fin' = "\<lambda>d. d[7 := bf_deliver bf]", OF a(2) frag refl]
    by blast
  have "fragmentBEEF L fw bf ip g w s = Some (?s2\<lparr>s_chains := ch, s_egr := x\<rparr>)"
    using frag k a(1) l(1) by (simp add: fragmentBEEF_def beefFragTotal_def)
  moreover have "adds (beefFragments L fw bf ip g (counterOf (s_chains s) (chain_key ip g zero32))) s
      (?s2\<lparr>s_chains := ch, s_egr := x\<rparr>)"
    using adds_left [OF l(4), of s] by (simp add: beefFragments_def Let_def frame_simps)
  ultimately show ?thesis using l(2,3) by (auto simp: frame_simps)
qed

lemma fragmentBEEF_overflow:
  assumes "0 < fw_fragDataSize fw" "fragCount (fw_fragDataSize fw) (bf_payload bf) > 65535"
  shows "fragmentBEEF L fw bf ip g w s = Some (emit fw (PacketDropped '''' w ''frag_overflow'') s)"
  using assms by (simp add: fragmentBEEF_def beefFragTotal_def)

lemma fragmentBEEF_total: "0 < fw_fragDataSize fw \<Longrightarrow> handler_total fw (fragmentBEEF L fw bf ip g w)"
  by (rule handler_totalI, cases "fragCount (fw_fragDataSize fw) (bf_payload bf) \<le> 65535")
    (use fragmentBEEF_effect fragmentBEEF_overflow emit_ok in \<open>fastforce simp: not_le\<close>)+

lemma processBEEF_total:
  assumes "lib_ok L" shows "handler_total fw (processBEEF L fw raw src w chk)"
proof (rule handler_totalI)
  fix s assume ok: "fstate_ok fw s"
  obtain s1 adm where c: "checkBEEF L fw raw src w chk s = Some (s1, adm)" "fstate_ok fw s1"
    "\<And>raw1 bf g. adm = Some (raw1, bf, g) \<Longrightarrow> 56 \<le> length raw1"
    using checkBEEF_effect [OF assms ok, of raw src w chk] by fastforce
  show "\<exists>s'. processBEEF L fw raw src w chk s = Some s' \<and> fstate_ok fw s'"
  proof (cases adm)
    case None
    then show ?thesis using c by (simp add: processBEEF_def)
  next
    case (Some t)
    obtain raw1 bf g where t: "t = (raw1, bf, g)" by (metis prod_cases3)
    have len: "56 \<le> length raw1" using c(3) Some t by simp
    have em: "\<exists>s'. emitBEEF fw r g w t = Some s' \<and> fstate_ok fw s'" if "fstate_ok fw t" for r t
      using emitBEEF_effect [OF that] by blast
    show ?thesis
    proof (cases src)
      case None
      then show ?thesis using c(1) Some t em [OF c(2)] by (simp add: processBEEF_def deliverBEEF_def)
    next
      case src: (Some a)
      obtain raw2 ch where st: "stamp L fw raw1 (addrToIPv6 a) g zero32 s1 = Some (raw2, s1\<lparr>s_chains := ch\<rparr>)"
        "fstate_ok fw (s1\<lparr>s_chains := ch\<rparr>)" using stamp_effect [OF c(2) len] by blast
      show ?thesis
        using c(1) Some t src st em [OF st(2)] handler_totalD [OF fragmentBEEF_total c(2)]
        by (simp add: processBEEF_def deliverBEEF_def)
    qed
  qed
qed

lemma meterBEEF_ok [simp]: "fstate_ok fw (meterBEEF fw p raw s) = fstate_ok fw s"
  by (simp add: meterBEEF_def)

lemma DispatchBEEF_total:
  assumes "lib_ok L" shows "handler_total fw (DispatchBEEF L fw po src w)"
proof (rule handler_totalI)
  fix s assume ok: "fstate_ok fw s"
  show "\<exists>s'. DispatchBEEF L fw po src w s = Some s' \<and> fstate_ok fw s'"
  proof (cases po)
    case None
    then show ?thesis using ok by (simp add: DispatchBEEF_def)
  next
    case (Some p)
    then show ?thesis
      using ok handler_totalD [OF processBEEF_total [OF assms], of fw "meterBEEF fw p (the (pb_frame p)) s" "the (pb_frame p)" src w False]
      by (cases "pb_frame p") (auto simp: DispatchBEEF_def)
  qed
qed


lemma fragInto_all:
  assumes "\<And>i n. alloc i n = n"
    and "\<And>i. i \<in> set is \<Longrightarrow> encodeBEEFFragment L fw
       (HeaderSizeV3 + min (fw_fragDataSize fw) (length (bf_payload (ad_bf a)) - i * fw_fragDataSize fw))
       (ad_bf a) i (ad_k a) (ad_hash a) (ad_first a + of_nat i) = Some (d i)"
  shows "fragInto L fw a alloc is out = Inr (out @ map d is)"
  using assms(2) by (induction "is" arbitrary: out) (simp_all add: assms(1))

lemma beef_fragment_bytes:
  assumes enc: "\<And>sz h. frame_EncodeFragment L sz h =
      (if HeaderSizeV3 + length (fr_data h) \<le> sz then Some (enc h) else None)"
    and frag: "0 < fw_fragDataSize fw" and k: "k = fragCount (fw_fragDataSize fw) (bf_payload bf)"
    and a: "ad_bf a = bf" "ad_k a = k" "ad_hash a = seqhash_Hash L ip g zero32" "ad_first a = cnt + 1"
    and alloc: "\<And>i n. alloc i n = n"
  shows "\<exists>ds. fragInto L fw a alloc [0..<k] [] = Inr ds \<and>
     beefFragments L fw bf ip g cnt = map (\<lambda>d. (d, dst_of fw g)) ds \<and>
     ds = map (\<lambda>i. (enc (beefHdr fw bf k i (ad_hash a) (cnt + 1 + of_nat i)))[7 := bf_deliver bf]) [0..<k]"
proof -
  let ?n = "fw_fragDataSize fw"
  let ?d = "\<lambda>i. (enc (beefHdr fw bf k i (ad_hash a) (cnt + 1 + of_nat i)))[7 := bf_deliver bf]"
  have len: "length (fr_data (beefHdr fw bf k i h q)) = min ?n (length (bf_payload bf) - i * ?n)" for i h q
    by (simp add: beefHdr_def fragHdr_def fragData_eq min.commute)
  have "fragInto L fw a alloc [0..<k] [] = Inr ([] @ map ?d [0..<k])"
    by (rule fragInto_all [OF alloc]) (simp add: a encodeBEEFFragment_def enc len add_ac)
  moreover have "beefFragments L fw bf ip g cnt = map (\<lambda>d. (d, dst_of fw g)) (map ?d [0..<k])"
  proof -
    have e: "frame_EncodeFragment L (HeaderSizeV3 + ?n) h = Some (enc h)" if "length (fr_data h) \<le> ?n" for h
      using that by (simp add: enc)
    show ?thesis
      using fragOut_encoded [where enc = enc, OF e frag k] a(3) k
      by (simp add: beefFragments_def beefHdr_def Let_def o_def)
  qed
  ultimately show ?thesis by (intro exI [of _ "map ?d [0..<k]"]) simp
qed

text \<open>The two continuations of a checked frame, side by side.\<close>

lemma reserve_matches_deliver:
  assumes ok: "fstate_ok fw s" and len: "56 \<le> length raw" and alloc: "\<And>i n. alloc i n = n"
    and enc: "\<And>sz h. frame_EncodeFragment L sz h =
      (if HeaderSizeV3 + length (fr_data h) \<le> sz then Some (enc h) else None)"
      "\<And>h. length (enc h) = HeaderSizeV3 + length (fr_data h)"
  shows "\<exists>sa ao sd. reserveBEEF L fw raw bf g src w s = Some (sa, ao) \<and>
     deliverBEEF L fw raw bf g src w s = Some sd \<and>
     counterOf (s_chains sd) = counterOf (s_chains sa) \<and>
     s_txClaims sd = s_txClaims s \<and> s_beefClaims sd = s_beefClaims s \<and> s_limit sd = s_limit s \<and>
     s_txClaims sa = s_txClaims s \<and> s_beefClaims sa = s_beefClaims s \<and> s_limit sa = s_limit s \<and>
     (case ao of
        None \<Rightarrow> adds [] s sd
      | Some a \<Rightarrow> \<exists>ds. fst (FragmentBEEFInto L fw ao alloc) = Inr ds \<and> length ds = Datagrams a \<and>
                       sum_list (map length ds) = admission_Bytes a \<and>
                       adds (map (\<lambda>d. (d, Dst a)) ds) s sd)"
proof -
  obtain as where a: "addrFor fw g s = (dst_of fw g, s\<lparr>s_addrs := as\<rparr>)" "fstate_ok fw (s\<lparr>s_addrs := as\<rparr>)"
    using addrFor_ok [OF ok] by blast
  consider (relay) "src = None"
    | (frag) x where "src = Some x" "0 < fw_fragDataSize fw" "length (bf_payload bf) > fw_fragDataSize fw"
    | (whole) x where "src = Some x" "\<not> (0 < fw_fragDataSize fw \<and> length (bf_payload bf) > fw_fragDataSize fw)"
    by (cases src) auto
  then show ?thesis
  proof cases
    case relay
    obtain as' x where em: "emitBEEF fw raw g w s = Some (s\<lparr>s_addrs := as', s_egr := x\<rparr>)"
      "adds [(raw, dst_of fw g)] s (s\<lparr>s_addrs := as', s_egr := x\<rparr>)" using emitBEEF_effect [OF ok] by blast
    then show ?thesis using relay a alloc
      by (simp add: reserveBEEF_def deliverBEEF_def FragmentBEEFInto_def Datagrams_def admission_Bytes_def Dst_def)
  next
    case whole
    let ?ip = "addrToIPv6 x" and ?s1 = "s\<lparr>s_addrs := as\<rparr>"
    let ?raw = "stamped L fw raw ?ip g zero32 (counterOf (s_chains s) (chain_key ?ip g zero32))"
    obtain ch where st: "stamp L fw raw ?ip g zero32 s = Some (?raw, s\<lparr>s_chains := ch\<rparr>)"
      "fstate_ok fw (s\<lparr>s_chains := ch\<rparr>)" using stamp_effect [OF ok len] by blast
    have st1: "stamp L fw raw ?ip g zero32 ?s1 = Some (?raw, ?s1\<lparr>s_chains := ch\<rparr>)"
      using st(1) by (auto simp: stamp_def split: bind_splits dest: arg_cong [where f = s_chains])
    have l2: "56 \<le> length ?raw" using len by (simp add: stamped_def with_stamp_length)
    obtain as' y where em: "emitBEEF fw ?raw g w (s\<lparr>s_chains := ch\<rparr>) = Some (s\<lparr>s_chains := ch, s_addrs := as', s_egr := y\<rparr>)"
      "adds [(?raw, dst_of fw g)] (s\<lparr>s_chains := ch\<rparr>) (s\<lparr>s_chains := ch, s_addrs := as', s_egr := y\<rparr>)"
      using emitBEEF_effect [OF st(2)] by blast
    have ad: "adds [(?raw, dst_of fw g)] s (s\<lparr>s_chains := ch, s_addrs := as', s_egr := y\<rparr>)"
      using adds_left [OF em(2), of s] by simp
    obtain h q where rd: "gslice 40 48 ?raw \<bind> BE_Uint64 = Some h" "gslice 48 56 ?raw \<bind> BE_Uint64 = Some q"
      using l2 by (simp add: gslice_ok BE_Uint64_def)
    have "reserveBEEF L fw raw bf g src w s = Some (?s1\<lparr>s_chains := ch\<rparr>, Some
      \<lparr>ad_raw = ?raw, ad_bf = bf, ad_ip = ?ip, ad_group = g, ad_dst = dst_of fw g,
        ad_hash = h, ad_first = q, ad_k = 0, ad_worker = w\<rparr>)"
      unfolding reserveBEEF_def Let_def whole(1) a(1) option.case prod.case if_not_P [OF whole(2)]
      by (simp add: st1 rd del: bind_assoc)
    moreover have "deliverBEEF L fw raw bf g src w s = Some (s\<lparr>s_chains := ch, s_addrs := as', s_egr := y\<rparr>)"
      unfolding deliverBEEF_def whole(1) option.case if_not_P [OF whole(2)] by (simp add: st(1) em(1))
    ultimately show ?thesis using ad
      by (simp add: FragmentBEEFInto_def Datagrams_def admission_Bytes_def Dst_def alloc)
  next
    case frag
    let ?ip = "addrToIPv6 x" and ?k = "fragCount (fw_fragDataSize fw) (bf_payload bf)"
    show ?thesis
    proof (cases "?k \<le> 65535")
      case False
      then show ?thesis using frag a
        by (simp add: reserveBEEF_def deliverBEEF_def fragmentBEEF_def beefFragTotal_def frame_simps adds_none)
    next
      case True
      have wf: "chains_wf (s_chains s)" using ok by (simp add: fstate_ok_def)
      let ?cnt = "counterOf (s_chains s) (chain_key ?ip g zero32)"
      obtain sd where sd: "fragmentBEEF L fw bf ?ip g w s = Some sd"
        "counterOf (s_chains sd) = (counterOf (s_chains s))(chain_key ?ip g zero32 := ?cnt + of_nat ?k)"
        "s_txClaims sd = s_txClaims s" "s_beefClaims sd = s_beefClaims s"
        "adds (beefFragments L fw bf ?ip g ?cnt) s sd" "s_limit sd = s_limit s"
        using fragmentBEEF_effect [OF ok frag(2) True] by blast
      define ad where "ad = \<lparr>ad_raw = raw, ad_bf = bf, ad_ip = ?ip, ad_group = g, ad_dst = dst_of fw g,
          ad_hash = seqhash_Hash L ?ip g zero32, ad_first = ?cnt + 1, ad_k = ?k, ad_worker = w\<rparr>"
      define ch where "ch = snd (reserveFirst (chain_key ?ip g zero32) ?k (s_chains s))"
      have ch: "counterOf ch = (counterOf (s_chains s))(chain_key ?ip g zero32 := ?cnt + of_nat ?k)"
        using reserve_counter(2) [OF wf] by (simp add: ch_def)
      have res: "reserveBEEF L fw raw bf g src w s = Some (s\<lparr>s_addrs := as, s_chains := ch\<rparr>, Some ad)"
        using frag True a(1) reserveSeq_eq [OF wf, of "seqhash_Hash L" ?ip g zero32 ?k]
        by (simp add: reserveBEEF_def beefFragTotal_def ad_def ch_def Let_def)
      obtain ds where ds: "fragInto L fw ad alloc [0..<?k] [] = Inr ds"
        "beefFragments L fw bf ?ip g ?cnt = map (\<lambda>d. (d, dst_of fw g)) ds"
        "ds = map (\<lambda>i. (enc (beefHdr fw bf ?k i (ad_hash ad) (?cnt + 1 + of_nat i)))[7 := bf_deliver bf]) [0..<?k]"
        using beef_fragment_bytes [where a = ad and bf = bf and ip = ?ip and g = g and cnt = ?cnt,
            OF enc(1) frag(2) refl _ _ _ _ alloc] by (auto simp: ad_def)
      have "0 < ?k" using fragCount_covers [OF frag(2), of "bf_payload bf"] frag(3)
        by (cases ?k) auto
      moreover have "sum_list (map length ds) = ?k * HeaderSizeV3 + length (bf_payload bf)"
      proof -
        have "map length ds = map (\<lambda>i. HeaderSizeV3 + length (fragData (fw_fragDataSize fw) (bf_payload bf) i)) [0..<?k]"
          unfolding ds(3) by (simp add: enc(2) beefHdr_def fragHdr_def)
        then have "sum_list (map length ds) = ?k * HeaderSizeV3 +
            length (concat (map (fragData (fw_fragDataSize fw) (bf_payload bf)) [0..<?k]))"
          by (simp add: sum_list_addf sum_list_triv length_concat o_def)
        then show ?thesis using fragData_concat [OF frag(2)] by simp
      qed
      moreover have "deliverBEEF L fw raw bf g src w s = Some sd" using frag sd(1) by (simp add: deliverBEEF_def)
      moreover have "length ds = ?k" unfolding ds(3) by simp
      ultimately show ?thesis using res sd ch ds(1,2)
        by (intro exI [of _ "s\<lparr>s_addrs := as, s_chains := ch\<rparr>"] exI [of _ "Some ad"] exI [of _ sd])
          (simp add: FragmentBEEFInto_def Datagrams_def admission_Bytes_def Dst_def ad_def)
    qed
  qed
qed

subsection \<open>Properties\<close>

text \<open>C12.  A BEEF frame burns no claim it has not earned: when \<^verbatim>\<open>checkBEEF\<close> makes a dedup claim or admits
  a frame, the frame decodes, names a topic, leads with the topic its record leads with, carries a
  BEEF object within the submitter's bound, was within its rate budget, and, when it came from
  outside ready-made, presents the content identifier of its own payload.\<close>

theorem beef_claims_are_earned:
  assumes "checkBEEF L fw raw src w chk s = Some (s', adm)"
    and "s_txClaims s' \<noteq> s_txClaims s \<or> s_beefClaims s' \<noteq> s_beefClaims s \<or> adm \<noteq> None"
  shows "\<exists>bf object topics. frame_DecodeBEEF L raw = Some bf \<and>
     objfmt_SplitBEEFPayload L (bf_payload bf) = Some (object, topics) \<and>
     bf_topicID bf \<noteq> zero32 \<and> (topics \<noteq> [] \<longrightarrow> bf_topicID bf = objfmt_TopicID L (hd topics)) \<and>
     objfmt_IsBEEFObject L object \<and>
     (0 < fw_beefMaxObject fw \<longrightarrow> int (length object) \<le> beefObjectBoundFor fw src) \<and>
     fst (chargeBEEF L src (length raw) s) = rateAllow \<and>
     (chk \<longrightarrow> src \<noteq> None \<longrightarrow> bf_contentID bf = objfmt_ContentID L (bf_payload bf))"
proof -
  have same: "s_txClaims (dropped fw w r t) = s_txClaims t" "s_beefClaims (dropped fw w r t) = s_beefClaims t"
    for r t by (simp_all add: dropped_def frame_simps)
  have "\<exists>pe bf object topics. fw_beefEngine fw = Some pe \<and> frame_DecodeBEEF L raw = Some bf \<and>
      objfmt_SplitBEEFPayload L (bf_payload bf) = Some (object, topics) \<and>
      beefConformance L fw src bf object topics = None"
    using assms by (auto simp: checkBEEF_def same split: option.splits)
  then obtain pe bf object topics where p: "fw_beefEngine fw = Some pe" "frame_DecodeBEEF L raw = Some bf"
    "objfmt_SplitBEEFPayload L (bf_payload bf) = Some (object, topics)"
    "beefConformance L fw src bf object topics = None" by blast
  obtain raw1 bf1 where sd: "setDeliver fw src topics raw bf = Some (raw1, bf1)"
    using assms(1) p by (cases "setDeliver fw src topics raw bf") (auto simp: checkBEEF_def)
  have sd': "length raw1 = length raw" "bf_contentID bf1 = bf_contentID bf" "bf_payload bf1 = bf_payload bf"
    using sd by (auto simp: setDeliver_def Let_def split: if_splits)
  obtain d s1 where ch: "chargeBEEF L src (length raw) s = (d, s1)" by fastforce
  have "checkBEEF L fw raw src w chk s = (if d \<noteq> rateAllow then Some (dropped fw w (rate_reason d) s1, None)
       else if chk \<and> src \<noteq> None \<and> bf_contentID bf \<noteq> objfmt_ContentID L (bf_payload bf)
       then Some (dropped fw w ''beef_bad_contentid'' s1, None)
       else case claimBEEFIngress fw (beefClaimKey (bf_contentID bf1) (bf_topicID bf1)) ''brc148''
                   (egrIface (s_egr s1)) w s1 of
              (won, s2) \<Rightarrow> if won then Some (s2, Some (raw1, bf1, pe (bf_topicID bf1))) else Some (s2, None))"
    using p sd sd' ch by (cases "src = None") (auto simp: checkBEEF_def)
  note run = this [unfolded assms(1)]
  have "d = rateAllow" "chk \<longrightarrow> src \<noteq> None \<longrightarrow> bf_contentID bf = objfmt_ContentID L (bf_payload bf)"
    using run assms(2) same chargeBEEF_frame(6,7) [OF ch] by (auto split: if_splits)
  moreover have "bf_topicID bf \<noteq> zero32" "topics \<noteq> [] \<longrightarrow> bf_topicID bf = objfmt_TopicID L (hd topics)"
    "objfmt_IsBEEFObject L object" "0 < fw_beefMaxObject fw \<longrightarrow> int (length object) \<le> beefObjectBoundFor fw src"
    using p(4) by (auto simp: beefConformance_def beefObjectBoundFor_def Let_def split: if_splits option.splits)
  ultimately show ?thesis using p ch by auto
qed

theorem beef_claims_are_earned_witness:
  "let fw = SetBEEF (\<lambda>t. 4096) 0 sampleFw; raw = replicate 92 1 @ [1, 2] in
   \<exists>bf object topics. frame_DecodeBEEF sampleLib raw = Some bf \<and>
     objfmt_SplitBEEFPayload sampleLib (bf_payload bf) = Some (object, topics) \<and> bf_topicID bf \<noteq> zero32"
proof -
  let ?fw = "SetBEEF (\<lambda>t. 4096) 0 sampleFw" and ?raw = "replicate 92 1 @ [1, 2] :: bytes"
  have "zeros 32 \<noteq> replicate 32 (1 :: byte)" by (simp add: eval_nat_numeral)
  moreover have "s_limit (sampleState ?fw) = None" by (simp add: sampleState_def newState_def)
  ultimately have "\<exists>s' t. checkBEEF sampleLib ?fw ?raw None 0 True (sampleState ?fw) = Some (s', Some t)"
    by (simp add: checkBEEF_def SetBEEF_def sample_defs beefConformance_def setDeliver_def chargeBEEF_def
        claimBEEFIngress_def claimIngress_def claimIngressIn_def)
  then obtain s' t where r: "checkBEEF sampleLib ?fw ?raw None 0 True (sampleState ?fw) = Some (s', Some t)"
    by blast
  show ?thesis unfolding Let_def using beef_claims_are_earned [OF r] by auto
qed


text \<open>C22.  The publisher never chooses its fan-out: a frame that entered from a source carries, in byte 7
  and in the decoded field, the policy's DeliverCount clamped between one and its number of topics;
  without a policy it is one, whatever the frame presented.  Nothing else of the frame changes.\<close>

theorem beef_deliver_count_is_ours:
  assumes "checkBEEF L fw raw (Some a) w chk s = Some (s', Some (raw', bf, g))"
    and "frame_DecodeBEEF L raw = Some bf0"
    and "objfmt_SplitBEEFPayload L (bf_payload bf0) = Some (object, topics)" "length topics \<le> 255"
    and "n = (if topics = [] then 1 else int (length topics))"
  shows "raw' = raw[7 := bf_deliver bf] \<and> bf = bf0\<lparr>bf_deliver := bf_deliver bf\<rparr> \<and>
     int (unat (bf_deliver bf)) = beefDeliverCount fw (Some a) n \<and>
     1 \<le> unat (bf_deliver bf) \<and> int (unat (bf_deliver bf)) \<le> n \<and>
     (fw_beefPolicy fw = None \<longrightarrow> bf_deliver bf = 1)"
proof -
  have sd: "setDeliver fw (Some a) topics raw bf0 = Some (raw', bf)"
    using assms(1-3) by (auto simp: checkBEEF_def split: option.splits prod.splits if_splits bind_splits)
  let ?c = "beefDeliverCount fw (Some a) n"
  have e: "raw' = raw[7 := of_int ?c]" "bf = bf0\<lparr>bf_deliver := of_int ?c\<rparr>"
    using sd assms(5) by (auto simp: setDeliver_def Let_def split: if_splits)
  have n: "1 \<le> n" "n \<le> 255" using assms(4,5) by (cases topics; auto)+
  note b = beefDeliverCount_bounds [OF n(1), of fw "Some a"]
  have "uint (of_int ?c :: byte) = ?c"
    using b(1,2) n(2) by (simp add: uint_word_of_int take_bit_int_eq_self)
  then have u: "int (unat (bf_deliver bf)) = ?c" using e(2) by simp
  then have "1 \<le> unat (bf_deliver bf)" using b(1) by linarith
  then show ?thesis using e b u by auto
qed

theorem beef_deliver_count_is_ours_witness:
  "let fw = SetBEEF (\<lambda>t. 4096) 0 sampleFw; raw = replicate 92 1 @ [1, 2] in
   \<exists>s' raw' bf g. checkBEEF sampleLib fw raw (Some sampleSrc) 0 False (sampleState fw) = Some (s', Some (raw', bf, g)) \<and>
     bf_deliver bf = 1"
proof -
  let ?fw = "SetBEEF (\<lambda>t. 4096) 0 sampleFw" and ?raw = "replicate 92 1 @ [1, 2] :: bytes"
  have z: "zeros 32 \<noteq> replicate 32 (1 :: byte)" by (simp add: eval_nat_numeral)
  have l: "s_limit (sampleState ?fw) = None" by (simp add: sampleState_def newState_def)
  have "\<exists>s' raw' bf g. checkBEEF sampleLib ?fw ?raw (Some sampleSrc) 0 False (sampleState ?fw) =
      Some (s', Some (raw', bf, g))"
    using z l
    by (simp add: checkBEEF_def SetBEEF_def sample_defs beefConformance_def setDeliver_def chargeBEEF_def
        claimBEEFIngress_def claimIngress_def claimIngressIn_def Let_def)
  then obtain s' raw' bf g where r: "checkBEEF sampleLib ?fw ?raw (Some sampleSrc) 0 False (sampleState ?fw) =
      Some (s', Some (raw', bf, g))" by blast
  obtain bf0 where d: "frame_DecodeBEEF sampleLib ?raw = Some bf0" by (simp add: sampleLib_def)
  have sp: "objfmt_SplitBEEFPayload sampleLib (bf_payload bf0) = Some (bf_payload bf0, [])"
    by (simp add: sampleLib_def)
  have "fw_beefPolicy ?fw = None" by (simp add: SetBEEF_def sampleFw_def New_def)
  then show ?thesis unfolding Let_def
    using r beef_deliver_count_is_ours [OF r d sp _ refl] by auto
qed

text \<open>C4.  Admitting apart from fragmenting is the in-line path: \<^verbatim>\<open>AdmitBEEF\<close> followed by
  \<^verbatim>\<open>FragmentBEEFInto\<close>, on whatever goroutine, builds byte for byte the datagrams \<^verbatim>\<open>DispatchBEEF\<close> queues,
  to the same address, as many and as long as \<^verbatim>\<open>Datagrams\<close> and \<^verbatim>\<open>Bytes\<close> announced, and leaves the same
  flow counters, dedup claims and rate budgets.\<close>

theorem AdmitBEEF_is_DispatchBEEF:
  assumes lib: "lib_ok L" and ok: "fstate_ok fw s" and alloc: "\<And>i n. alloc i n = n"
    and enc: "\<And>sz h. frame_EncodeFragment L sz h =
      (if HeaderSizeV3 + length (fr_data h) \<le> sz then Some (enc h) else None)"
      "\<And>h. length (enc h) = HeaderSizeV3 + length (fr_data h)"
    and adm: "AdmitBEEF L fw po src w s = Some (sa, ao)"
  shows "\<exists>sd. DispatchBEEF L fw po src w s = Some sd \<and>
     counterOf (s_chains sd) = counterOf (s_chains sa) \<and> s_txClaims sd = s_txClaims sa \<and>
     s_beefClaims sd = s_beefClaims sa \<and> s_limit sd = s_limit sa \<and>
     (case ao of
        None \<Rightarrow> adds [] s sd
      | Some a \<Rightarrow> \<exists>ds. fst (FragmentBEEFInto L fw ao alloc) = Inr ds \<and> length ds = Datagrams a \<and>
                       sum_list (map length ds) = admission_Bytes a \<and>
                       adds (map (\<lambda>d. (d, Dst a)) ds) s sd)"
proof (cases "\<exists>p raw. po = Some p \<and> pb_frame p = Some raw")
  case False
  then show ?thesis using adm
    by (cases po; cases "pb_frame (the po)")
      (auto simp: AdmitBEEF_def DispatchBEEF_def frame_simps intro: adds_none)
next
  case True
  then obtain p raw where p: "po = Some p" "pb_frame p = Some raw" by blast
  let ?s0 = "meterBEEF fw p raw s"
  have ok0: "fstate_ok fw ?s0" and e0: "s_egr ?s0 = s_egr s" using ok by (simp_all add: meterBEEF_def frame_simps)
  obtain s2 c where c: "checkBEEF L fw raw src w False ?s0 = Some (s2, c)" "fstate_ok fw s2" "s_egr s2 = s_egr s"
    "\<And>raw1 bf g. c = Some (raw1, bf, g) \<Longrightarrow> 56 \<le> length raw1"
    using checkBEEF_effect [OF lib ok0, of raw src w False] e0 by auto
  show ?thesis
  proof (cases c)
    case None
    then show ?thesis using adm p c
      by (auto simp: AdmitBEEF_def DispatchBEEF_def processBEEF_def frame_simps intro: adds_none)
  next
    case (Some t)
    obtain raw1 bf g where t: "t = (raw1, bf, g)" by (cases t) auto
    from reserve_matches_deliver [where alloc = alloc and enc = enc and bf = bf and g = g and src = src and w = w,
        OF c(2) c(4) [OF Some [unfolded t]] alloc enc]
    obtain sa' ao' sd where m: "reserveBEEF L fw raw1 bf g src w s2 = Some (sa', ao')"
      "deliverBEEF L fw raw1 bf g src w s2 = Some sd"
      "counterOf (s_chains sd) = counterOf (s_chains sa')"
      "s_txClaims sd = s_txClaims sa'" "s_beefClaims sd = s_beefClaims sa'" "s_limit sd = s_limit sa'"
      "case ao' of None \<Rightarrow> adds [] s2 sd
       | Some a \<Rightarrow> \<exists>ds. fst (FragmentBEEFInto L fw ao' alloc) = Inr ds \<and> length ds = Datagrams a \<and>
                       sum_list (map length ds) = admission_Bytes a \<and> adds (map (\<lambda>d. (d, Dst a)) ds) s2 sd"
      by force
    have ao: "ao = ao'" "sa = emit fw (BEEFSubmission (pb_result p)) sa'"
      using adm p c(1) Some t m(1) by (auto simp: AdmitBEEF_def)
    have "DispatchBEEF L fw po src w s = Some (emit fw (BEEFSubmission (pb_result p)) sd)"
      using p c(1) Some t m(2) by (simp add: DispatchBEEF_def processBEEF_def)
    moreover have "adds ds s (emit fw (BEEFSubmission (pb_result p)) sd)" if "adds ds s2 sd" for ds
      using adds_right [OF adds_left [OF that, of s]] c(3) by (simp add: frame_simps)
    ultimately show ?thesis using m(3-7) ao by (auto simp: frame_simps split: option.splits)
  qed
qed


theorem AdmitBEEF_is_DispatchBEEF_witness:
  "let fw = SetFragMTU (int ipv6UDPOverhead + 1) (SetBEEF (\<lambda>t. 4096) 0 sampleFw); s = sampleState fw;
       po = Some \<lparr>pb_frame = Some (replicate 92 1 @ [1, 2]), pb_result = ''ok'', pb_topics = 1, pb_deliver = 1\<rparr> in
   \<exists>sa a sd ds. AdmitBEEF sampleLib fw po (Some sampleSrc) 0 s = Some (sa, Some a) \<and>
     fst (FragmentBEEFInto sampleLib fw (Some a) (\<lambda>i n. n)) = Inr ds \<and> length ds = 2 \<and>
     DispatchBEEF sampleLib fw po (Some sampleSrc) 0 s = Some sd \<and> adds (map (\<lambda>d. (d, Dst a)) ds) s sd"
proof -
  let ?fw = "SetFragMTU (int ipv6UDPOverhead + 1) (SetBEEF (\<lambda>t. 4096) 0 sampleFw)"
  let ?raw = "replicate 92 1 @ [1, 2] :: bytes"
  let ?p = "\<lparr>pb_frame = Some ?raw, pb_result = ''ok'', pb_topics = 1, pb_deliver = 1\<rparr>"
  let ?s = "sampleState ?fw" and ?enc = "\<lambda>h. zeros HeaderSizeV3 @ fr_data h"
  have z: "zeros 32 \<noteq> replicate 32 (1 :: byte)" by (simp add: eval_nat_numeral)
  have l: "s_limit (meterBEEF ?fw ?p ?raw ?s) = None"
    by (simp add: meterBEEF_def frame_simps sampleState_def newState_def)
  have fd: "fw_fragDataSize ?fw = 1" by (simp add: SetFragMTU_def)
  have "\<exists>s2 raw1 bf g. checkBEEF sampleLib ?fw ?raw (Some sampleSrc) 0 False (meterBEEF ?fw ?p ?raw ?s) =
      Some (s2, Some (raw1, bf, g)) \<and> length (bf_payload bf) = 2"
    using z l
    by (simp add: checkBEEF_def SetBEEF_def SetFragMTU_def sample_defs beefConformance_def setDeliver_def chargeBEEF_def
        claimBEEFIngress_def claimIngress_def claimIngressIn_def Let_def)
  then obtain s2 raw1 bf g where c: "checkBEEF sampleLib ?fw ?raw (Some sampleSrc) 0 False (meterBEEF ?fw ?p ?raw ?s) =
      Some (s2, Some (raw1, bf, g))" "length (bf_payload bf) = 2" by blast
  have "\<exists>sa a. reserveBEEF sampleLib ?fw raw1 bf g (Some sampleSrc) 0 s2 = Some (sa, Some a) \<and> ad_k a = 2"
    using c(2) by (auto simp: reserveBEEF_def beefFragTotal_def fd fragCount_def Let_def split: prod.splits)
  then obtain sa a where r: "reserveBEEF sampleLib ?fw raw1 bf g (Some sampleSrc) 0 s2 = Some (sa, Some a)" "ad_k a = 2"
    by blast
  obtain sa' where ad: "AdmitBEEF sampleLib ?fw (Some ?p) (Some sampleSrc) 0 ?s = Some (sa', Some a)"
    using c r by (simp add: AdmitBEEF_def)
  have e: "\<And>sz h. frame_EncodeFragment sampleLib sz h =
      (if HeaderSizeV3 + length (fr_data h) \<le> sz then Some (?enc h) else None)"
    "\<And>h. length (?enc h) = HeaderSizeV3 + length (fr_data h)"
    by (simp_all add: sampleLib_def sampleEncode_def)
  show ?thesis unfolding Let_def
    using AdmitBEEF_is_DispatchBEEF [where alloc = "\<lambda>i n. n", OF sample_lib_ok sample_state_ok refl e ad] ad r(2)
    by (auto simp: Datagrams_def)
qed

end
