(* ===== verification/Dispatch.thy ===== *)
theory Dispatch
  imports Beef
begin

text \<open>
  Routing of one ingress datagram (\<^verbatim>\<open>forwarder.go\<close>, \<^verbatim>\<open>IngressClass\<close> to \<^verbatim>\<open>rejectPrivileged\<close>):
  which \<^verbatim>\<open>Process\<close> entry a datagram reaches, by its leading magic, its frame version and the
  class of the socket it arrived on.  The contract every ingress handler satisfies, a total
  step that keeps the state of the forwarder valid, is the locale \<open>ingress_handler\<close>; it is
  interpreted on the three entries the sockets call.
\<close>

subsection \<open>Operations\<close>

datatype (plugins only: code size) IngressClass = IngressPrivileged | IngressTransaction | IngressBEEF

definition framed :: "bytes \<Rightarrow> bool" where
  "framed raw \<longleftrightarrow> \<not> (length raw < 4 \<or> BE_Uint32 (take 4 raw) \<noteq> Some MagicBSV)"

definition is_record :: "bytes \<Rightarrow> bool" where
  "is_record raw \<longleftrightarrow> 2 \<le> length raw \<and> BE_Uint16 (take 2 raw) = Some BEEFRecordTag"

text \<open>\<^verbatim>\<open>n > 6 && raw[6] == v\<close>.\<close>

definition has_version :: "byte \<Rightarrow> bytes \<Rightarrow> bool" where
  "has_version v raw \<longleftrightarrow> 6 < length raw \<and> raw ! 6 = v"

definition rejectedFrameType :: "bytes \<Rightarrow> string" where
  "rejectedFrameType raw =
     (if has_version FrameVerV4 raw
      then if 7 < length raw \<and> raw ! 7 = BlockMsgCoinbase then ''brc133'' else ''brc131''
      else ''brc132'')"

definition rejectPrivileged :: "Forwarder \<Rightarrow> bytes \<Rightarrow> fstate \<Rightarrow> fstate" where
  "rejectPrivileged fw raw s = emit fw (PrivilegedFrameRejected (rejectedFrameType raw)) s"

definition dispatchBareTx ::
  "lib \<Rightarrow> Forwarder \<Rightarrow> bytes \<Rightarrow> net_addr option \<Rightarrow> int \<Rightarrow> fstate \<Rightarrow> fstate option" where
  "dispatchBareTx L fw tx src workerID s =
     (case objfmt_TxSize L tx of
        None \<Rightarrow> Some (dropped fw workerID ''bare_tx_malformed'' s)
      | Some sz \<Rightarrow>
          if sz \<noteq> length tx then Some (dropped fw workerID ''bare_tx_malformed'' s)
          else if fw_requireEF fw \<and> \<not> objfmt_IsEF L tx then Some (dropped fw workerID ''bare_tx_not_ef'' s)
          else case objfmt_MulticastBytes L ClassTx tx of
                 None \<Rightarrow> Some (dropped fw workerID ''bare_tx_reframe'' s)
               | Some raw \<Rightarrow>
                   process L fw raw src workerID False
                     (emit fw (IngressMetered IngressClassTx False (length tx)) s))"

definition DispatchBareTx ::
  "lib \<Rightarrow> Forwarder \<Rightarrow> bytes \<Rightarrow> net_addr option \<Rightarrow> int \<Rightarrow> fstate \<Rightarrow> fstate option" where
  "DispatchBareTx L fw tx src workerID s = dispatchBareTx L fw tx src workerID s"

definition DispatchClass ::
  "lib \<Rightarrow> Forwarder \<Rightarrow> bytes \<Rightarrow> net_addr option \<Rightarrow> int \<Rightarrow> IngressClass \<Rightarrow> fstate \<Rightarrow> fstate option" where
  "DispatchClass L fw raw src workerID cls s =
     (if \<not> framed raw then
        if is_record raw then SubmitBEEF L fw raw src workerID s
        else if cls = IngressBEEF then Some (rejectOnBEEFLane fw workerID s)
        else dispatchBareTx L fw raw src workerID s
      else
        let n = length raw;
            privileged = (cls = IngressPrivileged);
            metered = (\<lambda>c. emit fw (IngressMetered c privileged n) s)
        in
        if has_version FrameVerV4 raw then
          if \<not> privileged then Some (rejectPrivileged fw raw s)
          else ProcessBlock L fw raw src workerID
                 (metered (if n > 7 \<and> raw ! 7 = BlockMsgCoinbase then IngressClassCoinbase
                           else IngressClassBlock))
        else if has_version FrameVerV5 raw then
          if \<not> privileged then Some (rejectPrivileged fw raw s)
          else ProcessSubtreeData L fw raw src workerID (metered IngressClassSubtree)
        else if has_version FrameVerV6 raw then
          if cls = IngressBEEF then Some (rejectOnBEEFLane fw workerID s)
          else ProcessAnchor L fw raw src workerID (metered IngressClassAnchor)
        else if has_version FrameVerV9 raw then
          ProcessBEEF L fw raw src workerID (metered IngressClassBEEF)
        else if has_version FrameVerV8 raw then
          if cls = IngressBEEF then Some (rejectOnBEEFLane fw workerID s)
          else ProcessBundle fw raw workerID (metered IngressClassTx)
        else if cls = IngressBEEF then Some (rejectOnBEEFLane fw workerID s)
        else Process L fw raw src workerID (metered IngressClassTx))"

definition Dispatch_any ::
  "lib \<Rightarrow> Forwarder \<Rightarrow> bytes \<Rightarrow> net_addr option \<Rightarrow> int \<Rightarrow> fstate \<Rightarrow> fstate option" where
  "Dispatch_any L fw raw src workerID s = DispatchClass L fw raw src workerID IngressPrivileged s"

subsection \<open>The handlers' contract\<close>

text \<open>What a receive loop relies on: over a library that keeps \<^const>\<open>lib_ok\<close>, the handler of one input returns from every valid state, in
  a valid state.  Then so does a run over any inputs.\<close>

locale ingress_handler =
  fixes L :: lib and fw :: Forwarder and h :: "'a \<Rightarrow> fstate \<Rightarrow> fstate option"
  assumes total: "lib_ok L \<Longrightarrow> handler_total fw (h x)"
begin

lemma returns: "lib_ok L \<Longrightarrow> fstate_ok fw s \<Longrightarrow> \<exists>s'. h x s = Some s' \<and> fstate_ok fw s'"
  by (rule handler_totalD [OF total])

lemma run_returns: "lib_ok L \<Longrightarrow> fstate_ok fw s \<Longrightarrow> \<exists>s'. fold_opt h xs s = Some s' \<and> fstate_ok fw s'"
  using returns by (intro fold_opt_total) blast+

end

lemma handler_total_emit:
  assumes "handler_total fw h" shows "handler_total fw (\<lambda>s. h (emit fw (ev s) s))"
  by (rule handler_totalI) (use handler_totalD [OF assms] in simp)

lemma handler_total_Some:
  assumes "\<And>s. fstate_ok fw s \<Longrightarrow> fstate_ok fw (f s)" shows "handler_total fw (\<lambda>s. Some (f s))"
  by (rule handler_totalI) (use assms in simp)

lemma handler_total_reject:
  "handler_total fw (\<lambda>s. Some (rejectPrivileged fw raw s))"
  "handler_total fw (\<lambda>s. Some (rejectOnBEEFLane fw w s))"
  "handler_total fw (\<lambda>s. Some (dropped fw w r s))"
  by (auto intro!: handler_total_Some simp: rejectPrivileged_def rejectOnBEEFLane_def dropped_def)

lemma dispatchBareTx_total:
  assumes "lib_ok L" shows "handler_total fw (dispatchBareTx L fw tx src w)"
proof -
  have t: "handler_total fw (\<lambda>s. process L fw raw src w False (emit fw ev s))" for raw ev
    by (rule handler_total_emit [OF process_total [OF assms]])
  show ?thesis
    by (rule handler_totalI)
      (use handler_totalD [OF t] handler_totalD [OF handler_total_reject(3)] in
        \<open>simp add: dispatchBareTx_def split: option.split\<close>)
qed

lemma SubmitBEEF_total:
  assumes "lib_ok L" shows "handler_total fw (SubmitBEEF L fw rec src w)"
  using DispatchBEEF_total [OF assms] by (simp add: SubmitBEEF_def [abs_def])

lemma DispatchClass_total:
  assumes "lib_ok L" shows "handler_total fw (DispatchClass L fw raw src w cls)"
proof -
  note h = process_total [OF assms] ProcessBlock_total [OF assms] ProcessAnchor_total [OF assms]
    ProcessSubtreeData_total [OF assms] ProcessBundle_total processBEEF_total [OF assms]
  have t: "handler_total fw (\<lambda>s. ProcessBlock L fw raw src w (emit fw ev s))"
    "handler_total fw (\<lambda>s. ProcessSubtreeData L fw raw src w (emit fw ev s))"
    "handler_total fw (\<lambda>s. ProcessAnchor L fw raw src w (emit fw ev s))"
    "handler_total fw (\<lambda>s. ProcessBEEF L fw raw src w (emit fw ev s))"
    "handler_total fw (\<lambda>s. ProcessBundle fw raw w (emit fw ev s))"
    "handler_total fw (\<lambda>s. Process L fw raw src w (emit fw ev s))" for ev
    unfolding ProcessBEEF_def Process_def by (intro handler_total_emit h)+
  show ?thesis
    by (rule handler_totalI)
      (use t [THEN handler_totalD] handler_total_reject [THEN handler_totalD]
         SubmitBEEF_total [OF assms, THEN handler_totalD] dispatchBareTx_total [OF assms, THEN handler_totalD] in
        \<open>simp add: DispatchClass_def Let_def\<close>)
qed

text \<open>One arrival at a socket: the datagram, its source, the worker and the class of the socket.\<close>

record arrival =
  a_raw :: bytes
  a_src :: "net_addr option"
  a_worker :: int
  a_class :: IngressClass

definition arrive :: "lib \<Rightarrow> Forwarder \<Rightarrow> arrival \<Rightarrow> fstate \<Rightarrow> fstate option" where
  "arrive L fw a s = DispatchClass L fw (a_raw a) (a_src a) (a_worker a) (a_class a) s"

interpretation classed: ingress_handler L fw "arrive L fw" for L fw
  by unfold_locales (simp add: arrive_def [abs_def] DispatchClass_total)

interpretation bare: ingress_handler L fw "\<lambda>tx. DispatchBareTx L fw tx src w" for L fw src w
  by unfold_locales (simp add: DispatchBareTx_def [abs_def] dispatchBareTx_total)

interpretation prepared: ingress_handler L fw "\<lambda>p. DispatchBEEF L fw p src w" for L fw src w
  by unfold_locales (simp add: DispatchBEEF_total)


subsection \<open>Properties\<close>

text \<open>C1.  No input stops the proxy: after any sequence of datagrams, of any content, from any
  source, on sockets of any class and by any workers, every dispatch has returned (no index out
  of range, no nil dereference, no loop that does not end) and the forwarder's state is valid.\<close>

theorem arrivals_never_panic:
  assumes "lib_ok L" "fstate_ok fw s"
  shows "\<exists>s'. fold_opt (arrive L fw) as s = Some s' \<and> fstate_ok fw s'"
  using assms by (rule classed.run_returns)

theorem arrivals_never_panic_witness:
  "lib_ok sampleLib \<and> fstate_ok sampleFw (sampleState sampleFw) \<and>
   (\<exists>s'. fold_opt (arrive sampleLib sampleFw)
      [\<lparr>a_raw = [], a_src = None, a_worker = 0, a_class = IngressTransaction\<rparr>,
       \<lparr>a_raw = [0xE3, 0xE1, 0xF3, 0xE8, 0, 0, 4], a_src = Some sampleSrc, a_worker = 0, a_class = IngressPrivileged\<rparr>]
      (sampleState sampleFw) = Some s' \<and> fstate_ok sampleFw s')"
  using arrivals_never_panic [OF sample_lib_ok sample_state_ok] sample_lib_ok sample_state_ok by blast

text \<open>What a class of socket refuses: block and subtree-data frames anywhere but on a privileged
  socket, and everything that is not BEEF on the BEEF lane.\<close>

definition refused :: "IngressClass \<Rightarrow> bytes \<Rightarrow> bool" where
  "refused cls raw \<longleftrightarrow>
     (case cls of
        IngressPrivileged \<Rightarrow> False
      | IngressTransaction \<Rightarrow> framed raw \<and> (has_version FrameVerV4 raw \<or> has_version FrameVerV5 raw)
      | IngressBEEF \<Rightarrow> if framed raw then \<not> has_version FrameVerV9 raw else \<not> is_record raw)"

definition refusal :: "IngressClass \<Rightarrow> bytes \<Rightarrow> int \<Rightarrow> fstate \<Rightarrow> event" where
  "refusal cls raw w s =
     (if framed raw \<and> (has_version FrameVerV4 raw \<or> has_version FrameVerV5 raw)
      then PrivilegedFrameRejected (rejectedFrameType raw)
      else PacketDropped (egrIface (s_egr s)) w ''non_beef_on_beef_lane'')"

lemma class_refusal:
  assumes "refused cls raw"
  shows "DispatchClass L fw raw src w cls s =
     Some (if fw_rec fw then s\<lparr>s_ev := s_ev s @ [refusal cls raw w s]\<rparr> else s)"
  using assms
  by (cases cls)
    (auto simp: refused_def refusal_def DispatchClass_def rejectPrivileged_def rejectOnBEEFLane_def
      dropped_def emit_def has_version_def wire_consts Let_def split: if_splits)

text \<open>C13.  The class gate: what a socket's class refuses has no effect but the one metric that
  names the refusal.  No datagram is queued, no sequence number used, no dedup entry claimed and
  no rate budget charged, whatever the frame says and whoever sent it.\<close>

theorem class_gate:
  assumes "refused cls raw"
  shows "DispatchClass L fw raw src w cls s =
     Some (if fw_rec fw then s\<lparr>s_ev := s_ev s @ [refusal cls raw w s]\<rparr> else s)"
  using assms by (rule class_refusal)

theorem class_gate_witness:
  "refused IngressTransaction [0xE3, 0xE1, 0xF3, 0xE8, 0, 0, 4, 2] \<and>
   DispatchClass sampleLib sampleFw [0xE3, 0xE1, 0xF3, 0xE8, 0, 0, 4, 2] (Some sampleSrc) 3 IngressTransaction
     (sampleState sampleFw) =
     Some ((sampleState sampleFw)\<lparr>s_ev := [PrivilegedFrameRejected ''brc133'']\<rparr>)"
proof -
  let ?raw = "[0xE3, 0xE1, 0xF3, 0xE8, 0, 0, 4, 2] :: bytes"
  have f: "framed ?raw" by (simp add: framed_def BE_Uint32_def MagicBSV_def be_nat_def)
  have v: "has_version FrameVerV4 ?raw" "refused IngressTransaction ?raw"
    using f by (simp_all add: has_version_def FrameVerV4_def refused_def)
  have "refusal IngressTransaction ?raw 3 s = PrivilegedFrameRejected ''brc133''" for s
    using f v by (simp add: refusal_def rejectedFrameType_def BlockMsgCoinbase_def)
  then show ?thesis using class_gate [OF v(2), of sampleLib sampleFw "Some sampleSrc" 3] v(2)
    by (simp add: sampleFw_def New_def sampleState_def newState_def)
qed

text \<open>C21.  Submitting a transaction bare or framed is the same thing.  Where the fabric's encoder
  frames the transaction under its own id, the bare submission and the framed datagram both run
  the transaction path on that frame, every gate included, after the same metric; skipping
  the payload check on the bare path skips nothing that could have failed.\<close>

theorem bare_submission_is_framed:
  assumes "objfmt_TxSize L tx = Some (length tx)" "fw_requireEF fw \<Longrightarrow> objfmt_IsEF L tx"
    and "objfmt_MulticastBytes L ClassTx tx = Some raw" "framed raw" "has_version FrameVerV2 raw"
    and "frame_Decode L raw = Some f" "f_version f = FrameVerV2" "f_payload f = tx"
      "objfmt_TxID L tx = Some (f_txid f)"
  shows "DispatchBareTx L fw tx src w s =
      process L fw raw src w (fw_verifyPayloadHash fw) (emit fw (IngressMetered IngressClassTx False (length tx)) s) \<and>
    DispatchClass L fw raw src w IngressTransaction s =
      process L fw raw src w (fw_verifyPayloadHash fw) (emit fw (IngressMetered IngressClassTx False (length raw)) s)"
proof -
  have "processGate L fw True f = processGate L fw False f"
    using assms by (auto simp: processGate_def)
  then have "process L fw raw src w False s = process L fw raw src w (fw_verifyPayloadHash fw) s" for s
    by (cases "fw_verifyPayloadHash fw") (simp_all add: process_def assms(6))
  then have "DispatchBareTx L fw tx src w s =
      process L fw raw src w (fw_verifyPayloadHash fw) (emit fw (IngressMetered IngressClassTx False (length tx)) s)"
    using assms(1-3) by (auto simp: DispatchBareTx_def dispatchBareTx_def)
  moreover have "DispatchClass L fw raw src w IngressTransaction s =
      process L fw raw src w (fw_verifyPayloadHash fw) (emit fw (IngressMetered IngressClassTx False (length raw)) s)"
    using assms(4,5) by (simp add: DispatchClass_def Process_def has_version_def wire_consts Let_def)
  ultimately show ?thesis by simp
qed

theorem bare_submission_is_framed_witness:
  "let hdr = [0xE3, 0xE1, 0xF3, 0xE8, 0, 0, 2] @ zeros 85 :: bytes;
       L = sampleLib\<lparr>objfmt_MulticastBytes := (\<lambda>c p. Some (hdr @ p))\<rparr>; s = sampleState sampleFw in
   DispatchBareTx L sampleFw [1, 2, 3] (Some sampleSrc) 0 s =
     process L sampleFw (hdr @ [1, 2, 3]) (Some sampleSrc) 0 False (emit sampleFw (IngressMetered IngressClassTx False 3) s) \<and>
   DispatchClass L sampleFw (hdr @ [1, 2, 3]) (Some sampleSrc) 0 IngressTransaction s =
     process L sampleFw (hdr @ [1, 2, 3]) (Some sampleSrc) 0 False (emit sampleFw (IngressMetered IngressClassTx False 95) s)"
proof -
  let ?h = "[0xE3, 0xE1, 0xF3, 0xE8, 0, 0, 2] @ zeros 85 :: bytes"
  let ?L = "sampleLib\<lparr>objfmt_MulticastBytes := (\<lambda>c p. Some (?h @ p))\<rparr>" and ?tx = "[1, 2, 3] :: bytes"
  have fr: "framed (?h @ ?tx)" "has_version FrameVerV2 (?h @ ?tx)"
    by (simp_all add: framed_def BE_Uint32_def MagicBSV_def be_nat_def has_version_def FrameVerV2_def)
  have tid: "take 32 (drop 8 (?h @ ?tx)) = zeros 32" by (simp add: eval_nat_numeral)
  obtain f where f: "frame_Decode ?L (?h @ ?tx) = Some f" "f_version f = FrameVerV2" "f_payload f = ?tx"
    "f_txid f = zeros 32"
    using tid by (simp add: sampleLib_def sampleDecode_def FrameVerV2_def)
  have lib: "objfmt_TxSize ?L ?tx = Some (length ?tx)" "objfmt_IsEF ?L ?tx"
    "objfmt_MulticastBytes ?L ClassTx ?tx = Some (?h @ ?tx)" "objfmt_TxID ?L ?tx = Some (f_txid f)"
    using f(4) by (simp_all add: sampleLib_def)
  have e: "fw_verifyPayloadHash sampleFw = False" "length ?tx = 3" "length (?h @ ?tx) = 95"
    by (simp_all add: sampleFw_def New_def)
  show ?thesis unfolding Let_def
    by (rule bare_submission_is_framed [OF lib(1,2,3) fr f(1-3) lib(4), of sampleFw "Some sampleSrc" 0
        "sampleState sampleFw", unfolded e])
qed

end
