(* ===== verification/Sockets.thy ===== *)
theory Sockets
  imports Sample
begin

text \<open>
  Errors and sockets: the error chains the program inspects (\<^verbatim>\<open>isErrno\<close>, \<^verbatim>\<open>isClosedErr\<close>) and the
  opening and closing of egress sockets (\<^verbatim>\<open>OpenTargets\<close>, \<^verbatim>\<open>openEgressSocket\<close>, \<^verbatim>\<open>probeEgressSocket\<close>,
  \<^verbatim>\<open>closeTargets\<close>, \<^verbatim>\<open>NewTeeSocket\<close>).  The kernel is an argument, a function from the number of the
  system call to its error; the model keeps the open descriptors and the options that were
  set on each, so that a leak is a difference of two lists.
\<close>

subsection \<open>Errors\<close>

datatype (plugins only: code size) go_err =
    SysErrno string
  | ErrNetClosed
  | ErrEOF
  | ErrTimeout
  | WrapErr string go_err
  | TextErr string

text \<open>\<^verbatim>\<open>unwrap\<close>: the next error of the chain.\<close>

fun unwrap :: "go_err \<Rightarrow> go_err option" where
  "unwrap (WrapErr m e) = Some e"
| "unwrap e = None"

text \<open>\<^verbatim>\<open>isErrno\<close> walks the chain and compares the first \<^verbatim>\<open>syscall.Errno\<close> it meets.\<close>

fun isErrno :: "go_err \<Rightarrow> string \<Rightarrow> bool" where
  "isErrno (SysErrno n) target = (n = target)"
| "isErrno (WrapErr m e) target = isErrno e target"
| "isErrno e target = False"

fun isNetClosed :: "go_err \<Rightarrow> bool" where
  "isNetClosed ErrNetClosed = True"
| "isNetClosed (WrapErr m e) = isNetClosed e"
| "isNetClosed e = False"

definition isClosedErr :: "go_err option \<Rightarrow> bool" where
  "isClosedErr eo =
     (case eo of
        None \<Rightarrow> False
      | Some e \<Rightarrow> isNetClosed e \<or> isErrno e ''EBADF'' \<or> isErrno e ''EINVAL'')"

text \<open>The copy of \<^verbatim>\<open>isErrno\<close> in the worker package is a loop over \<^verbatim>\<open>unwrap\<close>.\<close>

function worker_isErrno :: "go_err option \<Rightarrow> string \<Rightarrow> bool" where
  "worker_isErrno None target = False"
| "worker_isErrno (Some e) target = (case e of SysErrno n \<Rightarrow> n = target | _ \<Rightarrow> worker_isErrno (unwrap e) target)"
  by pat_completeness auto
termination
  by (relation "measure (\<lambda>(e, t). case e of None \<Rightarrow> 0 | Some e \<Rightarrow> Suc (size e))")
    (auto split: option.split go_err.splits elim: unwrap.elims)

lemma worker_isErrno_same: "worker_isErrno (Some e) target = isErrno e target"
  by (induction e) simp_all

subsection \<open>The log line of a failed write\<close>

fun errnoOf :: "go_err \<Rightarrow> string option" where
  "errnoOf (SysErrno n) = Some n"
| "errnoOf (WrapErr m e) = errnoOf e"
| "errnoOf e = None"

record write_log =
  wl_msg :: string
  wl_iface :: string
  wl_queued :: int
  wl_dropped :: int
  wl_suppressed :: nat
  wl_errno :: "string option"

text \<open>\<open>allow\<close> is the throttle of shard-common: whether to log for the interface, and how many lines it has held back.\<close>

definition logWriteError :: "(string \<Rightarrow> bool \<times> nat) \<Rightarrow> string \<Rightarrow> int \<Rightarrow> int \<Rightarrow> go_err \<Rightarrow> write_log option" where
  "logWriteError allow iface queued sent err =
     (let (emit, suppressed) = allow iface;
          dropped = (if sent > 0 then queued - sent else queued);
          line = (\<lambda>msg. Some \<lparr>wl_msg = msg, wl_iface = iface, wl_queued = queued, wl_dropped = dropped,
                               wl_suppressed = suppressed, wl_errno = errnoOf err\<rparr>)
      in if \<not> emit then None
         else if errnoOf err \<noteq> None \<and> isErrno err ''ENOBUFS''
         then line ''egress ENOBUFS: kernel send buffer / qdisc backpressure''
         else line ''egress write error'')"

lemma isErrno_errnoOf: "isErrno err n \<longleftrightarrow> errnoOf err = Some n"
  by (induction err rule: errnoOf.induct) auto

lemma logWriteError_dropped:
  assumes "logWriteError allow iface queued sent err = Some l" "sent \<le> queued" "0 \<le> queued"
  shows "wl_dropped l = queued - max 0 sent \<and> (wl_msg l = ''egress write error'' \<longleftrightarrow> wl_errno l \<noteq> Some ''ENOBUFS'')"
  using assms by (auto simp: logWriteError_def isErrno_errnoOf Let_def max_def split: prod.splits if_splits)

subsection \<open>Accessors of the egress\<close>

definition Targets :: "Egress \<Rightarrow> string list" where
  "Targets e = e_targets e"

definition tee_Failed :: "retryTee \<Rightarrow> u64" where
  "tee_Failed t = t_failed t"

definition RetryTeeFailed :: "Egress \<Rightarrow> u64" where
  "RetryTeeFailed e = (case e_tee e of None \<Rightarrow> 0 | Some t \<Rightarrow> tee_Failed t)"

definition LocalMirrorFailed :: "Egress \<Rightarrow> u64" where
  "LocalMirrorFailed e = (case e_mirror e of None \<Rightarrow> 0 | Some t \<Rightarrow> tee_Failed t)"

subsection \<open>Descriptors\<close>

record os =
  os_calls :: nat
  os_next :: nat
  os_open :: "nat list"
  os_opts :: "(nat \<times> string \<times> int) list"

type_synonym kernel = "nat \<Rightarrow> go_err option"

definition syscall :: "kernel \<Rightarrow> os \<Rightarrow> go_err option \<times> os" where
  "syscall K h = (K (os_calls h), h\<lparr>os_calls := Suc (os_calls h)\<rparr>)"

definition os_create :: "kernel \<Rightarrow> os \<Rightarrow> (go_err + nat) \<times> os" where
  "os_create K h =
     (case syscall K h of
        (Some e, h1) \<Rightarrow> (Inl e, h1)
      | (None, h1) \<Rightarrow> (Inr (os_next h1), h1\<lparr>os_next := Suc (os_next h1), os_open := os_next h1 # os_open h1\<rparr>))"

definition os_close :: "nat \<Rightarrow> os \<Rightarrow> os" where
  "os_close fd h = h\<lparr>os_open := removeAll fd (os_open h)\<rparr>"

definition sockopt :: "kernel \<Rightarrow> nat \<Rightarrow> string \<Rightarrow> int \<Rightarrow> os \<Rightarrow> go_err option \<times> os" where
  "sockopt K fd opt v h =
     (case syscall K h of
        (Some e, h1) \<Rightarrow> (Some e, h1)
      | (None, h1) \<Rightarrow> (None, h1\<lparr>os_opts := (fd, opt, v) # os_opts h1\<rparr>))"

subsection \<open>Egress sockets\<close>

record iface =
  if_name :: string
  if_index :: int

record Target =
  tg_iface :: iface
  tg_fd :: nat

text \<open>The callback of \<^verbatim>\<open>rawConn.Control\<close>: the loop option may fail, the two others may not.\<close>

definition multicastOpts :: "kernel \<Rightarrow> nat \<Rightarrow> iface \<Rightarrow> int \<Rightarrow> int \<Rightarrow> os \<Rightarrow> go_err option \<times> os" where
  "multicastOpts K fd ifc loopback hopLimit h =
     (case sockopt K fd ''IPV6_MULTICAST_IF'' (if_index ifc) h of
        (Some e, h1) \<Rightarrow> (Some (WrapErr ''IPV6_MULTICAST_IF'' e), h1)
      | (None, h1) \<Rightarrow>
          (case sockopt K fd ''IPV6_MULTICAST_LOOP'' loopback h1 of
             (_, h2) \<Rightarrow>
               if hopLimit > 0 then
                 (case sockopt K fd ''IPV6_MULTICAST_HOPS'' hopLimit h2 of
                    (Some e, h3) \<Rightarrow> (Some (WrapErr ''IPV6_MULTICAST_HOPS'' e), h3)
                  | (None, h3) \<Rightarrow> (None, h3))
               else (None, h2)))"

definition openEgressSocket ::
  "kernel \<Rightarrow> iface \<Rightarrow> int \<Rightarrow> bytes option \<Rightarrow> int \<Rightarrow> os \<Rightarrow> (go_err + nat) \<times> os" where
  "openEgressSocket K ifc loopback bindSource hopLimit h =
     (case os_create K h of
        (Inl e, h1) \<Rightarrow> (Inl (WrapErr (if bindSource = None then ''listen on [::]:0'' else ''listen on source'') e), h1)
      | (Inr fd, h1) \<Rightarrow>
          (case syscall K h1 of
             (Some e, h2) \<Rightarrow> (Inl e, os_close fd h2)
           | (None, h2) \<Rightarrow>
               (case syscall K h2 of
                  (Some ctrlErr, h3) \<Rightarrow> (Inl ctrlErr, os_close fd h3)
                | (None, h3) \<Rightarrow>
                    (case multicastOpts K fd ifc loopback hopLimit h3 of
                       (Some e, h4) \<Rightarrow> (Inl e, os_close fd h4)
                     | (None, h4) \<Rightarrow> (Inr fd, h4)))))"

definition probeEgressSocket :: "kernel \<Rightarrow> os \<Rightarrow> go_err option \<times> os" where
  "probeEgressSocket K h =
     (case syscall K h of
        (None, h1) \<Rightarrow> (None, h1)
      | (Some e, h1) \<Rightarrow>
          if isErrno e ''EPERM'' \<or> isErrno e ''EADDRNOTAVAIL''
          then (Some (WrapErr ''interface not usable for multicast egress'' e), h1)
          else (None, h1))"

definition closeTargets :: "Target list \<Rightarrow> os \<Rightarrow> os" where
  "closeTargets ts h = fold (\<lambda>t. os_close (tg_fd t)) ts h"

definition CloseTargets :: "Target list \<Rightarrow> os \<Rightarrow> os" where
  "CloseTargets ts h = closeTargets ts h"

text \<open>The loop of every routine that opens several things: on the first failure what was opened
  before is closed again.\<close>

fun openAll ::
  "('i \<Rightarrow> os \<Rightarrow> (go_err + 'r) \<times> os) \<Rightarrow> ('r \<Rightarrow> os \<Rightarrow> os) \<Rightarrow> 'i list \<Rightarrow> 'r list \<Rightarrow> os \<Rightarrow> (go_err + 'r list) \<times> os" where
  "openAll f cl [] rs h = (Inr rs, h)"
| "openAll f cl (x # xs) rs h =
     (case f x h of
        (Inl e, h1) \<Rightarrow> (Inl e, fold cl rs h1)
      | (Inr r, h1) \<Rightarrow> openAll f cl xs (rs @ [r]) h1)"

definition openTarget :: "kernel \<Rightarrow> Forwarder \<Rightarrow> int \<Rightarrow> bool \<Rightarrow> iface \<Rightarrow> os \<Rightarrow> (go_err + Target) \<times> os" where
  "openTarget K fw loopback probe ifc h =
     (case openEgressSocket K ifc loopback (fw_bindSource fw) (fw_hopLimit fw) h of
        (Inl e, h1) \<Rightarrow> (Inl (WrapErr ''open egress socket'' e), h1)
      | (Inr fd, h1) \<Rightarrow>
          (case (if probe then probeEgressSocket K h1 else (None, h1)) of
             (Some e, h2) \<Rightarrow> (Inl (WrapErr ''egress probe'' e), os_close fd h2)
           | (None, h2) \<Rightarrow> (Inr \<lparr>tg_iface = ifc, tg_fd = fd\<rparr>, h2)))"

definition OpenTargets ::
  "kernel \<Rightarrow> Forwarder \<Rightarrow> iface list \<Rightarrow> bool \<Rightarrow> os \<Rightarrow> (go_err + Target list) \<times> os" where
  "OpenTargets K fw ifaces probe h =
     (let loopback = (if fw_debug fw \<or> fw_egressLoop fw then 1 else 0)
      in openAll (openTarget K fw loopback probe) (\<lambda>t. os_close (tg_fd t)) ifaces [] h)"

text \<open>\<^verbatim>\<open>NewTeeSocket\<close>: resolve the address, then open the socket.\<close>

definition NewTeeSocket :: "kernel \<Rightarrow> os \<Rightarrow> (go_err + nat) \<times> os" where
  "NewTeeSocket K h =
     (case syscall K h of
        (Some e, h1) \<Rightarrow> (Inl (WrapErr ''retry tee: resolve'' e), h1)
      | (None, h1) \<Rightarrow>
          (case os_create K h1 of
             (Inl e, h2) \<Rightarrow> (Inl (WrapErr ''retry tee: listen'' e), h2)
           | (Inr fd, h2) \<Rightarrow> (Inr fd, h2)))"

subsection \<open>What opening leaves behind\<close>

text \<open>Descriptors are numbered upwards, so one that is open is below the next to be given out.\<close>

definition os_wf :: "os \<Rightarrow> bool" where
  "os_wf h \<longleftrightarrow> (\<forall>fd \<in> set (os_open h). fd < os_next h) \<and> (\<forall>(fd, opt, v) \<in> set (os_opts h). fd < os_next h)"

text \<open>The option last set on a descriptor.\<close>

definition opt_of :: "os \<Rightarrow> nat \<Rightarrow> string \<Rightarrow> int option" where
  "opt_of h fd opt = map_of (map (\<lambda>(f, n, v). ((f, n), v)) (os_opts h)) (fd, opt)"

text \<open>What a routine that opens sockets leaves: on failure the open descriptors are what they were,
  on success exactly \<open>fds r\<close> were added, all of them new; options of older descriptors are untouched.\<close>

definition opens :: "('r \<Rightarrow> nat list) \<Rightarrow> ('r \<Rightarrow> os \<Rightarrow> bool) \<Rightarrow> os \<Rightarrow> (go_err + 'r) \<times> os \<Rightarrow> bool" where
  "opens fds good h res \<longleftrightarrow>
     os_wf (snd res) \<and> os_next h \<le> os_next (snd res) \<and>
     (\<forall>fd < os_next h. opt_of (snd res) fd = opt_of h fd) \<and>
     (case fst res of
        Inl e \<Rightarrow> set (os_open (snd res)) = set (os_open h)
      | Inr r \<Rightarrow> set (os_open (snd res)) = set (os_open h) \<union> set (fds r) \<and> distinct (fds r) \<and>
                 (\<forall>fd \<in> set (fds r). os_next h \<le> fd \<and> fd < os_next (snd res)) \<and> good r (snd res))"

lemma opens_weaken:
  "opens fds good h res \<Longrightarrow> (\<And>r h'. good r h' \<Longrightarrow> good' r h') \<Longrightarrow> (\<And>r. fds r = fds' r) \<Longrightarrow> opens fds' good' h res"
  by (auto simp: opens_def split: sum.splits)

lemma opt_of_set [simp]:
  "opt_of (h\<lparr>os_opts := (fd, opt, v) # os_opts h\<rparr>) = (opt_of h)(fd := (opt_of h fd)(opt := Some v))"
  by (auto simp: opt_of_def fun_eq_iff)

lemma opt_of_frame [simp]:
  "opt_of (h\<lparr>os_calls := c\<rparr>) = opt_of h" "opt_of (h\<lparr>os_next := n\<rparr>) = opt_of h" "opt_of (h\<lparr>os_open := l\<rparr>) = opt_of h"
  by (simp_all add: opt_of_def fun_eq_iff)

lemma sockopt_cases:
  obtains (ok) "sockopt K fd opt v h = (None, h\<lparr>os_calls := Suc (os_calls h), os_opts := (fd, opt, v) # os_opts h\<rparr>)"
  | (failed) e where "sockopt K fd opt v h = (Some e, h\<lparr>os_calls := Suc (os_calls h)\<rparr>)"
  by (cases "K (os_calls h)") (simp_all add: sockopt_def syscall_def)

text \<open>The callback changes the options of its own descriptor only.\<close>

definition opts_set :: "nat \<Rightarrow> os \<Rightarrow> os \<Rightarrow> bool" where
  "opts_set fd h h' \<longleftrightarrow>
     os_next h' = os_next h \<and> os_open h' = os_open h \<and>
     (\<forall>x \<in> set (os_opts h'). x \<in> set (os_opts h) \<or> fst x = fd) \<and> (\<forall>fd'. fd' \<noteq> fd \<longrightarrow> opt_of h' fd' = opt_of h fd')"

lemma opts_set_trans: "opts_set fd h h1 \<Longrightarrow> opts_set fd h1 h2 \<Longrightarrow> opts_set fd h h2"
  by (auto simp: opts_set_def)

lemma sockopt_sets: "sockopt K fd opt v h = (r, h') \<Longrightarrow> opts_set fd h h'"
  by (rule sockopt_cases [of K fd opt v h]) (auto simp: opts_set_def opt_of_def)

lemma multicastOpts_effect:
  assumes "multicastOpts K fd ifc lb hop h = (r, h')"
  shows "opts_set fd h h'"
    and "r = None \<Longrightarrow> opt_of h' fd ''IPV6_MULTICAST_IF'' = Some (if_index ifc)"
    and "r = None \<Longrightarrow> 0 < hop \<Longrightarrow> opt_of h' fd ''IPV6_MULTICAST_HOPS'' = Some hop"
proof -
  obtain r1 h1 where 1: "sockopt K fd ''IPV6_MULTICAST_IF'' (if_index ifc) h = (r1, h1)" by fastforce
  obtain r2 h2 where 2: "sockopt K fd ''IPV6_MULTICAST_LOOP'' lb h1 = (r2, h2)" by fastforce
  obtain r3 h3 where 3: "sockopt K fd ''IPV6_MULTICAST_HOPS'' hop h2 = (r3, h3)" by fastforce
  note s = 1 [THEN sockopt_sets] 2 [THEN sockopt_sets] 3 [THEN sockopt_sets]
  have "h' = h1 \<or> h' = h2 \<or> h' = h3"
    using assms 1 2 3 by (auto simp: multicastOpts_def split: option.splits if_splits)
  then show "opts_set fd h h'"
    using s(1) opts_set_trans [OF s(1) s(2)] opts_set_trans [OF opts_set_trans [OF s(1) s(2)] s(3)] by auto
  have i1: "r1 = None \<Longrightarrow> opt_of h1 fd ''IPV6_MULTICAST_IF'' = Some (if_index ifc)"
    using 1 by (cases rule: sockopt_cases [of K fd "''IPV6_MULTICAST_IF''" "if_index ifc" h]) (auto simp: opt_of_def)
  have i2: "opt_of h2 fd ''IPV6_MULTICAST_IF'' = opt_of h1 fd ''IPV6_MULTICAST_IF''"
    using 2 by (cases rule: sockopt_cases [of K fd "''IPV6_MULTICAST_LOOP''" lb h1]) (auto simp: opt_of_def)
  have i3: "opt_of h3 fd ''IPV6_MULTICAST_IF'' = opt_of h2 fd ''IPV6_MULTICAST_IF''"
    "r3 = None \<Longrightarrow> opt_of h3 fd ''IPV6_MULTICAST_HOPS'' = Some hop"
    using 3 by (cases rule: sockopt_cases [of K fd "''IPV6_MULTICAST_HOPS''" hop h2], auto simp: opt_of_def)+
  show "r = None \<Longrightarrow> opt_of h' fd ''IPV6_MULTICAST_IF'' = Some (if_index ifc)"
    using assms 1 2 3 i1 i2 i3 by (auto simp: multicastOpts_def split: option.splits if_splits)
  show "r = None \<Longrightarrow> 0 < hop \<Longrightarrow> opt_of h' fd ''IPV6_MULTICAST_HOPS'' = Some hop"
    using assms 1 2 3 i3 by (auto simp: multicastOpts_def split: option.splits if_splits)
qed

lemma os_wf_calls [simp]: "os_wf (h\<lparr>os_calls := c\<rparr>) = os_wf h"
  by (simp add: os_wf_def)

lemma openEgressSocket_effect:
  assumes wf: "os_wf h" and r: "openEgressSocket K ifc lb src hop h = (res, h')"
  shows "os_wf h'" "os_next h \<le> os_next h'" "\<And>fd. fd < os_next h \<Longrightarrow> opt_of h' fd = opt_of h fd"
    "\<And>e. res = Inl e \<Longrightarrow> set (os_open h') = set (os_open h)"
    "\<And>fd. res = Inr fd \<Longrightarrow> fd = os_next h \<and> fd < os_next h' \<and> set (os_open h') = insert fd (set (os_open h)) \<and>
       opt_of h' fd ''IPV6_MULTICAST_IF'' = Some (if_index ifc) \<and>
       (0 < hop \<longrightarrow> opt_of h' fd ''IPV6_MULTICAST_HOPS'' = Some hop)"
proof -
  let ?fd = "os_next h" and ?c = "os_calls h"
  let ?h1 = "h\<lparr>os_calls := Suc ?c, os_next := Suc ?fd, os_open := ?fd # os_open h\<rparr>"
  let ?h3 = "?h1\<lparr>os_calls := Suc (Suc (Suc ?c))\<rparr>"
  have wf1: "os_wf ?h1" "os_wf (os_close ?fd ?h1)" "?fd \<notin> set (os_open h)"
    using wf by (auto simp: os_wf_def os_close_def)
  obtain m h4 where m: "multicastOpts K ?fd ifc lb hop ?h3 = (m, h4)" by fastforce
  note me = multicastOpts_effect [OF m]
  have wf4: "os_wf h4" "os_wf (os_close ?fd h4)"
    using me(1) wf1(1) by (fastforce simp: opts_set_def os_wf_def os_close_def)+
  have old: "opt_of h4 fd = opt_of h fd" if "fd < ?fd" for fd
    using me(1) that by (simp add: opts_set_def)
  have n4: "os_next h4 = Suc ?fd" "os_open h4 = ?fd # os_open h" using me(1) by (simp_all add: opts_set_def)
  consider (listen) e where "K ?c = Some e" "h' = h\<lparr>os_calls := Suc ?c\<rparr>" "\<exists>e'. res = Inl e'"
    | (early) e c where "K ?c = None" "h' = os_close ?fd (?h1\<lparr>os_calls := c\<rparr>)" "\<exists>e'. res = Inl e'"
    | (opts) e where "m = Some e" "h' = os_close ?fd h4" "res = Inl e"
    | (ok) "m = None" "h' = h4" "res = Inr ?fd"
    using r m by (auto simp: openEgressSocket_def os_create_def syscall_def split: option.splits)
  note cs = this
  show "os_wf h'" using cs wf wf1 wf4 by cases (auto simp: os_close_def os_wf_def)
  show "os_next h \<le> os_next h'" using cs n4 by cases (auto simp: os_close_def)
  show "opt_of h' fd = opt_of h fd" if "fd < ?fd" for fd
    using cs old [OF that] by cases (auto simp: os_close_def)
  show "set (os_open h') = set (os_open h)" if "res = Inl e" for e
    using cs that n4 wf1(3) by cases (auto simp: os_close_def)
  show "fd = ?fd \<and> fd < os_next h' \<and> set (os_open h') = insert fd (set (os_open h)) \<and>
       opt_of h' fd ''IPV6_MULTICAST_IF'' = Some (if_index ifc) \<and>
       (0 < hop \<longrightarrow> opt_of h' fd ''IPV6_MULTICAST_HOPS'' = Some hop)" if "res = Inr fd" for fd
    using cs that n4 me(2,3) by cases auto
qed

text \<open>The contract of an opener, and what the loop over one guarantees.\<close>

locale opener =
  fixes f :: "'i \<Rightarrow> os \<Rightarrow> (go_err + 'r) \<times> os" and cl :: "'r \<Rightarrow> os \<Rightarrow> os"
    and fds :: "'r \<Rightarrow> nat list" and good :: "'i \<Rightarrow> 'r \<Rightarrow> os \<Rightarrow> bool"
  assumes opened: "os_wf h \<Longrightarrow> opens fds (good i) h (f i h)"
    and closed: "cl r h = fold os_close (fds r) h"
    and stable: "good i r h \<Longrightarrow> (\<And>fd. fd \<in> set (fds r) \<Longrightarrow> opt_of h' fd = opt_of h fd) \<Longrightarrow> good i r h'"
begin

lemma close_all:
  "os_open (fold cl rs h) = filter (\<lambda>fd. fd \<notin> set (concat (map fds rs))) (os_open h) \<and>
   os_next (fold cl rs h) = os_next h \<and> os_opts (fold cl rs h) = os_opts h"
proof -
  have c: "os_open (fold os_close l h) = filter (\<lambda>fd. fd \<notin> set l) (os_open h) \<and>
      os_next (fold os_close l h) = os_next h \<and> os_opts (fold os_close l h) = os_opts h" for l h
    by (induction l arbitrary: h) (auto simp: os_close_def removeAll_filter_not_eq filter_filter intro: filter_cong)
  show ?thesis
    by (induction rs arbitrary: h) (use c in \<open>auto simp: closed filter_filter intro: filter_cong\<close>)
qed

lemma loop_opens:
  assumes "os_wf h" "os_next h0 \<le> os_next h" "\<forall>fd < os_next h0. opt_of h fd = opt_of h0 fd" "os_wf h0"
    and "set (os_open h) = set (os_open h0) \<union> set (concat (map fds rs))" "distinct (concat (map fds rs))"
    and "\<forall>fd \<in> set (concat (map fds rs)). os_next h0 \<le> fd \<and> fd < os_next h"
    and "list_all2 (\<lambda>i r. good i r h) is rs"
  shows "opens (\<lambda>rs. concat (map fds rs)) (\<lambda>rs h'. list_all2 (\<lambda>i r. good i r h') (is @ xs) rs) h0 (openAll f cl xs rs h)"
  using assms
proof (induction xs arbitrary: "is" rs h)
  case Nil
  then show ?case by (simp add: opens_def)
next
  case (Cons x xs)
  obtain res h1 where r: "f x h = (res, h1)" by fastforce
  have o: "opens fds (good x) h (res, h1)" using opened [OF Cons.prems(1), of x] r by simp
  show ?case
  proof (cases res)
    case (Inl e)
    have "\<forall>fd \<in> set (os_open h0). fd < os_next h0" using Cons.prems(4) by (auto simp: os_wf_def)
    then have "set (filter (\<lambda>fd. fd \<notin> set (concat (map fds rs))) (os_open h1)) = set (os_open h0)"
      using o Inl Cons.prems(5,7) by (fastforce simp: opens_def)
    moreover have "opt_of (fold cl rs h1) = opt_of h1"
      using close_all [of rs h1] by (simp add: opt_of_def fun_eq_iff)
    ultimately show ?thesis using r Inl o close_all [of rs h1] Cons.prems(2,3)
      by (auto simp: opens_def os_wf_def)
  next
    case (Inr y)
    have g: "list_all2 (\<lambda>i r. good i r h1) (is @ [x]) (rs @ [y])"
    proof -
      have "good i r h1" if "good i r h" "r \<in> set rs" for i r
        using that(1) by (rule stable) (use o that(2) Cons.prems(7) in \<open>auto simp: opens_def\<close>)
      then have "list_all2 (\<lambda>i r. good i r h1) is rs"
        using Cons.prems(8) by (auto simp: list_all2_conv_all_nth)
      then show ?thesis using o Inr by (simp add: opens_def list_all2_appendI)
    qed
    have "opens (\<lambda>rs. concat (map fds rs)) (\<lambda>rs h'. list_all2 (\<lambda>i r. good i r h') ((is @ [x]) @ xs) rs) h0
        (openAll f cl xs (rs @ [y]) h1)"
      using Cons.prems o Inr g by (intro Cons.IH) (fastforce simp: opens_def)+
    then show ?thesis using r Inr by simp
  qed
qed

lemma all_or_nothing:
  "os_wf h \<Longrightarrow> opens (\<lambda>rs. concat (map fds rs)) (\<lambda>rs h'. list_all2 (\<lambda>i r. good i r h') xs rs) h (openAll f cl xs [] h)"
  using loop_opens [of h h "[]" "[]" xs] by simp

end

lemma openTarget_opens:
  assumes "os_wf h"
  shows "opens (\<lambda>t. [tg_fd t])
     (\<lambda>t h'. tg_iface t = ifc \<and> opt_of h' (tg_fd t) ''IPV6_MULTICAST_IF'' = Some (if_index ifc) \<and>
        (0 < fw_hopLimit fw \<longrightarrow> opt_of h' (tg_fd t) ''IPV6_MULTICAST_HOPS'' = Some (fw_hopLimit fw)))
     h (openTarget K fw lb probe ifc h)"
proof -
  obtain res h1 where r: "openEgressSocket K ifc lb (fw_bindSource fw) (fw_hopLimit fw) h = (res, h1)" by fastforce
  note e = openEgressSocket_effect [OF assms r]
  show ?thesis
  proof (cases res)
    case (Inl x)
    then show ?thesis using e r by (simp add: openTarget_def opens_def)
  next
    case (Inr fd)
    have fresh: "os_next h \<notin> set (os_open h)" using assms by (auto simp: os_wf_def)
    obtain p c where p: "(if probe then probeEgressSocket K h1 else (None, h1)) = (p, h1\<lparr>os_calls := c\<rparr>)"
    proof (cases probe)
      case True
      then have "snd (if probe then probeEgressSocket K h1 else (None, h1)) = h1\<lparr>os_calls := Suc (os_calls h1)\<rparr>"
        by (cases "K (os_calls h1)") (auto simp: probeEgressSocket_def syscall_def)
      then show ?thesis by (intro that prod_eqI) simp_all
    next
      case False
      then show ?thesis using that [of None "os_calls h1"] by simp
    qed
    have s: "set (removeAll fd (os_open h1)) = set (os_open h)" using e(5) [OF Inr] fresh by auto
    show ?thesis
    proof (cases p)
      case None
      then show ?thesis using Inr e(1-3) e(5) [OF Inr] r p by (auto simp: openTarget_def opens_def)
    next
      case (Some x)
      have "os_wf (os_close fd (h1\<lparr>os_calls := c\<rparr>))" using e(1) by (auto simp: os_wf_def os_close_def)
      then show ?thesis using Some Inr e(2,3) r p s by (simp add: openTarget_def opens_def os_close_def)
    qed
  qed
qed

interpretation targets: opener "openTarget K fw lb probe" "\<lambda>t. os_close (tg_fd t)" "\<lambda>t. [tg_fd t]"
  "\<lambda>ifc t h'. tg_iface t = ifc \<and> opt_of h' (tg_fd t) ''IPV6_MULTICAST_IF'' = Some (if_index ifc) \<and>
        (0 < fw_hopLimit fw \<longrightarrow> opt_of h' (tg_fd t) ''IPV6_MULTICAST_HOPS'' = Some (fw_hopLimit fw))"
  for K fw lb probe
  by unfold_locales (auto simp: openTarget_opens)

lemma OpenTargets_opens:
  assumes "os_wf h"
  shows "opens (map tg_fd)
     (\<lambda>ts h'. map tg_iface ts = ifaces \<and> (\<forall>t \<in> set ts.
        opt_of h' (tg_fd t) ''IPV6_MULTICAST_IF'' = Some (if_index (tg_iface t)) \<and>
        (0 < fw_hopLimit fw \<longrightarrow> opt_of h' (tg_fd t) ''IPV6_MULTICAST_HOPS'' = Some (fw_hopLimit fw))))
     h (OpenTargets K fw ifaces probe h)"
proof -
  have c: "concat (map (\<lambda>t. [tg_fd t]) ts) = map tg_fd ts" for ts :: "Target list" by (induction ts) simp_all
  have g: "list_all2 (\<lambda>i t. tg_iface t = i \<and> P i t) is ts \<Longrightarrow>
      map tg_iface ts = is \<and> (\<forall>t \<in> set ts. P (tg_iface t) t)"
    for P "is" and ts :: "Target list" by (induction "is" ts rule: list_all2_induct) auto
  show ?thesis unfolding OpenTargets_def Let_def
    by (rule opens_weaken [OF targets.all_or_nothing [OF assms] _ c]) (rule g)
qed

lemma closeTargets_effect:
  "os_open (closeTargets ts h) = filter (\<lambda>fd. fd \<notin> tg_fd ` set ts) (os_open h)"
  "os_next (closeTargets ts h) = os_next h" "os_opts (closeTargets ts h) = os_opts h"
  using targets.close_all [of ts h] by (auto simp: closeTargets_def intro: filter_cong)

interpretation tees: opener "\<lambda>_ :: nat. NewTeeSocket K" os_close "\<lambda>fd. [fd]" "\<lambda>_ _ _. True" for K
proof (unfold_locales, goal_cases)
  case (1 h i)
  then show ?case
    by (cases "K (os_calls h)"; cases "K (Suc (os_calls h))")
      (auto simp: opens_def NewTeeSocket_def syscall_def os_create_def os_wf_def)
qed auto

subsection \<open>Properties\<close>

text \<open>Opening the egress sockets is all or nothing.  Whatever fails (the socket, an option, the
  probe) and at whichever interface, every socket opened on the way is closed again;
  on success there is one new socket for each interface, in order, set to multicast on that interface
  and with the configured hop limit.\<close>

lemma OpenTargets_all_or_nothing:
  assumes "os_wf h" "OpenTargets K fw ifaces probe h = (res, h')"
  shows "case res of
       Inl e \<Rightarrow> set (os_open h') = set (os_open h)
     | Inr ts \<Rightarrow> map tg_iface ts = ifaces \<and> distinct (map tg_fd ts) \<and>
         set (os_open h') = set (os_open h) \<union> tg_fd ` set ts \<and> set (os_open h) \<inter> tg_fd ` set ts = {} \<and>
         (\<forall>t \<in> set ts. opt_of h' (tg_fd t) ''IPV6_MULTICAST_IF'' = Some (if_index (tg_iface t)) \<and>
            (0 < fw_hopLimit fw \<longrightarrow> opt_of h' (tg_fd t) ''IPV6_MULTICAST_HOPS'' = Some (fw_hopLimit fw)))"
proof -
  have "\<forall>fd \<in> set (os_open h). fd < os_next h" using assms(1) by (auto simp: os_wf_def)
  then show ?thesis
    using OpenTargets_opens [OF assms(1), where K = K and fw = fw and ifaces = ifaces and probe = probe] assms(2)
    by (fastforce simp: opens_def split: sum.splits)
qed

end
