(* ===== verification/Queueing.thy ===== *)
theory Queueing
  imports Dispatch
begin

text \<open>
  Dispatching queues and never sends: whatever a handler does to the egress it was given, the
  targets, what is on the wire, the socket calls made, the recorder and the lane of that egress stay
  as they were, and no queued datagram is taken back.  The receive loops rest on it: all
  sending is in their flushes.
\<close>

definition queues_only :: "Egress \<Rightarrow> Egress \<Rightarrow> bool" where
  "queues_only e e' \<longleftrightarrow>
     e_targets e' = e_targets e \<and> e_wire e' = e_wire e \<and> e_calls e' = e_calls e \<and> e_rec e' = e_rec e \<and>
     e_reliable e' = e_reliable e \<and> (e_coal e' = None \<longleftrightarrow> e_coal e = None) \<and>
     (e_tee e' = None \<longleftrightarrow> e_tee e = None) \<and> (e_mirror e' = None \<longleftrightarrow> e_mirror e = None) \<and>
     prefix (e_meta e) (e_meta e')"

fun quiet :: "Egress option \<Rightarrow> Egress option \<Rightarrow> bool" where
  "quiet None None = True"
| "quiet (Some e) (Some e') = queues_only e e'"
| "quiet _ _ = False"

lemma queues_only_refl [simp]: "queues_only e e"
  by (simp add: queues_only_def)

lemma queues_only_trans: "queues_only a b \<Longrightarrow> queues_only b c \<Longrightarrow> queues_only a c"
  by (auto simp: queues_only_def intro: prefix_order.trans)

lemma quiet_refl [simp]: "quiet x x"
  by (cases x) simp_all

lemma quiet_trans: "quiet x y \<Longrightarrow> quiet y z \<Longrightarrow> quiet x z"
  by (cases x; cases y; cases z) (auto intro: queues_only_trans)

lemma queues_only_queue: "queues_only e (e\<lparr>e_cache := c, e_msgs := m\<rparr>)"
  by (simp add: queues_only_def)

lemma enqueueTarget_queues: "enqueueTarget raw dst m i e = Some e' \<Longrightarrow> queues_only e e'"
  by (auto simp: enqueueTarget_def bind_eq_Some_conv split_def intro: queues_only_queue)

lemma enqueue_queues:
  assumes a: "egress_enqueue raw dst m p e = Some e'" shows "queues_only e e'"
proof -
  define e1 where "e1 = e\<lparr>e_meta := e_meta e @ [m]\<rparr>"
  define e2 where "e2 = (case p of None \<Rightarrow> e1 | Some b \<Rightarrow> e1\<lparr>e_pooled := e_pooled e1 @ [b]\<rparr>)"
  define e3 where "e3 = (case e_tee e2 of
      Some t \<Rightarrow> if mm_teeable m then e2\<lparr>e_tee := Some (tee_append raw t)\<rparr> else e2 | None \<Rightarrow> e2)"
  define e4 where "e4 = (case e_mirror e3 of
      Some t \<Rightarrow> if mm_label m = [] then e3\<lparr>e_mirror := Some (tee_append raw t)\<rparr> else e3 | None \<Rightarrow> e3)"
  have f: "fold_opt (enqueueTarget raw dst m) [0..<length (e_targets e4)] e4 = Some e'"
    using a unfolding egress_enqueue_def Let_def e1_def [symmetric] e2_def [symmetric] e3_def [symmetric]
      e4_def [symmetric] .
  have q: "queues_only e e1" "queues_only e1 e2" "queues_only e2 e3" "queues_only e3 e4"
    unfolding e1_def e2_def e3_def e4_def by (auto simp: queues_only_def split: option.split)
  have e4: "queues_only e e4" using q queues_only_trans by blast
  from f e4 show ?thesis
    by (rule fold_opt_inv [where P = "queues_only e"]) (blast intro: queues_only_trans enqueueTarget_queues)
qed

lemma onEgress_quiet:
  "onEgress f s = Some s' \<Longrightarrow> (\<And>e e'. f e = Some e' \<Longrightarrow> queues_only e e') \<Longrightarrow> quiet (s_egr s) (s_egr s')"
  by (auto simp: onEgress_def split: option.splits bind_splits)

lemma onEgress_enqueue_quiet:
  "onEgress (EnqueueData raw dst g w) s = Some s' \<Longrightarrow> quiet (s_egr s) (s_egr s')"
  "onEgress (EnqueueCacheable raw dst lab w) s = Some s' \<Longrightarrow> quiet (s_egr s) (s_egr s')"
  "onEgress (EnqueueControl raw dst lab w) s = Some s' \<Longrightarrow> quiet (s_egr s) (s_egr s')"
  by (erule onEgress_quiet, simp add: EnqueueData_def EnqueueCacheable_def EnqueueControl_def, erule enqueue_queues)+

lemma same_egress:
  "claimIngress fw t ft i w s = (ok, s1) \<Longrightarrow> s_egr s1 = s_egr s"
  "claimBEEFIngress fw t ft i w s = (ok, s1) \<Longrightarrow> s_egr s1 = s_egr s"
  "addrFor fw g s = (dst, s1) \<Longrightarrow> s_egr s1 = s_egr s"
  "stamp L fw raw ip g sub s = Some (raw', s1) \<Longrightarrow> s_egr s1 = s_egr s"
  "chargeBEEF L src n s = (d, s1) \<Longrightarrow> s_egr s1 = s_egr s"
  by (auto simp: claimIngress_def claimBEEFIngress_def addrFor_def stamp_def chargeBEEF_def Let_def
      split: prod.splits if_splits option.splits bind_splits)

lemma same_egress_simps [simp]:
  "s_egr (emit fw ev s) = s_egr s" "s_egr (dropped fw w r s) = s_egr s" "s_egr (droppedDecode fw w s) = s_egr s"
  by (auto simp: emit_def dropped_def droppedDecode_def split: option.splits)

lemma fragStep_quiet:
  assumes "fragStep L ip g sub mk fin enq i s = Some s'" "\<And>d b e e'. enq d b e = Some e' \<Longrightarrow> queues_only e e'"
  shows "quiet (s_egr s) (s_egr s')"
proof -
  have pg: "queues_only e e1" if "PoolGet e = Some (b, e1)" for e b e1
    using that by (auto simp: PoolGet_def queues_only_def split: option.splits list.splits)
  obtain h q ch where n: "nextSeq (seqhash_Hash L) ip g sub (s_chains s) = ((h, q), ch)" by (metis prod.collapse)
  have "quiet (s_egr (s\<lparr>s_chains := ch\<rparr>)) (s_egr s')"
    using assms(1) unfolding fragStep_def n prod.case
  proof (rule onEgress_quiet)
    fix e e'
    assume "do { (b, e1) \<leftarrow> PoolGet e; sz \<leftarrow> e_poolSize e;
        case frame_EncodeFragment L sz (mk i h q) of
          None \<Rightarrow> Some (poolPut b e1) | Some d \<Rightarrow> fin d \<bind> (\<lambda>d'. enq d' b e1) } = Some e'"
    then have "\<exists>b e1. PoolGet e = Some (b, e1) \<and> (e' = poolPut b e1 \<or> (\<exists>d. enq d b e1 = Some e'))"
      by (auto split: bind_splits option.splits)
    then obtain b e1 where p: "PoolGet e = Some (b, e1)" "e' = poolPut b e1 \<or> (\<exists>d. enq d b e1 = Some e')"
      by blast
    have "queues_only e1 e'" using p(2) assms(2) by (auto simp: poolPut_def queues_only_def)
    then show "queues_only e e'" using pg [OF p(1)] queues_only_trans by blast
  qed
  then show ?thesis by simp
qed

lemma fragLoop_quiet:
  assumes "fragLoop L ip g sub mk fin enq k s = Some s'" "\<And>d b e e'. enq d b e = Some e' \<Longrightarrow> queues_only e e'"
  shows "quiet (s_egr s) (s_egr s')"
  using assms(1) unfolding fragLoop_def
proof (rule fold_opt_inv [where P = "\<lambda>t. quiet (s_egr s) (s_egr t)"])
  fix i t u
  assume q: "quiet (s_egr s) (s_egr t)" and f: "fragStep L ip g sub mk fin enq i t = Some u"
  show "quiet (s_egr s) (s_egr u)" by (rule quiet_trans [OF q fragStep_quiet [OF f]]) (rule assms(2))
qed simp

lemma pooled_queues:
  "EnqueueDataPooled raw dst g w b e = Some e' \<Longrightarrow> queues_only e e'"
  "EnqueueCacheablePooled raw dst lab w b e = Some e' \<Longrightarrow> queues_only e e'"
  by (auto simp: EnqueueDataPooled_def EnqueueCacheablePooled_def dest: enqueue_queues)


subsection \<open>The handlers\<close>

lemma emitTx_quiet: "emitTx fw raw t g w s = Some s' \<Longrightarrow> quiet (s_egr s) (s_egr s')"
  unfolding emitTx_def Let_def
  by (auto split: if_splits prod.splits option.splits bind_splits dest!: onEgress_enqueue_quiet same_egress(3)
      intro: quiet_trans)

lemma withFragCount_quiet:
  assumes "withFragCount fw p w loop s = Some s'" "\<And>k s s'. loop k s = Some s' \<Longrightarrow> quiet (s_egr s) (s_egr s')"
  shows "quiet (s_egr s) (s_egr s')"
  using assms by (auto simp: withFragCount_def Let_def split: bind_splits if_splits) (metis same_egress_simps(1))

lemma fragment_quiet:
  "fragment L fw f ip g w s = Some s' \<Longrightarrow> quiet (s_egr s) (s_egr s')"
  "fragmentBlock L fw raw bf ip g w s = Some s' \<Longrightarrow> quiet (s_egr s) (s_egr s')"
  "fragmentSubtreeData L fw raw sf ip g w s = Some s' \<Longrightarrow> quiet (s_egr s) (s_egr s')"
  unfolding fragment_def fragmentBlock_def fragmentSubtreeData_def
  by (erule withFragCount_quiet, auto simp: Let_def split: prod.splits dest!: same_egress(3)
      dest: fragLoop_quiet [OF _ pooled_queues(1)] fragLoop_quiet [OF _ pooled_queues(2)])+

lemma forwardTx_quiet: "forwardTx L fw raw f src w s = Some s' \<Longrightarrow> quiet (s_egr s) (s_egr s')"
proof -
  have c: "onEgress (coalesceTx ip g f) s = Some s' \<Longrightarrow> quiet (s_egr s) (s_egr s')" for ip g s s'
    by (erule onEgress_quiet) (auto simp: coalesceTx_def queues_only_def split: bind_splits)
  show "forwardTx L fw raw f src w s = Some s' \<Longrightarrow> quiet (s_egr s) (s_egr s')"
    unfolding forwardTx_def Let_def
    by (auto split: bool.splits option.splits if_splits bind_splits dest: emitTx_quiet fragment_quiet c
        dest!: same_egress(4))
qed

lemma process_quiet: "process L fw raw src w v s = Some s' \<Longrightarrow> quiet (s_egr s) (s_egr s')"
  unfolding process_def
  by (auto split: option.splits if_splits prod.splits dest: forwardTx_quiet dest!: same_egress(1))

lemma ProcessBlock_quiet: "ProcessBlock L fw raw src w s = Some s' \<Longrightarrow> quiet (s_egr s) (s_egr s')"
  unfolding ProcessBlock_def Let_def
  by (auto split: option.splits if_splits prod.splits bool.splits bind_splits
      dest: fragment_quiet(2) onEgress_enqueue_quiet(2) dest!: same_egress(1,4))

lemma ProcessAnchor_quiet: "ProcessAnchor L fw raw src w s = Some s' \<Longrightarrow> quiet (s_egr s) (s_egr s')"
  unfolding ProcessAnchor_def Let_def
  by (auto split: option.splits if_splits prod.splits bool.splits bind_splits
      dest: onEgress_enqueue_quiet(2) dest!: same_egress(1,4))

lemma ProcessSubtreeData_quiet: "ProcessSubtreeData L fw raw src w s = Some s' \<Longrightarrow> quiet (s_egr s) (s_egr s')"
  unfolding ProcessSubtreeData_def Let_def
  by (auto split: option.splits if_splits prod.splits bool.splits bind_splits
      dest: fragment_quiet(3) onEgress_enqueue_quiet(2) dest!: same_egress(1,4))

lemma ProcessBundle_quiet: "ProcessBundle fw raw w s = Some s' \<Longrightarrow> quiet (s_egr s) (s_egr s')"
  unfolding ProcessBundle_def Let_def
  by (auto split: option.splits if_splits prod.splits bind_splits dest: onEgress_enqueue_quiet(1) dest!: same_egress(3))

lemma ForwardControl_quiet: "ForwardControl L fw raw idx port s = Some s' \<Longrightarrow> quiet (s_egr s) (s_egr s')"
  unfolding ForwardControl_def by (rule onEgress_enqueue_quiet(3))


lemma sendBundle_quiet: "sendBundle L fw bk dst w ms s = Some s' \<Longrightarrow> quiet (s_egr s) (s_egr s')"
  unfolding sendBundle_def Let_def
  by (auto split: option.splits prod.splits bind_splits dest: onEgress_enqueue_quiet(1))

lemma packBucket_quiet:
  assumes "packBucket L fw mm bk dst w ms s = Some s'" shows "quiet (s_egr s) (s_egr s')"
  using assms
proof (induction rule: packBucket.raw_induct [rotated, consumes 1, case_names step])
  case (step pb L fw mm bk dst w ms s s')
  show ?case
  proof (cases "ms = []")
    case True
    then show ?thesis using step(2) by simp
  next
    case False
    then obtain ps rest s1 where b: "sendBundle L fw bk dst w ps s = Some s1" "pb L fw mm bk dst w rest s1 = Some s'"
      using step(2) by (auto split: prod.splits bind_splits)
    then show ?thesis using quiet_trans [OF sendBundle_quiet [OF b(1)] step(1) [OF b(2)]] by simp
  qed
qed

lemma FlushCoalesced_quiet: "FlushCoalesced L fw w s = Some s' \<Longrightarrow> quiet (s_egr s) (s_egr s')"
proof -
  have fb: "quiet (s_egr a) (s_egr b)" if "flushBucket L fw mm w bk a = Some b" for mm bk a b
    using that by (auto simp: flushBucket_def split: prod.splits dest!: same_egress(3) packBucket_quiet)
  have fl: "quiet (s_egr s) (s_egr t)" if "fold_opt (flushBucket L fw mm w) bs s = Some t" for mm bs t
    using that
  proof (rule fold_opt_inv [where P = "\<lambda>t. quiet (s_egr s) (s_egr t)"])
    fix b t u assume q: "quiet (s_egr s) (s_egr t)" and f: "flushBucket L fw mm w b t = Some u"
    show "quiet (s_egr s) (s_egr u)" by (rule quiet_trans [OF q fb [OF f]])
  qed simp
  have rs: "quiet (s_egr a) (s_egr b)"
    if "onEgress (\<lambda>e. Some (e\<lparr>e_coal := map_option coalBuffer_reset (e_coal e)\<rparr>)) a = Some b" for a b
    using that by (rule onEgress_quiet) (auto simp: queues_only_def)
  show "FlushCoalesced L fw w s = Some s' \<Longrightarrow> quiet (s_egr s) (s_egr s')"
    unfolding FlushCoalesced_def
    by (auto split: option.splits if_splits bind_splits dest!: fl rs intro: quiet_trans)
qed

lemma checkBEEF_same_egress: "checkBEEF L fw raw src w chk s = Some (s', adm) \<Longrightarrow> s_egr s' = s_egr s"
  unfolding checkBEEF_def
  by (auto split: option.splits prod.splits if_splits bind_splits dest!: same_egress(2,5))

lemma deliverBEEF_quiet: "deliverBEEF L fw raw bf g src w s = Some s' \<Longrightarrow> quiet (s_egr s) (s_egr s')"
proof -
  have e: "emitBEEF fw raw g w s = Some s' \<Longrightarrow> quiet (s_egr s) (s_egr s')" for raw s s'
    unfolding emitBEEF_def
    by (auto split: if_splits prod.splits dest!: same_egress(3) onEgress_enqueue_quiet(1))
  have f: "fragmentBEEF L fw bf ip g w s = Some s' \<Longrightarrow> quiet (s_egr s) (s_egr s')" for ip s s'
    unfolding fragmentBEEF_def beefFragTotal_def Let_def
    by (auto split: if_splits prod.splits bind_splits option.splits dest!: same_egress(3)
        fragLoop_quiet [OF _ pooled_queues(1)])
  show "deliverBEEF L fw raw bf g src w s = Some s' \<Longrightarrow> quiet (s_egr s) (s_egr s')"
    unfolding deliverBEEF_def
    by (auto split: option.splits if_splits bind_splits dest: e f dest!: same_egress(4))
qed

lemma processBEEF_quiet: "processBEEF L fw raw src w chk s = Some s' \<Longrightarrow> quiet (s_egr s) (s_egr s')"
  unfolding processBEEF_def
  by (auto split: bind_splits option.splits dest!: checkBEEF_same_egress deliverBEEF_quiet)

lemma DispatchBEEF_quiet: "DispatchBEEF L fw p src w s = Some s' \<Longrightarrow> quiet (s_egr s) (s_egr s')"
  unfolding DispatchBEEF_def
  by (auto split: bind_splits option.splits dest!: processBEEF_quiet simp: meterBEEF_def)

lemma dispatchBareTx_quiet: "dispatchBareTx L fw tx src w s = Some s' \<Longrightarrow> quiet (s_egr s) (s_egr s')"
  unfolding dispatchBareTx_def
  by (auto split: option.splits if_splits dest!: process_quiet)

lemma DispatchClass_quiet: "DispatchClass L fw raw src w cls s = Some s' \<Longrightarrow> quiet (s_egr s) (s_egr s')"
proof -
  show "DispatchClass L fw raw src w cls s = Some s' \<Longrightarrow> quiet (s_egr s) (s_egr s')"
    unfolding DispatchClass_def Let_def SubmitBEEF_def Process_def ProcessBEEF_def rejectPrivileged_def rejectOnBEEFLane_def
    by (auto split: if_splits dest: DispatchBEEF_quiet dispatchBareTx_quiet dest!: process_quiet ProcessBlock_quiet
        ProcessAnchor_quiet ProcessSubtreeData_quiet ProcessBundle_quiet processBEEF_quiet)
qed

end
