(* ===== verification/Worker.thy ===== *)
theory Worker
  imports Queueing Sockets
begin

text \<open>
  \<^verbatim>\<open>worker/worker.go\<close>: the UDP worker.  \<open>worker_Run\<close> opens the ingress socket and the egress targets,
  runs the receive loop over what \<^verbatim>\<open>ReadBatch\<close> returns, and runs the deferred calls in their order when
  it returns.  A run is driven by the list of the results of \<^verbatim>\<open>ReadBatch\<close>; when the list ends before
  the socket is closed the worker is still running.  The tees' goroutines take any number of steps
  before each flush.
\<close>

subsection \<open>The code\<close>

definition RecvBufSize :: nat where "RecvBufSize = 65536"
definition DefaultRecvBufBytes :: int where "DefaultRecvBufBytes = 4 * 1024 * 1024"
definition DefaultRecvBatch :: int where "DefaultRecvBatch = 32"

record Worker =
  w_id :: int
  w_ifaces :: "iface list"
  w_rec :: bool
  w_recvBatch :: int
  w_recvBufBytes :: int
  w_class :: IngressClass
  w_retryTee :: string
  w_localMirror :: string

definition worker_New :: "int \<Rightarrow> iface list \<Rightarrow> bool \<Rightarrow> Worker" where
  "worker_New ident ifaces rec =
     \<lparr>w_id = ident, w_ifaces = ifaces, w_rec = rec, w_recvBatch = DefaultRecvBatch,
      w_recvBufBytes = DefaultRecvBufBytes, w_class = IngressPrivileged, w_retryTee = '''', w_localMirror = ''''\<rparr>"

definition worker_SetRetryTee :: "string \<Rightarrow> Worker \<Rightarrow> Worker" where
  "worker_SetRetryTee addr w = w\<lparr>w_retryTee := addr\<rparr>"

definition worker_SetLocalMirror :: "string \<Rightarrow> Worker \<Rightarrow> Worker" where
  "worker_SetLocalMirror addr w = w\<lparr>w_localMirror := addr\<rparr>"

definition SetRecvBatch :: "int \<Rightarrow> Worker \<Rightarrow> Worker" where
  "SetRecvBatch n w = w\<lparr>w_recvBatch := (if n < 1 then 1 else n)\<rparr>"

definition SetRecvBufBytes :: "int \<Rightarrow> Worker \<Rightarrow> Worker" where
  "SetRecvBufBytes n w = (if n < 1 then w else w\<lparr>w_recvBufBytes := n\<rparr>)"

definition worker_SetIngressClass :: "IngressClass \<Rightarrow> Worker \<Rightarrow> Worker" where
  "worker_SetIngressClass c w = w\<lparr>w_class := c\<rparr>"

text \<open>The sockets a worker's egress writes to: those of its targets and of its two tees, and how many
  steps the tees' goroutines have taken before the \<open>n\<close>-th batch.\<close>

record net_env =
  ne_sock :: "nat \<Rightarrow> message writer"
  ne_tee :: "bytes writer"
  ne_mirror :: "bytes writer"
  ne_turn :: "nat \<Rightarrow> nat"

fun teeSteps :: "bytes writer \<Rightarrow> nat \<Rightarrow> retryTee \<Rightarrow> retryTee \<times> event list" where
  "teeSteps wr 0 t = (t, [])"
| "teeSteps wr (Suc k) t =
     (case tee_run wr t of
        Some (t1, ev1) \<Rightarrow> (case teeSteps wr k t1 of (t2, ev2) \<Rightarrow> (t2, ev1 @ ev2))
      | None \<Rightarrow> (case tee_recv t of Some t1 \<Rightarrow> teeSteps wr k t1 | None \<Rightarrow> (t, [])))"

definition teeTurn :: "net_env \<Rightarrow> nat \<Rightarrow> fstate \<Rightarrow> fstate" where
  "teeTurn env n s =
     (case s_egr s of
        None \<Rightarrow> s
      | Some e \<Rightarrow>
          let (t, ev1) = (case e_tee e of None \<Rightarrow> (None, [])
                          | Some t \<Rightarrow> (case teeSteps (ne_tee env) (ne_turn env n) t of (t', ev) \<Rightarrow> (Some t', ev)));
              (m, ev2) = (case e_mirror e of None \<Rightarrow> (None, [])
                          | Some t \<Rightarrow> (case teeSteps (ne_mirror env) (ne_turn env n) t of (t', ev) \<Rightarrow> (Some t', ev)))
          in s\<lparr>s_egr := Some (e\<lparr>e_tee := t, e_mirror := m\<rparr>), s_ev := s_ev s @ ev1 @ ev2\<rparr>)"

definition egrFlush :: "net_env \<Rightarrow> fstate \<Rightarrow> fstate option" where
  "egrFlush env s =
     (case s_egr s of
        None \<Rightarrow> None
      | Some e \<Rightarrow> do { (e', ev) \<leftarrow> egress_flush (ne_sock env) e;
                       Some (s\<lparr>s_egr := Some e', s_ev := s_ev s @ ev\<rparr>) })"

text \<open>\<^verbatim>\<open>w.rec != nil && len(targets) > 0\<close>.\<close>

definition wemit :: "Worker \<Rightarrow> (string \<Rightarrow> event) \<Rightarrow> fstate \<Rightarrow> fstate" where
  "wemit w ev s =
     (case s_egr s of
        None \<Rightarrow> s
      | Some e \<Rightarrow> (case e_targets e of
                      [] \<Rightarrow> s
                    | t # ts \<Rightarrow> if w_rec w then s\<lparr>s_ev := s_ev s @ [ev t]\<rparr> else s))"

definition recvOne :: "lib \<Rightarrow> Forwarder \<Rightarrow> Worker \<Rightarrow> bytes \<times> net_addr option \<Rightarrow> fstate \<Rightarrow> fstate option" where
  "recvOne L fw w m s =
     (case m of (raw, src) \<Rightarrow>
        if length raw = RecvBufSize
        then Some (wemit w (\<lambda>i. PacketDropped i (w_id w) ''truncated'') s)
        else DispatchClass L fw raw src (w_id w) (w_class w)
               (wemit w (\<lambda>i. PacketReceived i (w_id w) (length raw)) s))"

definition recvBatch ::
  "lib \<Rightarrow> Forwarder \<Rightarrow> net_env \<Rightarrow> Worker \<Rightarrow> nat \<Rightarrow> (bytes \<times> net_addr option) list \<Rightarrow> fstate \<Rightarrow> fstate option" where
  "recvBatch L fw env w n ms s =
     do { s1 \<leftarrow> fold_opt (recvOne L fw w) ms s;
          s2 \<leftarrow> FlushCoalesced L fw (w_id w) s1;
          egrFlush env (teeTurn env n s2) }"

datatype (plugins only: code size) read_result =
    ReadErr go_err
  | ReadMsgs "(bytes \<times> net_addr option) list"

text \<open>The receive loop; the flag tells whether the loop has returned.\<close>

fun recvLoop ::
  "lib \<Rightarrow> Forwarder \<Rightarrow> net_env \<Rightarrow> Worker \<Rightarrow> nat \<Rightarrow> read_result list \<Rightarrow> fstate \<Rightarrow> (bool \<times> fstate) option" where
  "recvLoop L fw env w n [] s = Some (False, s)"
| "recvLoop L fw env w n (ReadErr e # rs) s =
     (if isClosedErr (Some e) then Some (True, s)
      else recvLoop L fw env w n rs (wemit w (\<lambda>i. IngressError i (w_id w)) s))"
| "recvLoop L fw env w n (ReadMsgs ms # rs) s =
     do { s1 \<leftarrow> recvBatch L fw env w n ms s;
          recvLoop L fw env w (Suc n) rs s1 }"

text \<open>The sockets of \<^verbatim>\<open>Run\<close>, up to the egress targets: the descriptor of the ingress connection and the
  targets.\<close>

definition worker_open ::
  "kernel \<Rightarrow> Forwarder \<Rightarrow> Worker \<Rightarrow> os \<Rightarrow> (go_err + nat \<times> Target list) \<times> os" where
  "worker_open K fw w h =
     (case os_create K h of
        (Inl e, h1) \<Rightarrow> (Inl (WrapErr ''socket'' e), h1)
      | (Inr fd, h1) \<Rightarrow>
          (case sockopt K fd ''SO_REUSEPORT'' 1 h1 of
             (Some e, h2) \<Rightarrow> (Inl (WrapErr ''reuseport'' e), os_close fd h2)
           | (None, h2) \<Rightarrow>
               (case sockopt K fd ''SO_RCVBUF'' (w_recvBufBytes w) h2 of
                  (_, h3) \<Rightarrow>
                    (case syscall K (snd (syscall K h3)) of
                       (Some e, h4) \<Rightarrow> (Inl (WrapErr ''bind'' e), os_close fd h4)
                     | (None, h4) \<Rightarrow>
                         (case os_create K h4 of
                            (Inl e, h5) \<Rightarrow> (Inl (WrapErr ''FilePacketConn'' e), os_close fd h5)
                          | (Inr conn, h5) \<Rightarrow>
                              (case OpenTargets K fw (w_ifaces w) (w_id w = 0) (os_close fd h5) of
                                 (Inl e, h6) \<Rightarrow> (Inl (WrapErr ''open targets'' e), os_close conn h6)
                               | (Inr ts, h6) \<Rightarrow> (Inr (conn, ts), h6)))))))"

text \<open>Enabling a tee: no address, no tee; a failed dial is logged and the tee stays off.\<close>

definition dialTee ::
  "kernel \<Rightarrow> string \<Rightarrow> (bool \<Rightarrow> Egress \<Rightarrow> Egress option) \<Rightarrow> Egress \<times> os \<Rightarrow> nat option \<times> Egress \<times> os" where
  "dialTee K addr enable eh =
     (case eh of (e, h) \<Rightarrow>
        if addr = '''' then (None, e, h)
        else case NewTeeSocket K h of
               (Inl err, h1) \<Rightarrow> (case enable False e of Some e' \<Rightarrow> (None, e', h1) | None \<Rightarrow> (None, e, h1))
             | (Inr fd, h1) \<Rightarrow> (case enable True e of Some e' \<Rightarrow> (Some fd, e', h1) | None \<Rightarrow> (None, e, h1)))"

datatype (plugins only: code size) run_result =
    Running os fstate
  | Returned "go_err option" os fstate

definition closeOpt :: "nat option \<Rightarrow> os \<Rightarrow> os" where
  "closeOpt fo h = (case fo of None \<Rightarrow> h | Some fd \<Rightarrow> os_close fd h)"

definition onEgressEvents :: "(Egress \<Rightarrow> Egress \<times> event list) \<Rightarrow> fstate \<Rightarrow> fstate" where
  "onEgressEvents f s =
     (case s_egr s of
        None \<Rightarrow> s
      | Some e \<Rightarrow> (case f e of (e', ev) \<Rightarrow> s\<lparr>s_egr := Some e', s_ev := s_ev s @ ev\<rparr>))"

text \<open>The deferred calls, last deferred first.\<close>

definition worker_exit ::
  "net_env \<Rightarrow> Worker \<Rightarrow> nat option \<Rightarrow> nat option \<Rightarrow> nat \<Rightarrow> Target list \<Rightarrow> os \<Rightarrow> fstate \<Rightarrow> (os \<times> fstate) option" where
  "worker_exit env w tee mir conn ts h s =
     (let s1 = (if mir = None then s else onEgressEvents (CloseLocalMirror (ne_mirror env)) s);
          s2 = (if tee = None then s1 else onEgressEvents (CloseRetryTee (ne_tee env)) s1)
      in do { s3 \<leftarrow> egrFlush env s2;
              let s4 = (if w_rec w then s3\<lparr>s_ev := s_ev s3 @ [WorkerDone]\<rparr> else s3);
              Some (os_close conn (CloseTargets ts (closeOpt tee (closeOpt mir h))), s4) })"

definition worker_Run ::
  "kernel \<Rightarrow> net_env \<Rightarrow> lib \<Rightarrow> Forwarder \<Rightarrow> Worker \<Rightarrow> read_result list \<Rightarrow> os \<Rightarrow> fstate \<Rightarrow> run_result option" where
  "worker_Run K env L fw w reads h s =
     (case worker_open K fw w h of
        (Inl e, h1) \<Rightarrow> Some (Returned (Some e) h1 s)
      | (Inr (conn, ts), h1) \<Rightarrow>
          let s1 = (if w_rec w then s\<lparr>s_ev := s_ev s @ [WorkerReady]\<rparr> else s);
              e0 = NewEgress (fw_fragDataSize fw) (fw_coalesce fw) (fw_coalesceMaxMembers fw)
                     (map (if_name \<circ> tg_iface) ts) (w_recvBatch w) (w_rec w)
          in case dialTee K (w_retryTee w) EnableRetryTee (e0, h1) of (tee, e1, h2) \<Rightarrow>
             case dialTee K (w_localMirror w) EnableLocalMirror (e1, h2) of (mir, e2, h3) \<Rightarrow>
               do { (done, s2) \<leftarrow> recvLoop L fw env w 0 reads (s1\<lparr>s_egr := Some e2\<rparr>);
                    if \<not> done then Some (Running h3 s2)
                    else do { (h4, s3) \<leftarrow> worker_exit env w tee mir conn ts h3 s2;
                              Some (Returned None h4 s3) } })"


subsection \<open>The loop\<close>

text \<open>Nothing is held: every queue and the coalescing buffer are empty.\<close>

definition drained :: "fstate \<Rightarrow> bool" where
  "drained s \<longleftrightarrow>
     (\<exists>e. s_egr s = Some e \<and> e_meta e = [] \<and> (\<forall>q \<in> set (e_msgs e). q = []) \<and>
          (\<forall>c. e_coal e = Some c \<longrightarrow> co_buckets c = []))"

lemma wemit_frame [simp]: "s_egr (wemit w ev s) = s_egr s" "fstate_ok fw (wemit w ev s) = fstate_ok fw s"
  by (auto simp: wemit_def fstate_ok_def split: option.split list.split)

lemma fstate_ok_events [simp]: "fstate_ok fw (s\<lparr>s_ev := ev\<rparr>) = fstate_ok fw s"
  by (simp add: fstate_ok_def)

lemma egr_ok_tees: "egr_ok fw (Some (e\<lparr>e_tee := t, e_mirror := m\<rparr>)) = egr_ok fw (Some e)"
  by (simp add: egr_ok_def egress_wf_def sender_ok_def cong: option.case_cong)

lemma teeTurn_effect:
  assumes "s_egr s = Some e"
  obtains t m ev where "teeTurn env n s = s\<lparr>s_egr := Some (e\<lparr>e_tee := t, e_mirror := m\<rparr>), s_ev := s_ev s @ ev\<rparr>"
proof -
  obtain t ev1 where 1: "(case e_tee e of None \<Rightarrow> (None, [])
      | Some t \<Rightarrow> (case teeSteps (ne_tee env) (ne_turn env n) t of (t', ev) \<Rightarrow> (Some t', ev))) = (t, ev1)"
    by (rule prod.exhaust)
  obtain m ev2 where 2: "(case e_mirror e of None \<Rightarrow> (None, [])
      | Some t \<Rightarrow> (case teeSteps (ne_mirror env) (ne_turn env n) t of (t', ev) \<Rightarrow> (Some t', ev))) = (m, ev2)"
    by (rule prod.exhaust)
  show thesis by (rule that [where t = t and m = m and ev = "ev1 @ ev2"]) (simp add: teeTurn_def assms 1 2)
qed

lemma egrFlush_ok:
  assumes ok: "fstate_ok fw s" and e: "s_egr s = Some e"
  shows "\<exists>s' e'. egrFlush env s = Some s' \<and> fstate_ok fw s' \<and> s_egr s' = Some e' \<and> e_meta e' = [] \<and>
     (\<forall>q \<in> set (e_msgs e'). q = []) \<and> e_coal e' = e_coal e \<and> e_targets e' = e_targets e"
proof -
  have k: "egress_wf (dst_of fw) e" "sender_ok e" using ok e by (simp_all add: fstate_ok_def egr_ok_def)
  obtain e' ev where f: "egress_flush (ne_sock env) e = Some (e', ev)" "egress_wf (dst_of fw) e'" "sender_ok e'"
    "e_targets e' = e_targets e" "e_meta e' = []" "e_poolSize e' = e_poolSize e" "e_coal e' = e_coal e"
    using flush_returns(1) [OF k, of "ne_sock env"] by blast
  have "\<forall>q \<in> set (e_msgs e'). q = []" using f(2,5) by (simp add: egress_wf_def)
  then show ?thesis using f ok e
    by (intro exI [of _ "s\<lparr>s_egr := Some e', s_ev := s_ev s @ ev\<rparr>"] exI [of _ e'])
      (simp add: egrFlush_def fstate_ok_def egr_ok_def)
qed

lemma recvOne_total:
  assumes "lib_ok L" shows "handler_total fw (recvOne L fw w m)"
proof (rule handler_totalI)
  fix s assume ok: "fstate_ok fw s"
  obtain raw src where m: "m = (raw, src)" by fastforce
  have "fstate_ok fw (wemit w (\<lambda>i. PacketReceived i (w_id w) (length raw)) s)" using ok by simp
  from handler_totalD [OF DispatchClass_total [OF assms] this]
  show "\<exists>s'. recvOne L fw w m s = Some s' \<and> fstate_ok fw s'"
    using ok by (simp add: recvOne_def m)
qed

interpretation received: ingress_handler L fw "recvOne L fw w" for L fw w
  by unfold_locales (rule recvOne_total)

lemma recvOne_quiet: "recvOne L fw w m s = Some s' \<Longrightarrow> quiet (s_egr s) (s_egr s')"
  by (auto simp: recvOne_def split: prod.splits if_splits dest!: DispatchClass_quiet)

lemma recvAll_quiet:
  assumes "fold_opt (recvOne L fw w) ms s = Some s'" shows "quiet (s_egr s) (s_egr s')"
  using assms
proof (rule fold_opt_inv [where P = "\<lambda>t. quiet (s_egr s) (s_egr t)"])
  fix m t u assume q: "quiet (s_egr s) (s_egr t)" and f: "recvOne L fw w m t = Some u"
  show "quiet (s_egr s) (s_egr u)" by (rule quiet_trans [OF q recvOne_quiet [OF f]])
qed simp

lemma FlushCoalesced_empties:
  assumes "fstate_ok fw s" "s_egr s = Some e"
  shows "\<exists>s' e'. FlushCoalesced L fw w s = Some s' \<and> fstate_ok fw s' \<and> s_egr s' = Some e' \<and>
     e_targets e' = e_targets e \<and> (\<forall>c. e_coal e' = Some c \<longrightarrow> co_buckets c = [])"
proof (cases "e_coal e")
  case None
  then show ?thesis using assms by (simp add: FlushCoalesced_def)
next
  case (Some c)
  then have "coal_wf c" using assms by (simp add: fstate_ok_def egr_ok_def)
  from FlushCoalesced_effect [OF assms Some this, of L w] show ?thesis by force
qed

lemma recvBatch_drains:
  assumes lib: "lib_ok L" and ok: "fstate_ok fw s" and e: "s_egr s = Some e"
  shows "\<exists>s' e'. recvBatch L fw env w n ms s = Some s' \<and> fstate_ok fw s' \<and> drained s' \<and> s_egr s' = Some e' \<and>
     e_targets e' = e_targets e"
proof -
  obtain s1 where s1: "fold_opt (recvOne L fw w) ms s = Some s1" "fstate_ok fw s1"
    using received.run_returns [OF lib ok] by blast
  obtain e1 where e1: "s_egr s1 = Some e1" "e_targets e1 = e_targets e"
    using recvAll_quiet [OF s1(1)] e by (cases "s_egr s1") (auto simp: queues_only_def)
  obtain s2 e2 where s2: "FlushCoalesced L fw (w_id w) s1 = Some s2" "fstate_ok fw s2" "s_egr s2 = Some e2"
    "e_targets e2 = e_targets e1" "\<forall>c. e_coal e2 = Some c \<longrightarrow> co_buckets c = []"
    using FlushCoalesced_empties [OF s1(2) e1(1)] by blast
  obtain t m ev where t: "teeTurn env n s2 = s2\<lparr>s_egr := Some (e2\<lparr>e_tee := t, e_mirror := m\<rparr>), s_ev := s_ev s2 @ ev\<rparr>"
    using teeTurn_effect [OF s2(3)] .
  have ok3: "fstate_ok fw (teeTurn env n s2)" using s2(2,3) egr_ok_tees [where e = e2 and t = t and m = m] by (simp add: t fstate_ok_def)
  obtain s4 e4 where s4: "egrFlush env (teeTurn env n s2) = Some s4" "fstate_ok fw s4" "s_egr s4 = Some e4"
    "e_meta e4 = []" "\<forall>q \<in> set (e_msgs e4). q = []" "e_coal e4 = e_coal e2" "e_targets e4 = e_targets e2"
    using egrFlush_ok [OF ok3, of "e2\<lparr>e_tee := t, e_mirror := m\<rparr>" env] t by auto
  then show ?thesis using s1(1) s2 e1 by (auto simp: recvBatch_def drained_def)
qed

lemma recvLoop_drained:
  assumes "lib_ok L" "fstate_ok fw s" "drained s"
  shows "\<exists>b s'. recvLoop L fw env w n rs s = Some (b, s') \<and> fstate_ok fw s' \<and> drained s' \<and>
     (b \<longleftrightarrow> (\<exists>e. ReadErr e \<in> set rs \<and> isClosedErr (Some e)))"
  using assms
proof (induction L fw env w n rs s rule: recvLoop.induct)
  case (2 L fw env w n e rs s)
  have "drained (wemit w (\<lambda>i. IngressError i (w_id w)) s)" using 2(4) by (simp add: drained_def)
  then show ?case using 2 by (cases "isClosedErr (Some e)") auto
next
  case (3 L fw env w n ms rs s)
  obtain e where e: "s_egr s = Some e" using 3(4) by (auto simp: drained_def)
  obtain s1 where s1: "recvBatch L fw env w n ms s = Some s1" "fstate_ok fw s1" "drained s1"
    using recvBatch_drains [OF 3(2,3) e] by blast
  then show ?case using 3(1) [OF s1(1) 3(2) s1(2,3)] by auto
qed auto


subsection \<open>Sockets of a run\<close>

lemma opts_set_keeps:
  assumes "opts_set fd h h'" "os_wf h" "fd < os_next h"
  shows "os_wf h'" "os_next h' = os_next h" "os_open h' = os_open h" "\<And>x. x \<noteq> fd \<Longrightarrow> opt_of h' x = opt_of h x"
  using assms by (fastforce simp: opts_set_def os_wf_def)+

text \<open>Up to the targets: the descriptor of the raw socket is closed on every path, and the
  connection made of it is the one that stays.\<close>

lemma worker_open_front:
  assumes wf: "os_wf h"
  shows "(\<exists>e h'. worker_open K fw w h = (Inl e, h') \<and> os_wf h' \<and> os_next h \<le> os_next h' \<and>
            set (os_open h') = set (os_open h) \<and> (\<forall>x < os_next h. opt_of h' x = opt_of h x)) \<or>
     (\<exists>conn h'. worker_open K fw w h =
            (case OpenTargets K fw (w_ifaces w) (w_id w = 0) h' of
               (Inl e, h6) \<Rightarrow> (Inl (WrapErr ''open targets'' e), os_close conn h6)
             | (Inr ts, h6) \<Rightarrow> (Inr (conn, ts), h6)) \<and>
          os_wf h' \<and> os_next h \<le> conn \<and> conn < os_next h' \<and> conn \<notin> set (os_open h) \<and>
          set (os_open h') = insert conn (set (os_open h)) \<and> (\<forall>x < os_next h. opt_of h' x = opt_of h x))"
proof (cases "K (os_calls h)")
  case (Some e)
  then show ?thesis using wf by (simp add: worker_open_def os_create_def syscall_def)
next
  case None
  let ?fd = "os_next h"
  define h1 where "h1 = h\<lparr>os_calls := Suc (os_calls h), os_next := Suc ?fd, os_open := ?fd # os_open h\<rparr>"
  have c1: "os_create K h = (Inr ?fd, h1)" using None by (simp add: os_create_def syscall_def h1_def)
  have new: "?fd \<notin> set (os_open h)" "Suc ?fd \<notin> set (os_open h)" using wf by (auto simp: os_wf_def)
  have wf1: "os_wf h1" using wf by (auto simp: os_wf_def h1_def)
  obtain r2 h2 where r2: "sockopt K ?fd ''SO_REUSEPORT'' 1 h1 = (r2, h2)" by fastforce
  obtain r3 h3 where r3: "sockopt K ?fd ''SO_RCVBUF'' (w_recvBufBytes w) h2 = (r3, h3)" by fastforce
  note s2 = opts_set_keeps [OF sockopt_sets [OF r2] wf1]
  have f2: "os_wf h2" "os_next h2 = Suc ?fd" "os_open h2 = ?fd # os_open h" "\<And>x. x \<noteq> ?fd \<Longrightarrow> opt_of h2 x = opt_of h x"
    using s2 by (simp_all add: h1_def)
  note s3 = opts_set_keeps [OF sockopt_sets [OF r3] f2(1)]
  have f3: "os_wf h3" "os_next h3 = Suc ?fd" "os_open h3 = ?fd # os_open h" "\<And>x. x \<noteq> ?fd \<Longrightarrow> opt_of h3 x = opt_of h x"
    using s3 f2 by simp_all
  have wfc: "os_wf (os_close ?fd x)" if "os_wf x" for x using that by (auto simp: os_wf_def os_close_def)
  let ?h4 = "h3\<lparr>os_calls := Suc (Suc (os_calls h3))\<rparr>"
  let ?h5 = "h3\<lparr>os_calls := Suc (Suc (Suc (os_calls h3))), os_next := Suc (Suc ?fd), os_open := Suc ?fd # ?fd # os_open h\<rparr>"
  have wf5: "os_wf ?h5" using f3 by (auto simp: os_wf_def)
  have c5: "os_create K ?h4 = (case K (Suc (Suc (os_calls h3))) of
      Some e \<Rightarrow> (Inl e, h3\<lparr>os_calls := Suc (Suc (Suc (os_calls h3)))\<rparr>) | None \<Rightarrow> (Inr (Suc ?fd), ?h5))"
    using f3 by (simp add: os_create_def syscall_def split: option.split)
  have fail: ?thesis if "worker_open K fw w h = (Inl e, os_close ?fd x)" "os_wf x" "os_next x = Suc ?fd"
    "os_open x = ?fd # os_open h" "\<And>y. y \<noteq> ?fd \<Longrightarrow> opt_of x y = opt_of h y" for e x
    by (rule disjI1, intro exI conjI, rule that(1))
      (use that(2-5) wfc [OF that(2)] new in \<open>simp_all add: os_close_def\<close>)
  consider (reuse) e where "r2 = Some e" | (bnd) e where "r2 = None" "K (Suc (os_calls h3)) = Some e"
    | (wrap) e where "r2 = None" "K (Suc (os_calls h3)) = None" "K (Suc (Suc (os_calls h3))) = Some e"
    | (conn) "r2 = None" "K (Suc (os_calls h3)) = None" "K (Suc (Suc (os_calls h3))) = None"
    by fastforce
  then show ?thesis
  proof cases
    case reuse
    show ?thesis by (rule fail [of _ h2]) (use reuse f2 in \<open>simp_all add: worker_open_def c1 r2\<close>)
  next
    case bnd
    show ?thesis by (rule fail [of _ ?h4]) (use bnd f3 in \<open>simp_all add: worker_open_def c1 r2 r3 syscall_def\<close>)
  next
    case wrap
    show ?thesis
      by (rule fail [of _ "h3\<lparr>os_calls := Suc (Suc (Suc (os_calls h3)))\<rparr>"])
        (use wrap f3 in \<open>simp_all add: worker_open_def c1 c5 r2 r3 syscall_def\<close>)
  next
    case conn
    have "worker_open K fw w h = (case OpenTargets K fw (w_ifaces w) (w_id w = 0) (os_close ?fd ?h5) of
               (Inl e, h6) \<Rightarrow> (Inl (WrapErr ''open targets'' e), os_close (Suc ?fd) h6)
             | (Inr ts, h6) \<Rightarrow> (Inr (Suc ?fd, ts), h6))"
      using conn f3 by (simp add: worker_open_def c1 c5 r2 r3 syscall_def)
    moreover have "\<forall>x < ?fd. opt_of (os_close ?fd ?h5) x = opt_of h x" using f3(4) by (simp add: os_close_def)
    moreover have "set (os_open (os_close ?fd ?h5)) = insert (Suc ?fd) (set (os_open h))"
      using new by (auto simp: os_close_def)
    ultimately show ?thesis using wfc [OF wf5] new
      by (intro disjI2 exI [of _ "Suc ?fd"] exI [of _ "os_close ?fd ?h5"]) (simp add: os_close_def)
  qed
qed

lemma worker_open_opens:
  assumes wf: "os_wf h"
  shows "opens (\<lambda>(conn, ts). conn # map tg_fd ts) (\<lambda>(conn, ts) h'. map tg_iface ts = w_ifaces w) h (worker_open K fw w h)"
  using worker_open_front [OF wf, of K fw w]
proof (elim disjE exE conjE, goal_cases)
  case (1 e h')
  then show ?case by (simp add: opens_def)
next
  case (2 conn h')
  obtain res h6 where o: "OpenTargets K fw (w_ifaces w) (w_id w = 0) h' = (res, h6)" by fastforce
  note oe = OpenTargets_opens [OF 2(2), of "w_ifaces w" fw K "w_id w = 0", unfolded o opens_def]
  show ?case
  proof (cases res)
    case (Inl e)
    have "os_wf (os_close conn h6)" using oe by (auto simp: os_wf_def os_close_def)
    then show ?thesis using 2 o oe Inl by (auto simp: opens_def os_close_def)
  next
    case (Inr ts)
    then show ?thesis using 2 o oe by (fastforce simp: opens_def)
  qed
qed


definition fd_list :: "nat option \<Rightarrow> nat list" where
  "fd_list fo = (case fo of None \<Rightarrow> [] | Some fd \<Rightarrow> [fd])"

definition only_tees :: "Egress \<Rightarrow> Egress \<Rightarrow> bool" where
  "only_tees e e' \<longleftrightarrow> (\<exists>t m. e' = e\<lparr>e_tee := t, e_mirror := m\<rparr>)"

lemma only_tees_keeps:
  assumes "only_tees e e'"
  shows "egr_ok fw (Some e') = egr_ok fw (Some e)" "e_meta e' = e_meta e" "e_msgs e' = e_msgs e" "e_coal e' = e_coal e"
    "e_targets e' = e_targets e"
  using assms egr_ok_tees by (auto simp: only_tees_def)

lemma only_teesI: "only_tees e (e\<lparr>e_tee := t\<rparr>)" "only_tees e (e\<lparr>e_mirror := m\<rparr>)" "only_tees e e"
proof -
  have "e\<lparr>e_tee := t\<rparr> = e\<lparr>e_tee := t, e_mirror := e_mirror e\<rparr>" "e\<lparr>e_mirror := m\<rparr> = e\<lparr>e_tee := e_tee e, e_mirror := m\<rparr>"
    "e = e\<lparr>e_tee := e_tee e, e_mirror := e_mirror e\<rparr>" by simp_all
  then show "only_tees e (e\<lparr>e_tee := t\<rparr>)" "only_tees e (e\<lparr>e_mirror := m\<rparr>)" "only_tees e e"
    unfolding only_tees_def by blast+
qed

lemma only_tees_trans: "only_tees e e1 \<Longrightarrow> only_tees e1 e2 \<Longrightarrow> only_tees e e2"
proof -
  assume "only_tees e e1" "only_tees e1 e2"
  then obtain t m where "e2 = e\<lparr>e_tee := t, e_mirror := m\<rparr>" by (auto simp: only_tees_def)
  then show ?thesis unfolding only_tees_def by blast
qed

lemma enable_only_tees:
  "EnableRetryTee b e = Some e' \<Longrightarrow> only_tees e e'" "EnableLocalMirror b e = Some e' \<Longrightarrow> only_tees e e'"
  "only_tees e (fst (CloseRetryTee wr e))" "only_tees e (fst (CloseLocalMirror wr e))"
  by (auto simp: EnableRetryTee_def EnableLocalMirror_def CloseRetryTee_def CloseLocalMirror_def split_def
      intro: only_teesI split: if_splits option.splits)

lemma enabled:
  "\<forall>b e1 e2. EnableRetryTee b e1 = Some e2 \<longrightarrow> only_tees e1 e2" "\<forall>e1. EnableRetryTee True e1 \<noteq> None"
  "\<forall>b e1 e2. EnableLocalMirror b e1 = Some e2 \<longrightarrow> only_tees e1 e2" "\<forall>e1. EnableLocalMirror True e1 \<noteq> None"
  using enable_only_tees(1,2) by (auto simp: EnableRetryTee_def EnableLocalMirror_def)

lemma dialTee_effect:
  assumes wf: "os_wf h" and d: "dialTee K addr enable (e, h) = (fo, e', h')"
    and en: "\<forall>b e1 e2. enable b e1 = Some e2 \<longrightarrow> only_tees e1 e2" "\<forall>e1. enable True e1 \<noteq> None"
  shows "only_tees e e'" "os_wf h'" "os_next h \<le> os_next h'" "set (os_open h') = set (os_open h) \<union> set (fd_list fo)"
    "\<And>fd. fo = Some fd \<Longrightarrow> os_next h \<le> fd"
proof -
  obtain res h1 where r: "NewTeeSocket K h = (res, h1)" by fastforce
  have o: "opens (\<lambda>fd. [fd]) (\<lambda>_ _. True) h (res, h1)" using tees.opened [OF wf, of K] r by simp
  obtain e1 where e1: "enable True e = Some e1" using en(2) by blast
  consider (off) "addr = []" "fo = None" "e' = e" "h' = h"
    | (failed) x where "res = Inl x" "fo = None" "h' = h1" "only_tees e e'"
    | (on) fd where "res = Inr fd" "fo = Some fd" "h' = h1" "only_tees e e'"
    using d r en(1) e1 only_teesI(3)
    by (cases res) (auto simp: dialTee_def split: if_splits option.splits)
  note cs = this
  show "only_tees e e'" using cs only_teesI(3) by cases auto
  show "os_wf h'" using cs o wf by cases (auto simp: opens_def)
  show "os_next h \<le> os_next h'" using cs o by cases (auto simp: opens_def)
  show "set (os_open h') = set (os_open h) \<union> set (fd_list fo)" using cs o by cases (auto simp: opens_def fd_list_def)
  show "\<And>fd. fo = Some fd \<Longrightarrow> os_next h \<le> fd" using cs o by cases (auto simp: opens_def)
qed

lemma drained_tees:
  assumes "drained s" "fstate_ok fw s"
  shows "\<exists>e s'. s_egr s = Some e \<and> onEgressEvents f s = s' \<and> (only_tees e (fst (f e)) \<longrightarrow> drained s' \<and> fstate_ok fw s')"
proof -
  obtain e where e: "s_egr s = Some e" using assms(1) by (auto simp: drained_def)
  then show ?thesis using assms only_tees_keeps [of e "fst (f e)"]
    by (auto simp: onEgressEvents_def drained_def fstate_ok_def split_def)
qed

lemma drained_close:
  assumes "drained s" "fstate_ok fw s"
  shows "drained (onEgressEvents (CloseRetryTee wr) s)" "fstate_ok fw (onEgressEvents (CloseRetryTee wr) s)"
    "drained (onEgressEvents (CloseLocalMirror wr) s)" "fstate_ok fw (onEgressEvents (CloseLocalMirror wr) s)"
  using drained_tees [OF assms, of "CloseRetryTee wr"] drained_tees [OF assms, of "CloseLocalMirror wr"]
    enable_only_tees(3,4) by blast+

lemma worker_exit_effect:
  assumes ok: "fstate_ok fw s" and d: "drained s"
  shows "\<exists>h' s'. worker_exit env w tee mir conn ts h s = Some (h', s') \<and> fstate_ok fw s' \<and> drained s' \<and>
     set (os_open h') = set (os_open h) - set (conn # map tg_fd ts @ fd_list tee @ fd_list mir)"
proof -
  define s1 where "s1 = (if mir = None then s else onEgressEvents (CloseLocalMirror (ne_mirror env)) s)"
  define s2 where "s2 = (if tee = None then s1 else onEgressEvents (CloseRetryTee (ne_tee env)) s1)"
  have k1: "drained s1" "fstate_ok fw s1" using drained_close [OF d ok] ok d by (simp_all add: s1_def)
  have k2: "drained s2" "fstate_ok fw s2" using drained_close [OF k1] k1 by (simp_all add: s2_def)
  obtain e where e: "s_egr s2 = Some e" using k2(1) by (auto simp: drained_def)
  obtain s3 e' where s3: "egrFlush env s2 = Some s3" "fstate_ok fw s3" "s_egr s3 = Some e'" "e_meta e' = []"
    "\<forall>q \<in> set (e_msgs e'). q = []" "e_coal e' = e_coal e"
    using egrFlush_ok [OF k2(2) e, of env] by blast
  have d3: "drained s3" using k2(1) e s3 by (auto simp: drained_def)
  let ?s4 = "if w_rec w then s3\<lparr>s_ev := s_ev s3 @ [WorkerDone]\<rparr> else s3"
  let ?h = "os_close conn (CloseTargets ts (closeOpt tee (closeOpt mir h)))"
  have eq: "worker_exit env w tee mir conn ts h s = Some (?h, ?s4)"
    unfolding worker_exit_def Let_def s1_def [symmetric] s2_def [symmetric] using s3(1) by simp
  have "set (os_open ?h) = set (os_open h) - set (conn # map tg_fd ts @ fd_list tee @ fd_list mir)"
    by (cases tee; cases mir) (auto simp: os_close_def CloseTargets_def closeTargets_effect closeOpt_def fd_list_def)
  then show ?thesis unfolding eq using s3(2) d3 by (auto simp: drained_def)
qed

text \<open>The state the loop starts in.\<close>

lemma worker_start:
  assumes "fstate_ok fw s" "only_tees (NewEgress (fw_fragDataSize fw) c mm ts n r) e"
  shows "fstate_ok fw (s\<lparr>s_egr := Some e\<rparr>)" "drained (s\<lparr>s_egr := Some e\<rparr>)"
proof -
  note k = only_tees_keeps [OF assms(2)]
  show "fstate_ok fw (s\<lparr>s_egr := Some e\<rparr>)"
    using started_ok [OF assms(1), of c mm ts n r] k(1) [of fw] by (simp add: fstate_ok_def)
  show "drained (s\<lparr>s_egr := Some e\<rparr>)" using k(2-4) by (auto simp: drained_def NewEgress_def newCoalBuffer_def)
qed

subsection \<open>Properties\<close>

text \<open>C25.  The worker holds nothing across a read.  Whatever the sockets deliver, every batch of
  datagrams is dispatched, packed and flushed before the next \<^verbatim>\<open>ReadBatch\<close>: the loop never fails, and
  whenever it is back at the read its queues and its coalescing buffer are empty, so the receive buffers
  it reuses are referenced by nothing.  It returns exactly when the ingress socket was closed.\<close>

theorem worker_holds_nothing:
  assumes "lib_ok L" "fstate_ok fw s" "drained s"
  shows "\<exists>b s'. recvLoop L fw env w n reads s = Some (b, s') \<and> fstate_ok fw s' \<and> drained s' \<and>
     (b \<longleftrightarrow> (\<exists>e. ReadErr e \<in> set reads \<and> isClosedErr (Some e)))"
  using assms by (rule recvLoop_drained)

text \<open>C26.  A worker's run releases what it acquired.  Once the ingress socket is closed, or any step
  of the start fails, \<^verbatim>\<open>Run\<close> returns with exactly the descriptors open that were open before it, the
  sockets of the tees included, and nothing queued.\<close>

theorem worker_releases:
  assumes "lib_ok L" "fstate_ok fw s" "os_wf h" and cl: "ReadErr ce \<in> set reads" "isClosedErr (Some ce)"
  shows "\<exists>err h' s'. worker_Run K env L fw w reads h s = Some (Returned err h' s') \<and>
     set (os_open h') = set (os_open h) \<and> fstate_ok fw s' \<and> (err = None \<longrightarrow> drained s')"
proof -
  obtain res h1 where r: "worker_open K fw w h = (res, h1)" by fastforce
  note o = worker_open_opens [OF assms(3), of w K fw, unfolded r]
  show ?thesis
  proof (cases res)
    case (Inl e)
    then show ?thesis using r o assms(2) by (simp add: worker_Run_def opens_def)
  next
    case (Inr ct)
    obtain conn ts where ct: "ct = (conn, ts)" by fastforce
    let ?s1 = "if w_rec w then s\<lparr>s_ev := s_ev s @ [WorkerReady]\<rparr> else s"
    let ?e0 = "NewEgress (fw_fragDataSize fw) (fw_coalesce fw) (fw_coalesceMaxMembers fw)
                     (map (if_name \<circ> tg_iface) ts) (w_recvBatch w) (w_rec w)"
    obtain tee e1 h2 where t: "dialTee K (w_retryTee w) EnableRetryTee (?e0, h1) = (tee, e1, h2)" by (metis prod_cases3)
    obtain mir e2 h3 where m: "dialTee K (w_localMirror w) EnableLocalMirror (e1, h2) = (mir, e2, h3)" by (metis prod_cases3)
    have o1: "os_wf h1" "os_next h \<le> os_next h1" "set (os_open h1) = set (os_open h) \<union> set (conn # map tg_fd ts)"
      "\<forall>fd \<in> set (conn # map tg_fd ts). os_next h \<le> fd"
      using o Inr ct by (auto simp: opens_def)
    note te = dialTee_effect [OF o1(1) t enabled(1,2)]
    note me = dialTee_effect [OF te(2) m enabled(3,4)]
    have "fstate_ok fw ?s1" using assms(2) by simp
    note st = worker_start [OF this only_tees_trans [OF te(1) me(1)]]
    have c: "(\<exists>e. ReadErr e \<in> set reads \<and> isClosedErr (Some e)) = True" using cl by blast
    obtain s2 where s2: "recvLoop L fw env w 0 reads (?s1\<lparr>s_egr := Some e2\<rparr>) = Some (True, s2)"
      "fstate_ok fw s2" "drained s2"
      using recvLoop_drained [OF assms(1) st, where env = env and w = w and n = 0 and rs = reads] unfolding c by auto
    obtain h4 s3 where x: "worker_exit env w tee mir conn ts h3 s2 = Some (h4, s3)" "fstate_ok fw s3" "drained s3"
      "set (os_open h4) = set (os_open h3) - set (conn # map tg_fd ts @ fd_list tee @ fd_list mir)"
      using worker_exit_effect [OF s2(2,3)] by blast
    have run: "worker_Run K env L fw w reads h s = Some (Returned None h4 s3)"
      unfolding worker_Run_def r Inr ct Let_def prod.case sum.case t m using s2(1) x(1) by simp
    have low: "\<forall>fd \<in> set (os_open h). fd < os_next h" using assms(3) by (auto simp: os_wf_def)
    have high: "\<forall>fd \<in> set (conn # map tg_fd ts @ fd_list tee @ fd_list mir). os_next h \<le> fd"
      using o1(2,4) te(3,5) me(5) by (cases tee; cases mir) (auto simp: fd_list_def)
    have "set (os_open h3) = set (os_open h) \<union> set (conn # map tg_fd ts @ fd_list tee @ fd_list mir)"
      using o1(3) te(4) me(4) by auto
    moreover have "set (os_open h) \<inter> set (conn # map tg_fd ts @ fd_list tee @ fd_list mir) = {}"
      using low high by (meson disjoint_iff leD)
    ultimately have "set (os_open h4) = set (os_open h)" unfolding x(4) by blast
    then show ?thesis using run x(2,3) by blast
  qed
qed

theorem worker_holds_nothing_witness:
  "let s = sampleState sampleFw;
       env = \<lparr>ne_sock = (\<lambda>_ _ _. (0, Some (OtherErr ''EIO''))), ne_tee = (\<lambda>_ _. (0, None)),
              ne_mirror = (\<lambda>_ _. (0, None)), ne_turn = (\<lambda>_. 0)\<rparr> in
   drained s \<and> (\<exists>s'. recvLoop sampleLib sampleFw env (worker_New 0 [] True) 0
     [ReadMsgs [(sampleTx, Some sampleSrc), ([1, 2, 3], None)], ReadErr (WrapErr ''read'' ErrNetClosed)] s = Some (True, s') \<and>
     drained s')"
proof -
  let ?rs = "[ReadMsgs [(sampleTx, Some sampleSrc), ([1, 2, 3], None)], ReadErr (WrapErr ''read'' ErrNetClosed)]"
  have d: "drained (sampleState sampleFw)"
    by (simp add: drained_def sampleState_def NewEgress_def newCoalBuffer_def)
  have "ReadErr (WrapErr ''read'' ErrNetClosed) \<in> set ?rs" "isClosedErr (Some (WrapErr ''read'' ErrNetClosed))"
    by (simp_all add: isClosedErr_def)
  then have c: "(\<exists>e. ReadErr e \<in> set ?rs \<and> isClosedErr (Some e)) = True" by blast
  have w: "\<exists>b s'. recvLoop sampleLib sampleFw env (worker_New 0 [] True) 0 ?rs (sampleState sampleFw) = Some (b, s') \<and>
      fstate_ok sampleFw s' \<and> drained s' \<and> (b \<longleftrightarrow> (\<exists>e. ReadErr e \<in> set ?rs \<and> isClosedErr (Some e)))" for env
    by (rule worker_holds_nothing [OF sample_lib_ok sample_state_ok d])
  have "\<exists>s'. recvLoop sampleLib sampleFw env (worker_New 0 [] True) 0 ?rs (sampleState sampleFw) = Some (True, s') \<and>
      drained s'" for env
    using w [of env, unfolded c] by (auto simp del: recvLoop.simps)
  then show ?thesis unfolding Let_def by (intro conjI d)
qed

theorem worker_releases_witness:
  "let h = \<lparr>os_calls = 0, os_next = 3, os_open = [0, 1, 2], os_opts = []\<rparr>;
       env = \<lparr>ne_sock = (\<lambda>_ _ _. (0, Some (OtherErr ''EIO''))), ne_tee = (\<lambda>_ _. (0, None)),
              ne_mirror = (\<lambda>_ _. (0, None)), ne_turn = (\<lambda>_. 0)\<rparr>;
       w = worker_SetRetryTee ''[::1]:9100'' (worker_New 0 [\<lparr>if_name = ''eth0'', if_index = 2\<rparr>] True) in
   \<exists>err h' s'. worker_Run (\<lambda>_. None) env sampleLib sampleFw w
     [ReadMsgs [(sampleTx, Some sampleSrc)], ReadErr (SysErrno ''EBADF'')] h (newState 0 1 concat) = Some (Returned err h' s') \<and>
     set (os_open h') = {0, 1, 2}"
proof -
  let ?h = "\<lparr>os_calls = 0, os_next = 3, os_open = [0, 1, 2], os_opts = []\<rparr>"
  have wf: "os_wf ?h" by (simp add: os_wf_def)
  have ok: "fstate_ok sampleFw (newState 0 1 concat)" by (rule newState_ok [OF concat_interleaving])
  have c: "isClosedErr (Some (SysErrno ''EBADF''))" by (simp add: isClosedErr_def)
  have m: "ReadErr (SysErrno ''EBADF'') \<in> set [ReadMsgs [(sampleTx, Some sampleSrc)], ReadErr (SysErrno ''EBADF'')]" by simp
  have o: "set (os_open ?h) = {0, 1, 2}" by simp
  show ?thesis unfolding Let_def
    using worker_releases [OF sample_lib_ok ok wf m c] unfolding o by blast
qed

end
