(* ===== verification/Tcp.thy ===== *)
theory Tcp
  imports Worker
begin

text \<open>
  \<^verbatim>\<open>worker/tcp.go\<close>: the TCP listener.  A connection is its buffered bytes, what each further read of
  the kernel will deliver (and whether it comes within the linger window), the error that ends
  the stream, the batcher's count and the forwarder's state with the connection's own egress.
  \<open>fill\<close> is the buffered reader on top of \<^verbatim>\<open>flushingReader\<close>: it asks the kernel only when the buffer is
  short, and flushes first.  Two fields record the run: \<open>c_seen\<close>, the units taken off the stream, and
  \<open>c_waits\<close>, how many datagrams were held back at each read that may wait for the peer.
  The object reader of shard-common (bare transactions and BEEF records) is a list of its results.
\<close>

subsection \<open>The listener\<close>

definition tcpBufSize :: nat where "tcpBufSize = 64 * 1024"
definition maxTCPBatch :: nat where "maxTCPBatch = 64"
definition maxEgressPool :: int where "maxEgressPool = 8"
definition MsgTypeSubtreeGroupAnnounce :: byte where "MsgTypeSubtreeGroupAnnounce = 0x30"
definition SubtreeGroupAnnounceSize :: nat where "SubtreeGroupAnnounceSize = 64"
definition DefaultMaxObject :: nat where "DefaultMaxObject = 64 * 1024 * 1024"

type_synonym via_fn = "nat \<Rightarrow> nat \<Rightarrow> message \<Rightarrow> send_err option"

record TCPIngress =
  ti_ifaces :: "iface list"
  ti_rec :: bool
  ti_class :: IngressClass
  ti_via :: "via_fn option"
  ti_retryTee :: string
  ti_localMirror :: string
  ti_admit :: bool
  ti_connAdmit :: bool
  ti_linger :: duration

definition NewTCPIngress :: "iface list \<Rightarrow> bool \<Rightarrow> TCPIngress" where
  "NewTCPIngress ifaces rec =
     \<lparr>ti_ifaces = ifaces, ti_rec = rec, ti_class = IngressPrivileged, ti_via = None, ti_retryTee = '''',
      ti_localMirror = '''', ti_admit = False, ti_connAdmit = False, ti_linger = 0\<rparr>"

definition tcp_SetRetryTee :: "string \<Rightarrow> TCPIngress \<Rightarrow> TCPIngress" where
  "tcp_SetRetryTee addr ti = ti\<lparr>ti_retryTee := addr\<rparr>"

definition SetCoalesceLinger :: "duration \<Rightarrow> TCPIngress \<Rightarrow> TCPIngress" where
  "SetCoalesceLinger d ti = ti\<lparr>ti_linger := d\<rparr>"

definition tcp_SetLocalMirror :: "string \<Rightarrow> TCPIngress \<Rightarrow> TCPIngress" where
  "tcp_SetLocalMirror addr ti = ti\<lparr>ti_localMirror := addr\<rparr>"

definition tcp_SetAdmitHook :: "bool \<Rightarrow> TCPIngress \<Rightarrow> TCPIngress" where
  "tcp_SetAdmitHook on ti = ti\<lparr>ti_admit := on\<rparr>"

definition tcp_SetConnAdmitHook :: "bool \<Rightarrow> TCPIngress \<Rightarrow> TCPIngress" where
  "tcp_SetConnAdmitHook on ti = ti\<lparr>ti_connAdmit := on\<rparr>"

definition tcp_SetIngressClass :: "IngressClass \<Rightarrow> TCPIngress \<Rightarrow> TCPIngress" where
  "tcp_SetIngressClass c ti = ti\<lparr>ti_class := c\<rparr>"

definition tcp_SetFlushVia :: "via_fn option \<Rightarrow> TCPIngress \<Rightarrow> TCPIngress" where
  "tcp_SetFlushVia fn ti = ti\<lparr>ti_via := fn\<rparr>"

text \<open>\<^verbatim>\<open>admitFor\<close>: the hooks one admission reaches, each with the bytes read for it.\<close>

datatype (plugins only: code size) admit_call = AdmitCall nat nat | ConnAdmitCall nat nat

definition admitFor :: "TCPIngress \<Rightarrow> nat \<Rightarrow> nat \<Rightarrow> admit_call list" where
  "admitFor ti frames n =
     (if ti_admit ti then [AdmitCall frames n] else []) @ (if ti_connAdmit ti then [ConnAdmitCall frames n] else [])"

subsection \<open>Flushing\<close>

definition egrFlushVia :: "via_fn \<Rightarrow> fstate \<Rightarrow> fstate option" where
  "egrFlushVia fn s =
     (case s_egr s of
        None \<Rightarrow> None
      | Some e \<Rightarrow> do { (e', ev) \<leftarrow> FlushVia fn e; Some (s\<lparr>s_egr := Some e', s_ev := s_ev s @ ev\<rparr>) })"

text \<open>The egress part of \<^verbatim>\<open>flushEgr\<close>, the one the object lanes share.\<close>

definition flushOut :: "net_env \<Rightarrow> via_fn option \<Rightarrow> fstate \<Rightarrow> fstate option" where
  "flushOut env via s = (case via of Some fn \<Rightarrow> egrFlushVia fn s | None \<Rightarrow> egrFlush env s)"

definition tcp_flushEgr :: "lib \<Rightarrow> Forwarder \<Rightarrow> net_env \<Rightarrow> TCPIngress \<Rightarrow> nat \<Rightarrow> fstate \<Rightarrow> fstate option" where
  "tcp_flushEgr L fw env ti n s =
     (case s_egr s of
        None \<Rightarrow> Some s
      | Some e \<Rightarrow> do { s1 \<leftarrow> FlushCoalesced L fw (-1) s;
                       flushOut env (ti_via ti) (teeTurn env n s1) })"

subsection \<open>A connection\<close>

datatype (plugins only: code size) tcp_unit = Framed bytes | ControlExt bytes

record tconn =
  c_buf :: bytes
  c_in :: "(bool \<times> bytes) list"
  c_end :: "bool \<times> go_err"
  c_linger :: bool
  c_pending :: nat
  c_flushes :: nat
  c_fs :: fstate
  c_admits :: "admit_call list"
  c_seen :: "tcp_unit list"
  c_waits :: "nat list"

text \<open>Datagrams and bundle members the egress holds.\<close>

definition heldOf :: "fstate \<Rightarrow> nat" where
  "heldOf s =
     (case s_egr s of
        None \<Rightarrow> 0
      | Some e \<Rightarrow> length (e_meta e) +
                  (case e_coal e of None \<Rightarrow> 0 | Some c \<Rightarrow> sum_list (map (length \<circ> cb_members) (co_buckets c))))"

text \<open>\<^verbatim>\<open>tcpBatcher.flush\<close> and \<^verbatim>\<open>tcpBatcher.add\<close>.\<close>

definition bat_flush :: "lib \<Rightarrow> Forwarder \<Rightarrow> net_env \<Rightarrow> TCPIngress \<Rightarrow> tconn \<Rightarrow> tconn option" where
  "bat_flush L fw env ti c =
     (if c_pending c > 0 then
        do { s \<leftarrow> tcp_flushEgr L fw env ti (c_flushes c) (c_fs c);
             Some (c\<lparr>c_fs := s, c_pending := 0, c_flushes := Suc (c_flushes c)\<rparr>) }
      else Some c)"

definition bat_add :: "lib \<Rightarrow> Forwarder \<Rightarrow> net_env \<Rightarrow> TCPIngress \<Rightarrow> tconn \<Rightarrow> tconn option" where
  "bat_add L fw env ti c =
     (let c1 = c\<lparr>c_pending := Suc (c_pending c)\<rparr>
      in if c_pending c1 \<ge> maxTCPBatch then bat_flush L fw env ti c1 else Some c1)"

text \<open>\<^verbatim>\<open>flushingReader.Read\<close> up to the read that returns: within the linger window the batch is kept,
  otherwise it is flushed and the read may wait.\<close>

definition beforeRead :: "lib \<Rightarrow> Forwarder \<Rightarrow> net_env \<Rightarrow> TCPIngress \<Rightarrow> bool \<Rightarrow> tconn \<Rightarrow> tconn option" where
  "beforeRead L fw env ti late c =
     (if c_linger c \<and> c_pending c > 0 \<and> \<not> late then Some c
      else do { c1 \<leftarrow> bat_flush L fw env ti c;
                Some (c1\<lparr>c_waits := c_waits c1 @ [heldOf (c_fs c1)]\<rparr>) })"

text \<open>Buffer at least \<open>n\<close> bytes; the error of the stream when it ends first.\<close>

fun fillFrom ::
  "lib \<Rightarrow> Forwarder \<Rightarrow> net_env \<Rightarrow> TCPIngress \<Rightarrow> nat \<Rightarrow> (bool \<times> bytes) list \<Rightarrow> tconn \<Rightarrow> (tconn \<times> go_err option) option"
  where
  "fillFrom L fw env ti n ins c =
     (if n \<le> length (c_buf c) then Some (c\<lparr>c_in := ins\<rparr>, None)
      else
        case ins of
          [] \<Rightarrow> do { c1 \<leftarrow> beforeRead L fw env ti (fst (c_end c)) c; Some (c1\<lparr>c_in := []\<rparr>, Some (snd (c_end c1))) }
        | (late, d) # rest \<Rightarrow>
            do { c1 \<leftarrow> beforeRead L fw env ti late c;
                 fillFrom L fw env ti n rest (c1\<lparr>c_buf := c_buf c1 @ d\<rparr>) })"

declare fillFrom.simps [simp del]

definition fill :: "lib \<Rightarrow> Forwarder \<Rightarrow> net_env \<Rightarrow> TCPIngress \<Rightarrow> nat \<Rightarrow> tconn \<Rightarrow> (tconn \<times> go_err option) option" where
  "fill L fw env ti n c = fillFrom L fw env ti n (c_in c) c"

text \<open>\<^verbatim>\<open>io.ReadFull\<close>: \<open>n\<close> bytes off the buffer.\<close>

definition readFull :: "lib \<Rightarrow> Forwarder \<Rightarrow> net_env \<Rightarrow> TCPIngress \<Rightarrow> nat \<Rightarrow> tconn \<Rightarrow> (tconn \<times> (go_err + bytes)) option" where
  "readFull L fw env ti n c =
     do { (c1, err) \<leftarrow> fill L fw env ti n c;
          Some (case err of
                  Some e \<Rightarrow> (c1\<lparr>c_buf := []\<rparr>, Inl e)
                | None \<Rightarrow> (c1\<lparr>c_buf := drop n (c_buf c1)\<rparr>, Inr (take n (c_buf c1)))) }"

definition magicOK :: "bytes \<Rightarrow> bool" where
  "magicOK b \<longleftrightarrow> b ! 0 = 0xE3 \<and> b ! 1 = 0xE1 \<and> b ! 2 = 0xF3 \<and> b ! 3 = 0xE8"

definition longHeader :: "byte \<Rightarrow> bool" where
  "longHeader v \<longleftrightarrow> v \<in> {FrameVerV2, FrameVerV4, FrameVerV5, FrameVerV6, FrameVerV9}"

text \<open>Whether a declared payload length is refused before anything is allocated for it.\<close>

definition tooLong :: "Forwarder \<Rightarrow> byte \<Rightarrow> nat \<Rightarrow> bool" where
  "tooLong fw ver payLen \<longleftrightarrow>
     payLen > DefaultMaxObject \<or>
     ver = FrameVerV9 \<and> BEEFMaxObject fw > 0 \<and> int payLen > BEEFMaxObject fw"

text \<open>The payload of a frame whose header \<open>hdr\<close> is complete.\<close>

definition readPayload ::
  "lib \<Rightarrow> Forwarder \<Rightarrow> net_env \<Rightarrow> TCPIngress \<Rightarrow> bytes \<Rightarrow> nat \<Rightarrow> tconn \<Rightarrow> (tconn \<times> tcp_unit option) option" where
  "readPayload L fw env ti hdr payLen c =
     (if tooLong fw (hdr ! 6) payLen then Some (c, None)
      else
        do { (c1, r) \<leftarrow> readFull L fw env ti payLen c;
             Some (c1, case r of Inl e \<Rightarrow> None | Inr body \<Rightarrow> Some (Framed (hdr @ body))) })"

text \<open>One turn of the frame loop: the next unit of the stream, or \<^const>\<open>None\<close> when the connection is to
  be closed.\<close>

definition readFrame :: "lib \<Rightarrow> Forwarder \<Rightarrow> net_env \<Rightarrow> TCPIngress \<Rightarrow> tconn \<Rightarrow> (tconn \<times> tcp_unit option) option" where
  "readFrame L fw env ti c =
     do { (c1, r1) \<leftarrow> readFull L fw env ti HeaderSizeLegacy c;
          case r1 of
            Inl e \<Rightarrow> Some (c1, None)
          | Inr hdr \<Rightarrow>
              if \<not> magicOK hdr then Some (c1, None)
              else if hdr ! 6 = MsgTypeSubtreeGroupAnnounce then
                do { (c2, r2) \<leftarrow> readFull L fw env ti (SubtreeGroupAnnounceSize - HeaderSizeLegacy) c1;
                     Some (c2, case r2 of Inl e \<Rightarrow> None | Inr ext \<Rightarrow> Some (ControlExt (hdr @ ext))) }
              else if hdr ! 6 = FrameVerV1 then readPayload L fw env ti hdr (be_nat (drop 40 hdr)) c1
              else if longHeader (hdr ! 6) then
                do { (c2, r2) \<leftarrow> readFull L fw env ti (HeaderSizeV2 - HeaderSizeLegacy) c1;
                     case r2 of
                       Inl e \<Rightarrow> Some (c2, None)
                     | Inr ext \<Rightarrow> readPayload L fw env ti (hdr @ ext) (be_nat (drop 88 (hdr @ ext))) c2 }
              else Some (c1, None) }"

definition tcp_received :: "TCPIngress \<Rightarrow> nat \<Rightarrow> tconn \<Rightarrow> tconn" where
  "tcp_received ti n c =
     c\<lparr>c_fs := (if ti_rec ti then (c_fs c)\<lparr>s_ev := s_ev (c_fs c) @ [TCPBytesReceived n]\<rparr> else c_fs c),
       c_admits := c_admits c @ admitFor ti 1 n\<rparr>"

definition unitBytes :: "tcp_unit \<Rightarrow> bytes" where
  "unitBytes u = (case u of Framed raw \<Rightarrow> raw | ControlExt raw \<Rightarrow> raw)"

definition dispatchUnit ::
  "lib \<Rightarrow> Forwarder \<Rightarrow> TCPIngress \<Rightarrow> net_addr option \<Rightarrow> tcp_unit \<Rightarrow> fstate \<Rightarrow> fstate option" where
  "dispatchUnit L fw ti remote u s =
     (case u of
        Framed raw \<Rightarrow> DispatchClass L fw raw remote (-1) (ti_class ti) s
      | ControlExt raw \<Rightarrow> ForwardControl L fw raw GroupSubtreeGroupAnnounce (EgressPort fw) s)"

definition handleUnit ::
  "lib \<Rightarrow> Forwarder \<Rightarrow> net_env \<Rightarrow> TCPIngress \<Rightarrow> net_addr option \<Rightarrow> tcp_unit \<Rightarrow> tconn \<Rightarrow> tconn option" where
  "handleUnit L fw env ti remote u c =
     (let c1 = tcp_received ti (length (unitBytes u)) (c\<lparr>c_seen := c_seen c @ [u]\<rparr>)
      in do { s \<leftarrow> dispatchUnit L fw ti remote u (c_fs c1);
              bat_add L fw env ti (c1\<lparr>c_fs := s\<rparr>) })"

text \<open>Bytes of the stream not yet taken.\<close>

definition stream :: "tconn \<Rightarrow> bytes" where
  "stream c = c_buf c @ concat (map snd (c_in c))"


subsection \<open>The grammar\<close>

text \<open>The next unit of a byte stream, by the protocol: independent of how the bytes arrive.\<close>

definition parsePayload :: "Forwarder \<Rightarrow> nat \<Rightarrow> nat \<Rightarrow> bytes \<Rightarrow> (tcp_unit \<times> bytes) option" where
  "parsePayload fw hdrSize payLen bs =
     (if tooLong fw (bs ! 6) payLen \<or> length bs < hdrSize + payLen then None
      else Some (Framed (take (hdrSize + payLen) bs), drop (hdrSize + payLen) bs))"

definition parseUnit :: "Forwarder \<Rightarrow> bytes \<Rightarrow> (tcp_unit \<times> bytes) option" where
  "parseUnit fw bs =
     (if length bs < 44 \<or> \<not> magicOK bs then None
      else if bs ! 6 = MsgTypeSubtreeGroupAnnounce then
        (if length bs < 64 then None else Some (ControlExt (take 64 bs), drop 64 bs))
      else if bs ! 6 = FrameVerV1 then parsePayload fw 44 (be_nat (take 4 (drop 40 bs))) bs
      else if longHeader (bs ! 6) then
        (if length bs < 92 then None else parsePayload fw 92 (be_nat (take 4 (drop 88 bs))) bs)
      else None)"

lemma parseUnit_splits: "parseUnit fw bs = Some (u, rest) \<Longrightarrow> bs = unitBytes u @ rest \<and> 44 \<le> length (unitBytes u)"
  by (auto simp: parseUnit_def parsePayload_def unitBytes_def split: if_splits)

function parseAll :: "Forwarder \<Rightarrow> bytes \<Rightarrow> tcp_unit list" where
  "parseAll fw bs = (case parseUnit fw bs of None \<Rightarrow> [] | Some (u, rest) \<Rightarrow> u # parseAll fw rest)"
  by auto

termination
  by (relation "measure (\<lambda>(fw, bs). length bs)") (auto dest!: parseUnit_splits)

declare parseAll.simps [simp del]

lemma parseAll_prefix: "prefix (concat (map unitBytes (parseAll fw bs))) bs"
proof (induction fw bs rule: parseAll.induct)
  case (1 fw bs)
  show ?case
  proof (cases "parseUnit fw bs")
    case None
    then show ?thesis by (subst parseAll.simps) simp
  next
    case (Some p)
    obtain u rest where p: "p = (u, rest)" by fastforce
    have "prefix (concat (map unitBytes (parseAll fw rest))) rest" using 1 Some p by simp
    moreover have "bs = unitBytes u @ rest" using Some p parseUnit_splits by blast
    ultimately show ?thesis using Some p by (subst parseAll.simps) simp
  qed
qed

subsection \<open>What a connection consumes\<close>

definition same_input :: "tconn \<Rightarrow> tconn \<Rightarrow> bool" where
  "same_input c c' \<longleftrightarrow> c_buf c' = c_buf c \<and> c_in c' = c_in c \<and> c_end c' = c_end c \<and> c_seen c' = c_seen c"

lemma bat_flush_input: "bat_flush L fw env ti c = Some c' \<Longrightarrow> same_input c c'"
  by (auto simp: bat_flush_def same_input_def split: if_splits bind_splits)

lemma beforeRead_input: "beforeRead L fw env ti late c = Some c' \<Longrightarrow> same_input c c'"
  by (auto simp: beforeRead_def same_input_def split: if_splits bind_splits dest!: bat_flush_input)

lemma bat_add_input: "bat_add L fw env ti c = Some c' \<Longrightarrow> same_input c c'"
  by (auto simp: bat_add_def Let_def same_input_def split: if_splits dest!: bat_flush_input)

lemma fillFrom_input:
  "fillFrom L fw env ti n ins c = Some (c', err) \<Longrightarrow>
   stream c' = c_buf c @ concat (map snd ins) \<and> c_seen c' = c_seen c \<and>
   (case err of None \<Rightarrow> n \<le> length (c_buf c') | Some e \<Rightarrow> length (stream c') < n)"
proof (induction ins arbitrary: c)
  case Nil
  then show ?case
    by (subst (asm) fillFrom.simps)
      (auto simp: stream_def same_input_def split: if_splits bind_splits dest!: beforeRead_input)
next
  case (Cons x rest)
  obtain late d where x: "x = (late, d)" by fastforce
  show ?case
  proof (cases "n \<le> length (c_buf c)")
    case True
    then show ?thesis using Cons.prems by (subst (asm) fillFrom.simps) (auto simp: stream_def)
  next
    case False
    then obtain c1 where c1: "beforeRead L fw env ti late c = Some c1"
      "fillFrom L fw env ti n rest (c1\<lparr>c_buf := c_buf c1 @ d\<rparr>) = Some (c', err)"
      using Cons.prems x by (subst (asm) fillFrom.simps) (auto split: bind_splits)
    then show ?thesis using Cons.IH [OF c1(2)] beforeRead_input [OF c1(1)] x by (simp add: same_input_def)
  qed
qed

lemma readFull_input:
  "readFull L fw env ti n c = Some (c', r) \<Longrightarrow>
   c_seen c' = c_seen c \<and>
   (case r of Inr b \<Rightarrow> stream c = b @ stream c' \<and> length b = n | Inl e \<Rightarrow> length (stream c) < n)"
  unfolding readFull_def fill_def
  by (auto split: bind_splits option.splits dest!: fillFrom_input)
    (auto simp: stream_def, metis append_assoc append_take_drop_id)

lemma readPayload_input:
  assumes "readPayload L fw env ti hdr payLen c = Some (c', u)" "bs = hdr @ stream c" "6 < length hdr"
  shows "c_seen c' = c_seen c \<and>
     (case u of None \<Rightarrow> parsePayload fw (length hdr) payLen bs = None
      | Some v \<Rightarrow> parsePayload fw (length hdr) payLen bs = Some (v, stream c'))"
proof -
  have v: "bs ! 6 = hdr ! 6" using assms(2,3) by (simp add: nth_append)
  show ?thesis
  proof (cases "tooLong fw (hdr ! 6) payLen")
    case True
    then show ?thesis using assms(1) v by (simp add: readPayload_def parsePayload_def)
  next
    case False
    then obtain r where r: "readFull L fw env ti payLen c = Some (c', r)"
      "u = (case r of Inl e \<Rightarrow> None | Inr body \<Rightarrow> Some (Framed (hdr @ body)))"
      using assms(1) by (auto simp: readPayload_def split: bind_splits)
    then show ?thesis using readFull_input [OF r(1)] False v assms(2)
      by (cases r) (auto simp: parsePayload_def)
  qed
qed

lemma readFrame_input:
  assumes "readFrame L fw env ti c = Some (c', u)"
  shows "c_seen c' = c_seen c \<and>
     (case u of None \<Rightarrow> parseUnit fw (stream c) = None | Some v \<Rightarrow> parseUnit fw (stream c) = Some (v, stream c'))"
proof -
  let ?bs = "stream c"
  obtain c1 r1 where r1: "readFull L fw env ti HeaderSizeLegacy c = Some (c1, r1)"
    using assms by (auto simp: readFrame_def split: bind_splits)
  note i1 = readFull_input [OF r1]
  show ?thesis
  proof (cases r1)
    case (Inl e)
    then show ?thesis using assms i1 r1 by (auto simp: readFrame_def parseUnit_def HeaderSizeLegacy_def)
  next
    case (Inr hdr)
    have bs: "?bs = hdr @ stream c1" "length hdr = 44" "c_seen c1 = c_seen c"
      using i1 Inr by (auto simp: HeaderSizeLegacy_def)
    have m: "magicOK ?bs = magicOK hdr" "?bs ! 6 = hdr ! 6" using bs by (simp_all add: magicOK_def nth_append)
    have fields: "take 4 (drop 40 ?bs) = drop 40 hdr" using bs by simp
    have ge: "\<not> length ?bs < 44" using bs by simp
    consider (bad) "\<not> magicOK hdr" | (ctl) "magicOK hdr" "hdr ! 6 = MsgTypeSubtreeGroupAnnounce"
      | (v1) "magicOK hdr" "hdr ! 6 \<noteq> MsgTypeSubtreeGroupAnnounce" "hdr ! 6 = FrameVerV1"
      | (long) "magicOK hdr" "hdr ! 6 \<noteq> MsgTypeSubtreeGroupAnnounce" "hdr ! 6 \<noteq> FrameVerV1" "longHeader (hdr ! 6)"
      | (other) "magicOK hdr" "hdr ! 6 \<noteq> MsgTypeSubtreeGroupAnnounce" "hdr ! 6 \<noteq> FrameVerV1" "\<not> longHeader (hdr ! 6)"
      by blast
    then show ?thesis
    proof cases
      case ctl
      then obtain r2 where r2: "readFull L fw env ti (SubtreeGroupAnnounceSize - HeaderSizeLegacy) c1 = Some (c', r2)"
        "u = (case r2 of Inl e \<Rightarrow> None | Inr ext \<Rightarrow> Some (ControlExt (hdr @ ext)))"
        using assms r1 Inr by (auto simp: readFrame_def split: bind_splits)
      then show ?thesis using readFull_input [OF r2(1)] ctl m bs
        by (cases r2) (auto simp: parseUnit_def SubtreeGroupAnnounceSize_def HeaderSizeLegacy_def)
    next
      case v1
      then have p: "readPayload L fw env ti hdr (be_nat (drop 40 hdr)) c1 = Some (c', u)"
        using assms r1 Inr by (simp add: readFrame_def)
      have "parseUnit fw ?bs = parsePayload fw (length hdr) (be_nat (drop 40 hdr)) ?bs"
        using v1 m bs(2) ge by (simp add: parseUnit_def fields)
      then show ?thesis using readPayload_input [OF p bs(1)] bs(2,3) by (cases u) simp_all
    next
      case long
      then obtain c2 r2 where r2: "readFull L fw env ti (HeaderSizeV2 - HeaderSizeLegacy) c1 = Some (c2, r2)"
        using assms r1 Inr by (auto simp: readFrame_def split: bind_splits)
      note i2 = readFull_input [OF r2]
      show ?thesis
      proof (cases r2)
        case (Inl e)
        then show ?thesis using assms r1 Inr long r2 i2 bs m \<open>r1 = Inr hdr\<close>
          by (auto simp: readFrame_def parseUnit_def HeaderSizeV2_def HeaderSizeLegacy_def)
      next
        case (Inr ext)
        have b2: "?bs = (hdr @ ext) @ stream c2" "length (hdr @ ext) = 92" "c_seen c2 = c_seen c"
          using i2 Inr bs by (auto simp: HeaderSizeV2_def HeaderSizeLegacy_def)
        have p: "readPayload L fw env ti (hdr @ ext) (be_nat (drop 88 (hdr @ ext))) c2 = Some (c', u)"
          using assms r1 \<open>r1 = Inr hdr\<close> long r2 Inr by (simp add: readFrame_def)
        have f: "take 4 (drop 88 ?bs) = drop 88 (hdr @ ext)" using b2 by simp
        have long92: "\<not> length ?bs < 92" using b2 by simp
        have "parseUnit fw ?bs = parsePayload fw (length (hdr @ ext)) (be_nat (drop 88 (hdr @ ext))) ?bs"
          using long m b2(2) f long92 ge by (simp add: parseUnit_def)
        then show ?thesis using readPayload_input [OF p b2(1)] b2(2,3) bs(2) by (cases u) simp_all
      qed
    qed (use assms r1 Inr m bs(2,3) ge in \<open>auto simp: readFrame_def parseUnit_def\<close>)
  qed
qed

subsection \<open>The frame loop\<close>

lemma handleUnit_input:
  assumes "handleUnit L fw env ti remote u c = Some c'"
  shows "stream c' = stream c" "c_seen c' = c_seen c @ [u]"
  using assms by (auto simp: handleUnit_def Let_def tcp_received_def stream_def same_input_def split: bind_splits dest!: bat_add_input)

text \<open>The loop of \<^verbatim>\<open>handleConn\<close> over a framed stream; every turn takes at least a header off it.\<close>

function frameLoop ::
  "lib \<Rightarrow> Forwarder \<Rightarrow> net_env \<Rightarrow> TCPIngress \<Rightarrow> net_addr option \<Rightarrow> tconn \<Rightarrow> tconn option" where
  "frameLoop L fw env ti remote c =
     (case readFrame L fw env ti c of
        None \<Rightarrow> None
      | Some (c1, None) \<Rightarrow> Some c1
      | Some (c1, Some u) \<Rightarrow>
          (case handleUnit L fw env ti remote u c1 of
             None \<Rightarrow> None
           | Some c2 \<Rightarrow> frameLoop L fw env ti remote c2))"
  by auto

termination
proof (relation "measure (\<lambda>(L, fw, env, ti, remote, c). length (stream c))", goal_cases)
  case (2 L fw env ti remote c p c1 uo u c2)
  then have "parseUnit fw (stream c) = Some (u, stream c1)" "stream c2 = stream c1"
    using readFrame_input [of L fw env ti c c1 "Some u"] handleUnit_input by auto
  then show ?case using parseUnit_splits [of fw "stream c" u "stream c1"] by auto
qed simp

declare frameLoop.simps [simp del]

subsection \<open>The batch is never kept across a wait\<close>

definition tcp_lib_ok :: "lib \<Rightarrow> bool" where
  "tcp_lib_ok L \<longleftrightarrow> lib_ok L \<and> group_String L GroupSubtreeGroupAnnounce \<noteq> []"

text \<open>What holds of a connection between two steps: it can be flushed, the batch is short, an empty batch
  means nothing is held, and nothing was held at any read that may have waited.\<close>

definition conn_ok :: "Forwarder \<Rightarrow> tconn \<Rightarrow> bool" where
  "conn_ok fw c \<longleftrightarrow>
     fstate_ok fw (c_fs c) \<and> s_egr (c_fs c) \<noteq> None \<and> c_pending c < maxTCPBatch \<and>
     (c_pending c = 0 \<longrightarrow> drained (c_fs c)) \<and> (\<forall>n \<in> set (c_waits c). n = 0)"

lemma drained_holds_nothing: "drained s \<Longrightarrow> heldOf s = 0"
  by (auto simp: drained_def heldOf_def split: option.split)

lemma flushOut_ok:
  assumes ok: "fstate_ok fw s" and e: "s_egr s = Some e"
  shows "\<exists>s' e'. flushOut env via s = Some s' \<and> fstate_ok fw s' \<and> s_egr s' = Some e' \<and> e_meta e' = [] \<and>
     (\<forall>q \<in> set (e_msgs e'). q = []) \<and> e_coal e' = e_coal e \<and> e_targets e' = e_targets e"
proof (cases via)
  case None
  then show ?thesis using egrFlush_ok [OF assms, of env] by (simp add: flushOut_def)
next
  case (Some fn)
  have k: "egress_wf (dst_of fw) e" "sender_ok e" using ok e by (simp_all add: fstate_ok_def egr_ok_def)
  obtain e' ev where f: "FlushVia fn e = Some (e', ev)" "egress_wf (dst_of fw) e'" "sender_ok e'"
    "e_targets e' = e_targets e" "e_meta e' = []" "e_poolSize e' = e_poolSize e" "e_coal e' = e_coal e"
    using flush_returns(2) [OF k, of fn] by blast
  have "\<forall>q \<in> set (e_msgs e'). q = []" using f(2,5) by (simp add: egress_wf_def)
  then show ?thesis using f ok e Some
    by (intro exI [of _ "s\<lparr>s_egr := Some e', s_ev := s_ev s @ ev\<rparr>"] exI [of _ e'])
      (simp add: flushOut_def egrFlushVia_def fstate_ok_def egr_ok_def)
qed

lemma teeTurn_ok:
  assumes ok: "fstate_ok fw s" and e: "s_egr s = Some e"
  shows "\<exists>e'. s_egr (teeTurn env n s) = Some e' \<and> only_tees e e' \<and> fstate_ok fw (teeTurn env n s)"
proof -
  obtain t m ev where t: "teeTurn env n s = s\<lparr>s_egr := Some (e\<lparr>e_tee := t, e_mirror := m\<rparr>), s_ev := s_ev s @ ev\<rparr>"
    using teeTurn_effect [OF e] .
  have "only_tees e (e\<lparr>e_tee := t, e_mirror := m\<rparr>)" unfolding only_tees_def by blast
  then show ?thesis using ok e egr_ok_tees [where e = e and t = t and m = m] by (simp add: t fstate_ok_def)
qed

lemma flushEgr_ok:
  assumes "fstate_ok fw s" "s_egr s = Some e"
  shows "\<exists>s'. tcp_flushEgr L fw env ti n s = Some s' \<and> fstate_ok fw s' \<and> drained s'"
proof -
  obtain s1 e1 where s1: "FlushCoalesced L fw (-1) s = Some s1" "fstate_ok fw s1" "s_egr s1 = Some e1"
    "\<forall>c. e_coal e1 = Some c \<longrightarrow> co_buckets c = []"
    using FlushCoalesced_empties [OF assms] by blast
  obtain e2 where s2: "s_egr (teeTurn env n s1) = Some e2" "only_tees e1 e2" "fstate_ok fw (teeTurn env n s1)"
    using teeTurn_ok [OF s1(2,3)] by blast
  show ?thesis using flushOut_ok [OF s2(3,1), of env "ti_via ti"] assms(2) s1 only_tees_keeps(4) [OF s2(2)]
    by (auto simp: tcp_flushEgr_def drained_def)
qed

lemma bat_flush_ok:
  assumes "conn_ok fw c \<or> fstate_ok fw (c_fs c) \<and> s_egr (c_fs c) \<noteq> None \<and> 0 < c_pending c \<and> (\<forall>n \<in> set (c_waits c). n = 0)"
  shows "\<exists>c'. bat_flush L fw env ti c = Some c' \<and> conn_ok fw c' \<and> c_pending c' = 0 \<and> drained (c_fs c')"
proof (cases "c_pending c > 0")
  case True
  obtain e where e: "s_egr (c_fs c) = Some e" "fstate_ok fw (c_fs c)" "\<forall>n \<in> set (c_waits c). n = 0"
    using assms by (auto simp: conn_ok_def)
  obtain s where "tcp_flushEgr L fw env ti (c_flushes c) (c_fs c) = Some s" "fstate_ok fw s" "drained s"
    using flushEgr_ok [OF e(2,1)] by blast
  then show ?thesis using True e by (auto simp: bat_flush_def conn_ok_def maxTCPBatch_def drained_def)
qed (use assms in \<open>auto simp: bat_flush_def conn_ok_def\<close>)

lemma bat_add_ok:
  assumes "fstate_ok fw (c_fs c)" "s_egr (c_fs c) \<noteq> None" "\<forall>n \<in> set (c_waits c). n = 0"
  shows "\<exists>c'. bat_add L fw env ti c = Some c' \<and> conn_ok fw c'"
proof (cases "maxTCPBatch \<le> Suc (c_pending c)")
  case True
  then show ?thesis using assms bat_flush_ok [where c = "c\<lparr>c_pending := Suc (c_pending c)\<rparr>" and fw = fw and L = L and env = env and ti = ti]
    by (auto simp: bat_add_def)
qed (use assms in \<open>auto simp: bat_add_def conn_ok_def\<close>)

lemma beforeRead_ok:
  assumes "conn_ok fw c" shows "\<exists>c'. beforeRead L fw env ti late c = Some c' \<and> conn_ok fw c'"
proof -
  obtain c1 where c1: "bat_flush L fw env ti c = Some c1" "conn_ok fw c1" "c_pending c1 = 0" "drained (c_fs c1)"
    using bat_flush_ok assms by blast
  then show ?thesis using assms drained_holds_nothing [OF c1(4)] by (auto simp: beforeRead_def conn_ok_def)
qed

lemma conn_ok_buf [simp]: "conn_ok fw (c\<lparr>c_buf := b\<rparr>) = conn_ok fw c" "conn_ok fw (c\<lparr>c_in := i\<rparr>) = conn_ok fw c"
  by (simp_all add: conn_ok_def)

lemma fillFrom_ok: "conn_ok fw c \<Longrightarrow> \<exists>c' err. fillFrom L fw env ti n ins c = Some (c', err) \<and> conn_ok fw c'"
proof (induction ins arbitrary: c)
  case Nil
  then show ?case using beforeRead_ok [OF Nil, of L env ti "fst (c_end c)"] by (subst fillFrom.simps) auto
next
  case (Cons x rest)
  obtain late d where x: "x = (late, d)" by fastforce
  obtain c1 where c1: "beforeRead L fw env ti late c = Some c1" "conn_ok fw c1" using beforeRead_ok [OF Cons.prems] by blast
  have "conn_ok fw (c1\<lparr>c_buf := c_buf c1 @ d\<rparr>)" using c1 by simp
  from Cons.IH [OF this] show ?case using Cons.prems c1 x by (subst fillFrom.simps) auto
qed

lemma readFull_ok: "conn_ok fw c \<Longrightarrow> \<exists>c' r. readFull L fw env ti n c = Some (c', r) \<and> conn_ok fw c'"
  using fillFrom_ok [of fw c L env ti n "c_in c"] by (fastforce simp: readFull_def fill_def split: option.split)

lemma readPayload_ok: "conn_ok fw c \<Longrightarrow> \<exists>c' u. readPayload L fw env ti hdr k c = Some (c', u) \<and> conn_ok fw c'"
  using readFull_ok [of fw c L env ti k] by (auto simp: readPayload_def)

lemma readFrame_ok:
  assumes "conn_ok fw c" shows "\<exists>c' u. readFrame L fw env ti c = Some (c', u) \<and> conn_ok fw c'"
proof -
  obtain c1 r1 where r1: "readFull L fw env ti HeaderSizeLegacy c = Some (c1, r1)" "conn_ok fw c1"
    using readFull_ok [OF assms] by blast
  obtain c2 r2 where r2: "readFull L fw env ti (SubtreeGroupAnnounceSize - HeaderSizeLegacy) c1 = Some (c2, r2)" "conn_ok fw c2"
    using readFull_ok [OF r1(2)] by blast
  obtain c3 r3 where r3: "readFull L fw env ti (HeaderSizeV2 - HeaderSizeLegacy) c1 = Some (c3, r3)" "conn_ok fw c3"
    using readFull_ok [OF r1(2)] by blast
  show ?thesis using r1 r2 r3 readPayload_ok [OF r1(2)] readPayload_ok [OF r3(2)]
    by (cases r1; cases r3) (auto simp: readFrame_def)
qed

lemma handler_keeps_conn:
  assumes "handler_total fw h" "\<And>s s'. h s = Some s' \<Longrightarrow> quiet (s_egr s) (s_egr s')" "conn_ok fw c"
  shows "\<exists>s. h (c_fs (tcp_received ti n c)) = Some s \<and> fstate_ok fw s \<and> s_egr s \<noteq> None"
proof -
  let ?s0 = "c_fs (tcp_received ti n c)"
  have "fstate_ok fw ?s0" "s_egr ?s0 \<noteq> None" using assms(3) by (auto simp: tcp_received_def conn_ok_def fstate_ok_def)
  moreover from this obtain s where "h ?s0 = Some s" "fstate_ok fw s" using handler_totalD [OF assms(1)] by blast
  ultimately show ?thesis using assms(2) by (cases "s_egr s") fastforce+
qed

lemma dispatchUnit_total: "tcp_lib_ok L \<Longrightarrow> handler_total fw (dispatchUnit L fw ti remote u)"
  using DispatchClass_total ForwardControl_total
  by (cases u) (auto simp: dispatchUnit_def [abs_def] tcp_lib_ok_def)

lemma dispatchUnit_quiet: "dispatchUnit L fw ti remote u s = Some s' \<Longrightarrow> quiet (s_egr s) (s_egr s')"
  by (auto simp: dispatchUnit_def split: tcp_unit.splits dest: DispatchClass_quiet ForwardControl_quiet)

text \<open>A submission read off the stream is handled and counted; the batch stays short.\<close>

lemma admitted_ok:
  assumes "handler_total fw h" "\<And>s s'. h s = Some s' \<Longrightarrow> quiet (s_egr s) (s_egr s')" "conn_ok fw c"
  obtains s c' where "h (c_fs (tcp_received ti n c)) = Some s"
    "bat_add L fw env ti ((tcp_received ti n c)\<lparr>c_fs := s\<rparr>) = Some c'" "conn_ok fw c'"
proof -
  obtain s where s: "h (c_fs (tcp_received ti n c)) = Some s" "fstate_ok fw s" "s_egr s \<noteq> None"
    using handler_keeps_conn [OF assms] by blast
  have "\<forall>n \<in> set (c_waits (tcp_received ti n c)). n = 0" using assms(3) by (simp add: tcp_received_def conn_ok_def)
  then show ?thesis using s bat_add_ok [of fw "(tcp_received ti n c)\<lparr>c_fs := s\<rparr>" L env ti] that by auto
qed

lemma handleUnit_ok:
  assumes "tcp_lib_ok L" "conn_ok fw c" shows "\<exists>c'. handleUnit L fw env ti remote u c = Some c' \<and> conn_ok fw c'"
proof -
  have "conn_ok fw (c\<lparr>c_seen := c_seen c @ [u]\<rparr>)" using assms(2) by (simp add: conn_ok_def)
  let ?c1 = "tcp_received ti (length (unitBytes u)) (c\<lparr>c_seen := c_seen c @ [u]\<rparr>)"
  have q: "dispatchUnit L fw ti remote u s = Some s' \<Longrightarrow> quiet (s_egr s) (s_egr s')" for s s' by (rule dispatchUnit_quiet)
  obtain s c' where "dispatchUnit L fw ti remote u (c_fs ?c1) = Some s" "bat_add L fw env ti (?c1\<lparr>c_fs := s\<rparr>) = Some c'"
    "conn_ok fw c'"
    using admitted_ok [OF dispatchUnit_total [OF assms(1)] q \<open>conn_ok fw (c\<lparr>c_seen := c_seen c @ [u]\<rparr>)\<close>] .
  then show ?thesis by (simp add: handleUnit_def Let_def)
qed

lemma frameLoop_ok:
  assumes "tcp_lib_ok L" "conn_ok fw c"
  shows "\<exists>c'. frameLoop L fw env ti remote c = Some c' \<and> conn_ok fw c' \<and> c_seen c' = c_seen c @ parseAll fw (stream c)"
  using assms
proof (induction L fw env ti remote c rule: frameLoop.induct)
  case (1 L fw env ti remote c)
  obtain c1 uo where f: "readFrame L fw env ti c = Some (c1, uo)" "conn_ok fw c1" using readFrame_ok [OF 1(3)] by blast
  note i = readFrame_input [OF f(1)]
  show ?case
  proof (cases uo)
    case None
    then show ?thesis using f i by (subst frameLoop.simps, subst parseAll.simps) simp
  next
    case (Some u)
    obtain c2 where c2: "handleUnit L fw env ti remote u c1 = Some c2" "conn_ok fw c2" using handleUnit_ok [OF 1(2) f(2)] by blast
    note j = handleUnit_input [OF c2(1)]
    have "\<exists>c'. frameLoop L fw env ti remote c2 = Some c' \<and> conn_ok fw c' \<and> c_seen c' = c_seen c2 @ parseAll fw (stream c2)"
      using 1(1) [OF f(1) refl Some c2(1) 1(2) c2(2)] .
    then show ?thesis using f(1) Some c2(1) i j by (subst frameLoop.simps, subst parseAll.simps) auto
  qed
qed

subsection \<open>Object streams\<close>

text \<open>The object reader of shard-common, for one connection: for each \<^verbatim>\<open>Next\<close> the kernel reads it makes (whether
  each comes within the linger window) and what it returns.  The end of the list is the end of the stream.\<close>

datatype (plugins only: code size) obj_next = NextObj bytes | NextTooLarge | NextErr go_err

type_synonym obj_reader = "objclass \<Rightarrow> int option \<Rightarrow> (bool list \<times> obj_next) list"

definition objReads :: "lib \<Rightarrow> Forwarder \<Rightarrow> net_env \<Rightarrow> TCPIngress \<Rightarrow> bool list \<Rightarrow> tconn \<Rightarrow> tconn option" where
  "objReads L fw env ti lates c = fold_opt (beforeRead L fw env ti) lates c"

fun beefLoop ::
  "lib \<Rightarrow> Forwarder \<Rightarrow> net_env \<Rightarrow> TCPIngress \<Rightarrow> net_addr option \<Rightarrow> (bool list \<times> obj_next) list \<Rightarrow> tconn \<Rightarrow> tconn option" where
  "beefLoop L fw env ti remote [] c = objReads L fw env ti [True] c"
| "beefLoop L fw env ti remote ((lates, r) # rs) c =
     do { c1 \<leftarrow> objReads L fw env ti lates c;
          case r of
            NextTooLarge \<Rightarrow>
              Some (if ti_rec ti then c1\<lparr>c_fs := (c_fs c1)\<lparr>s_ev := s_ev (c_fs c1) @ [BEEFSubmission ''oversize'']\<rparr>\<rparr> else c1)
          | NextErr e \<Rightarrow> Some c1
          | NextObj rec \<Rightarrow>
              let c2 = tcp_received ti (length rec) c1
              in do { s \<leftarrow> DispatchClass L fw rec remote (-1) (ti_class ti) (c_fs c2);
                      c3 \<leftarrow> bat_add L fw env ti (c2\<lparr>c_fs := s\<rparr>);
                      beefLoop L fw env ti remote rs c3 } }"

definition handleBEEFConn ::
  "lib \<Rightarrow> Forwarder \<Rightarrow> net_env \<Rightarrow> TCPIngress \<Rightarrow> net_addr option \<Rightarrow> obj_reader \<Rightarrow> tconn \<Rightarrow> tconn option" where
  "handleBEEFConn L fw env ti remote rd c =
     (let b = BEEFRecordBound fw remote
      in beefLoop L fw env ti remote (rd ClassBEEF (if b > 0 then Some b else None)) c)"

fun bareLoop ::
  "lib \<Rightarrow> Forwarder \<Rightarrow> net_env \<Rightarrow> TCPIngress \<Rightarrow> net_addr option \<Rightarrow> (bool list \<times> obj_next) list \<Rightarrow> tconn \<Rightarrow> tconn option" where
  "bareLoop L fw env ti remote [] c = objReads L fw env ti [True] c"
| "bareLoop L fw env ti remote ((lates, r) # rs) c =
     do { c1 \<leftarrow> objReads L fw env ti lates c;
          case r of
            NextObj obj \<Rightarrow>
              let c2 = tcp_received ti (length obj) c1
              in do { s \<leftarrow> DispatchBareTx L fw obj remote (-1) (c_fs c2);
                      c3 \<leftarrow> bat_add L fw env ti (c2\<lparr>c_fs := s\<rparr>);
                      bareLoop L fw env ti remote rs c3 }
          | _ \<Rightarrow> Some c1 }"

definition handleBareConn ::
  "lib \<Rightarrow> Forwarder \<Rightarrow> net_env \<Rightarrow> TCPIngress \<Rightarrow> net_addr option \<Rightarrow> obj_reader \<Rightarrow> tconn \<Rightarrow> tconn option" where
  "handleBareConn L fw env ti remote rd c = bareLoop L fw env ti remote (rd ClassTx None) c"

lemma objReads_ok: "conn_ok fw c \<Longrightarrow> \<exists>c'. objReads L fw env ti lates c = Some c' \<and> conn_ok fw c'"
  unfolding objReads_def
proof (induction lates arbitrary: c)
  case (Cons late lates)
  obtain c1 where "beforeRead L fw env ti late c = Some c1" "conn_ok fw c1" using beforeRead_ok [OF Cons.prems] by blast
  then show ?case using Cons.IH by simp
qed simp

lemma beefLoop_ok: "tcp_lib_ok L \<Longrightarrow> conn_ok fw c \<Longrightarrow> \<exists>c'. beefLoop L fw env ti remote rs c = Some c' \<and> conn_ok fw c'"
proof (induction rs arbitrary: c)
  case Nil
  then show ?case using objReads_ok by simp
next
  case (Cons x rs)
  obtain lates r where x: "x = (lates, r)" by fastforce
  obtain c1 where c1: "objReads L fw env ti lates c = Some c1" "conn_ok fw c1" using objReads_ok [OF Cons.prems(2)] by blast
  show ?case
  proof (cases r)
    case (NextObj rec)
    have "lib_ok L" using Cons.prems(1) by (simp add: tcp_lib_ok_def)
    have t: "handler_total fw (DispatchClass L fw rec remote (-1) (ti_class ti))"
      by (rule DispatchClass_total [OF \<open>lib_ok L\<close>])
    have q: "DispatchClass L fw rec remote (-1) (ti_class ti) s = Some s' \<Longrightarrow> quiet (s_egr s) (s_egr s')" for s s'
      by (rule DispatchClass_quiet)
    obtain s c3 where s: "DispatchClass L fw rec remote (-1) (ti_class ti) (c_fs (tcp_received ti (length rec) c1)) = Some s"
      "bat_add L fw env ti ((tcp_received ti (length rec) c1)\<lparr>c_fs := s\<rparr>) = Some c3" "conn_ok fw c3"
      using admitted_ok [OF t q c1(2)] .
    show ?thesis using Cons.IH [OF Cons.prems(1) s(3)] c1(1) s(1,2) x NextObj by (simp add: Let_def)
  qed (use c1 x in \<open>auto simp: conn_ok_def drained_def\<close>)
qed

lemma bareLoop_ok: "tcp_lib_ok L \<Longrightarrow> conn_ok fw c \<Longrightarrow> \<exists>c'. bareLoop L fw env ti remote rs c = Some c' \<and> conn_ok fw c'"
proof (induction rs arbitrary: c)
  case Nil
  then show ?case using objReads_ok by simp
next
  case (Cons x rs)
  obtain lates r where x: "x = (lates, r)" by fastforce
  obtain c1 where c1: "objReads L fw env ti lates c = Some c1" "conn_ok fw c1" using objReads_ok [OF Cons.prems(2)] by blast
  show ?case
  proof (cases r)
    case (NextObj obj)
    have "lib_ok L" using Cons.prems(1) by (simp add: tcp_lib_ok_def)
    have t: "handler_total fw (DispatchBareTx L fw obj remote (-1))"
      unfolding DispatchBareTx_def [abs_def] by (rule dispatchBareTx_total [OF \<open>lib_ok L\<close>])
    have q: "DispatchBareTx L fw obj remote (-1) s = Some s' \<Longrightarrow> quiet (s_egr s) (s_egr s')" for s s'
      unfolding DispatchBareTx_def by (rule dispatchBareTx_quiet)
    obtain s c3 where s: "DispatchBareTx L fw obj remote (-1) (c_fs (tcp_received ti (length obj) c1)) = Some s"
      "bat_add L fw env ti ((tcp_received ti (length obj) c1)\<lparr>c_fs := s\<rparr>) = Some c3" "conn_ok fw c3"
      using admitted_ok [OF t q c1(2)] .
    show ?thesis using Cons.IH [OF Cons.prems(1) s(3)] c1(1) s(1,2) x NextObj by (simp add: Let_def)
  qed (use c1 x in auto)
qed

subsection \<open>A whole connection\<close>

definition handleConn ::
  "lib \<Rightarrow> Forwarder \<Rightarrow> net_env \<Rightarrow> TCPIngress \<Rightarrow> net_addr option \<Rightarrow> obj_reader \<Rightarrow> tconn \<Rightarrow> tconn option" where
  "handleConn L fw env ti remote rd c =
     do { (c1, err) \<leftarrow> fill L fw env ti 4 c;
          if err \<noteq> None then Some c1
          else if c_buf c1 ! 0 = 0xBE \<and> c_buf c1 ! 1 = 0xEF then handleBEEFConn L fw env ti remote rd c1
          else if \<not> magicOK (c_buf c1) then handleBareConn L fw env ti remote rd c1
          else frameLoop L fw env ti remote c1 }"

record conn_in =
  ci_remote :: "net_addr option"
  ci_reads :: "(bool \<times> bytes) list"
  ci_end :: "bool \<times> go_err"
  ci_objects :: obj_reader

definition startConn :: "TCPIngress \<Rightarrow> conn_in \<Rightarrow> Egress \<Rightarrow> fstate \<Rightarrow> tconn" where
  "startConn ti ci e s =
     \<lparr>c_buf = [], c_in = ci_reads ci, c_end = ci_end ci, c_linger = CoalArmed e \<and> ti_linger ti > 0,
      c_pending = 0, c_flushes = 0, c_fs = s\<lparr>s_egr := Some e\<rparr>, c_admits = [], c_seen = [], c_waits = []\<rparr>"

definition tcpEgress :: "Forwarder \<Rightarrow> TCPIngress \<Rightarrow> Target list \<Rightarrow> bool \<Rightarrow> bool \<Rightarrow> Egress" where
  "tcpEgress fw ti ts tee mir =
     (let e0 = SetReliable True (NewEgress (fw_fragDataSize fw) (fw_coalesce fw) (fw_coalesceMaxMembers fw)
                 (map (if_name \<circ> tg_iface) ts) (int maxTCPBatch) (ti_rec ti));
          e1 = (if tee then EnableRetryTeeShared e0 else e0)
      in if mir then EnableLocalMirrorShared e1 else e1)"

text \<open>The goroutine of the \<open>k\<close>-th accepted connection: a fresh egress on the sockets of its pool slot,
  the connection, and the deferred flush of the tail.\<close>

definition connTask ::
  "lib \<Rightarrow> Forwarder \<Rightarrow> net_env \<Rightarrow> TCPIngress \<Rightarrow> Target list list \<Rightarrow> bool \<Rightarrow> bool \<Rightarrow> nat \<Rightarrow> conn_in \<Rightarrow> fstate \<Rightarrow> fstate option" where
  "connTask L fw env ti pools tee mir k ci s =
     (let e = tcpEgress fw ti (pools ! (k mod length pools)) tee mir
      in do { c \<leftarrow> handleConn L fw env ti (ci_remote ci) (ci_objects ci) (startConn ti ci e s);
              tcp_flushEgr L fw env ti (c_flushes c) (c_fs c) })"

datatype (plugins only: code size) accept_result = Accepted conn_in | AcceptErr go_err

text \<open>The accept loop; \<open>task\<close> is what the goroutine of the \<open>k\<close>-th connection does.  Connections share only the
  forwarder's state, and their tasks are run one after the other.\<close>

fun acceptLoop ::
  "(nat \<Rightarrow> conn_in \<Rightarrow> 's \<Rightarrow> 's option) \<Rightarrow> nat \<Rightarrow> accept_result list \<Rightarrow> 's \<Rightarrow> (bool \<times> 's) option" where
  "acceptLoop task k [] s = Some (False, s)"
| "acceptLoop task k (AcceptErr e # rs) s =
     (if isClosedErr (Some e) then Some (True, s) else acceptLoop task k rs s)"
| "acceptLoop task k (Accepted ci # rs) s = do { s1 \<leftarrow> task k ci s; acceptLoop task (Suc k) rs s1 }"

definition tcp_task ::
  "lib \<Rightarrow> Forwarder \<Rightarrow> net_env \<Rightarrow> TCPIngress \<Rightarrow> Target list list \<Rightarrow> bool \<Rightarrow> bool \<Rightarrow> nat \<Rightarrow> conn_in \<Rightarrow> fstate \<Rightarrow> fstate option" where
  "tcp_task L fw env ti pools tee mir k ci s =
     connTask L fw env ti pools tee mir k ci
       (if ti_rec ti then s\<lparr>s_ev := s_ev s @ [TCPConnectionAccepted]\<rparr> else s)"

definition poolSize :: "int \<Rightarrow> nat" where
  "poolSize gomaxprocs =
     (let n = (if gomaxprocs > maxEgressPool then maxEgressPool else gomaxprocs)
      in nat (if n < 1 then 1 else n))"

text \<open>\<^verbatim>\<open>dialTeeSocks\<close>: one socket for each slot, or none.\<close>

definition dialTeeSocks :: "kernel \<Rightarrow> string \<Rightarrow> nat \<Rightarrow> os \<Rightarrow> nat list \<times> os" where
  "dialTeeSocks K addr poolN h =
     (if addr = [] then ([], h)
      else case openAll (\<lambda>_. NewTeeSocket K) os_close [0..<poolN] [] h of
             (Inl e, h1) \<Rightarrow> ([], h1)
           | (Inr fds, h1) \<Rightarrow> (fds, h1))"

definition openPools :: "kernel \<Rightarrow> Forwarder \<Rightarrow> TCPIngress \<Rightarrow> nat \<Rightarrow> os \<Rightarrow> (go_err + Target list list) \<times> os" where
  "openPools K fw ti poolN h =
     openAll (\<lambda>k. OpenTargets K fw (ti_ifaces ti) (k = 0)) CloseTargets [0..<poolN] [] h"

text \<open>\<^verbatim>\<open>Run\<close>.  The goroutine that waits for \<^verbatim>\<open>done\<close> closes the listener, which ends the accept loop.\<close>

definition tcp_Run ::
  "kernel \<Rightarrow> int \<Rightarrow> net_env \<Rightarrow> lib \<Rightarrow> Forwarder \<Rightarrow> TCPIngress \<Rightarrow> accept_result list \<Rightarrow> os \<Rightarrow> fstate \<Rightarrow> run_result option" where
  "tcp_Run K procs env L fw ti accepts h s =
     (case os_create K h of
        (Inl e, h1) \<Rightarrow> Some (Returned (Some (WrapErr ''tcp-ingress: listen'' e)) h1 s)
      | (Inr lfd, h1) \<Rightarrow>
          let s1 = (if ti_rec ti then s\<lparr>s_ev := s_ev s @ [TCPIngressReady]\<rparr> else s);
              poolN = poolSize procs
          in case openPools K fw ti poolN h1 of
               (Inl e, h2) \<Rightarrow> Some (Returned (Some (WrapErr ''tcp-ingress: open targets'' e)) h2 s1)
             | (Inr pools, h2) \<Rightarrow>
                 case dialTeeSocks K (ti_retryTee ti) poolN h2 of (tees, h3) \<Rightarrow>
                 case dialTeeSocks K (ti_localMirror ti) poolN h3 of (mirs, h4) \<Rightarrow>
                   do { (closed, s2) \<leftarrow> acceptLoop (tcp_task L fw env ti pools (tees \<noteq> []) (mirs \<noteq> [])) 0 accepts s1;
                        if \<not> closed then Some (Running h4 s2)
                        else Some (Returned None
                               (fold CloseTargets pools (fold os_close mirs (fold os_close tees (os_close lfd h4)))) s2) })"

lemma handleConn_ok:
  assumes "tcp_lib_ok L" "conn_ok fw c"
  shows "\<exists>c'. handleConn L fw env ti remote rd c = Some c' \<and> conn_ok fw c'"
proof -
  obtain c1 err where f: "fill L fw env ti 4 c = Some (c1, err)" "conn_ok fw c1"
    using fillFrom_ok [OF assms(2)] unfolding fill_def by blast
  show ?thesis using f beefLoop_ok [OF assms(1) f(2)] bareLoop_ok [OF assms(1) f(2)] frameLoop_ok [OF assms(1) f(2)]
    unfolding handleConn_def handleBEEFConn_def handleBareConn_def Let_def by fastforce
qed

lemma tcpEgress_ok:
  assumes "fstate_ok fw s"
  shows "fstate_ok fw (s\<lparr>s_egr := Some (tcpEgress fw ti ts tee mir)\<rparr>)" "drained (s\<lparr>s_egr := Some (tcpEgress fw ti ts tee mir)\<rparr>)"
proof -
  let ?e = "NewEgress (fw_fragDataSize fw) (fw_coalesce fw) (fw_coalesceMaxMembers fw)
                 (map (if_name \<circ> tg_iface) ts) (int maxTCPBatch) (ti_rec ti)"
  have o: "only_tees (SetReliable True ?e) (tcpEgress fw ti ts tee mir)"
    by (auto simp: tcpEgress_def Let_def EnableRetryTeeShared_def EnableLocalMirrorShared_def
        intro: only_teesI only_tees_trans)
  note k = only_tees_keeps [OF o]
  have s: "fstate_ok fw (s\<lparr>s_egr := Some ?e\<rparr>)" "drained (s\<lparr>s_egr := Some ?e\<rparr>)"
    using worker_start [OF assms only_teesI(3)] by auto
  have "egr_ok fw (Some (SetReliable True ?e)) = egr_ok fw (Some ?e)"
    by (simp add: SetReliable_def egr_ok_def egress_wf_def sender_ok_def cong: option.case_cong)
  then show "fstate_ok fw (s\<lparr>s_egr := Some (tcpEgress fw ti ts tee mir)\<rparr>)" using s(1) k(1) by (simp add: fstate_ok_def)
  show "drained (s\<lparr>s_egr := Some (tcpEgress fw ti ts tee mir)\<rparr>)" using s(2) k(2-4) by (auto simp: drained_def SetReliable_def)
qed

lemma startConn_ok:
  "fstate_ok fw s \<Longrightarrow> conn_ok fw (startConn ti ci (tcpEgress fw ti ts tee mir) s)"
  using tcpEgress_ok [of fw s ti ts tee mir] by (simp add: startConn_def conn_ok_def maxTCPBatch_def)

lemma connTask_ok:
  assumes "tcp_lib_ok L" "fstate_ok fw s"
  shows "\<exists>s'. connTask L fw env ti pools tee mir k ci s = Some s' \<and> fstate_ok fw s' \<and> drained s'"
proof -
  let ?e = "tcpEgress fw ti (pools ! (k mod length pools)) tee mir"
  obtain c where c: "handleConn L fw env ti (ci_remote ci) (ci_objects ci) (startConn ti ci ?e s) = Some c" "conn_ok fw c"
    using handleConn_ok [OF assms(1) startConn_ok [OF assms(2)]] by blast
  then obtain e where "fstate_ok fw (c_fs c)" "s_egr (c_fs c) = Some e" by (auto simp: conn_ok_def)
  from flushEgr_ok [OF this] show ?thesis using c(1) by (simp add: connTask_def Let_def)
qed

lemma tcp_task_ok:
  assumes "tcp_lib_ok L" "fstate_ok fw s"
  shows "\<exists>s'. tcp_task L fw env ti pools tee mir k ci s = Some s' \<and> fstate_ok fw s' \<and> drained s'"
  unfolding tcp_task_def by (rule connTask_ok [OF assms(1)]) (use assms(2) in simp)

subsection \<open>Serving connections\<close>

text \<open>What an accept loop asks of its connections, and what it then is: it ends exactly when the listener
  was closed, whatever the connections did.\<close>

locale conn_server =
  fixes task :: "nat \<Rightarrow> conn_in \<Rightarrow> 's \<Rightarrow> 's option" and inv :: "'s \<Rightarrow> bool"
  assumes served: "inv s \<Longrightarrow> \<exists>s'. task k ci s = Some s' \<and> inv s'"
begin

lemma accept_returns:
  "inv s \<Longrightarrow> \<exists>b s'. acceptLoop task k rs s = Some (b, s') \<and> inv s' \<and>
     (b \<longleftrightarrow> (\<exists>e. AcceptErr e \<in> set rs \<and> isClosedErr (Some e)))"
proof (induction rs arbitrary: k s)
  case (Cons r rs)
  show ?case
  proof (cases r)
    case (Accepted ci)
    obtain s1 where "task k ci s = Some s1" "inv s1" using served [OF Cons.prems] by blast
    then show ?thesis using Accepted Cons.IH [of s1 "Suc k"] by simp
  next
    case (AcceptErr e)
    then show ?thesis using Cons.IH [OF Cons.prems, of k] Cons.prems by (cases "isClosedErr (Some e)") auto
  qed
qed auto

end

interpretation tcp_lane: conn_server "tcp_task L fw env ti ps tee mir" "\<lambda>s. tcp_lib_ok L \<and> fstate_ok fw s"
  for L fw env ti ps tee mir
  by unfold_locales (use tcp_task_ok in blast)

interpretation pools: opener "\<lambda>k :: nat. OpenTargets K fw ifaces (k = 0)" CloseTargets "map tg_fd" "\<lambda>_ _ _. True"
  for K fw ifaces
proof (unfold_locales, goal_cases)
  case (1 h i)
  show ?case by (rule opens_weaken [OF OpenTargets_opens [OF 1]]) auto
next
  case (2 r h)
  show ?case by (induction r arbitrary: h) (simp_all add: CloseTargets_def closeTargets_def)
qed simp

lemma openPools_opens: "os_wf h \<Longrightarrow> opens (\<lambda>ps. concat (map (map tg_fd) ps)) (\<lambda>_ _. True) h (openPools K fw ti n h)"
  unfolding openPools_def by (rule opens_weaken [OF pools.all_or_nothing]) auto

lemma dialTeeSocks_effect:
  assumes "os_wf h" "dialTeeSocks K addr n h = (fds, h')"
  shows "os_wf h'" "os_next h \<le> os_next h'" "set (os_open h') = set (os_open h) \<union> set fds" "\<forall>fd \<in> set fds. os_next h \<le> fd"
proof -
  have c: "concat (map (\<lambda>fd. [fd]) l) = l" for l :: "nat list" by (induction l) simp_all
  obtain res h1 where r: "openAll (\<lambda>_ :: nat. NewTeeSocket K) os_close [0..<n] [] h = (res, h1)" by fastforce
  have "opens (\<lambda>rs. concat (map (\<lambda>fd. [fd]) rs)) (\<lambda>_ _. True) h (res, h1)"
    unfolding r [symmetric] by (rule opens_weaken [OF tees.all_or_nothing [OF assms(1)]]) auto
  then show "os_wf h'" "os_next h \<le> os_next h'" "set (os_open h') = set (os_open h) \<union> set fds" "\<forall>fd \<in> set fds. os_next h \<le> fd"
    using assms r by (auto simp: dialTeeSocks_def opens_def c split: if_splits sum.splits)
qed

lemma fold_close_open: "set (os_open (fold os_close fds h)) = set (os_open h) - set fds"
  by (induction fds arbitrary: h) (auto simp: os_close_def)

lemma fold_CloseTargets_open: "set (os_open (fold CloseTargets ps h)) = set (os_open h) - set (concat (map (map tg_fd) ps))"
  using pools.close_all [of ps h] by auto

lemma os_create_effect:
  assumes "os_wf h" "os_create K h = (res, h')"
  shows "os_wf h'" "os_next h \<le> os_next h'"
    "case res of Inl e \<Rightarrow> set (os_open h') = set (os_open h)
     | Inr fd \<Rightarrow> fd = os_next h \<and> fd < os_next h' \<and> set (os_open h') = insert fd (set (os_open h))"
  using assms by (fastforce simp: os_create_def syscall_def os_wf_def split: option.splits)+


subsection \<open>Properties\<close>

text \<open>C23.  The framing of a TCP stream is the protocol's grammar.  However the bytes are cut into reads, and
  whatever else the connection does in between, the units \<^verbatim>\<open>handleConn\<close> dispatches on a framed stream are
  exactly those of \<^const>\<open>parseAll\<close>, the parser of the whole byte string, in order: up to the first bad magic,
  unknown version, refused length or cut-off unit, and the connection always ends.\<close>

theorem tcp_framing:
  assumes "tcp_lib_ok L" "conn_ok fw c" "4 \<le> length (stream c)" "magicOK (stream c)"
  shows "\<exists>c'. handleConn L fw env ti remote rd c = Some c' \<and> c_seen c' = c_seen c @ parseAll fw (stream c)"
proof -
  obtain c1 err where f: "fill L fw env ti 4 c = Some (c1, err)" "conn_ok fw c1"
    using fillFrom_ok [OF assms(2)] unfolding fill_def by blast
  note i = fillFrom_input [OF f(1) [unfolded fill_def]]
  have st: "stream c1 = stream c" "c_seen c1 = c_seen c" using i by (simp_all add: stream_def)
  have err: "err = None" using i st(1) assms(3) by (cases err) simp_all
  have len: "4 \<le> length (c_buf c1)" using i err by simp
  have m: "magicOK (c_buf c1)" using assms(4) len unfolding st(1) [symmetric] by (auto simp: stream_def magicOK_def nth_append split: if_splits)
  then have "c_buf c1 ! 0 \<noteq> 0xBE" by (simp add: magicOK_def)
  then have "handleConn L fw env ti remote rd c = frameLoop L fw env ti remote c1"
    using f(1) err m by (simp add: handleConn_def)
  then show ?thesis using frameLoop_ok [OF assms(1) f(2), of env ti remote] st by auto
qed




text \<open>Two frames of the 44-byte header, the second cut off, arriving in three reads.\<close>

definition sampleFrame :: "bytes \<Rightarrow> bytes" where
  "sampleFrame payload = [0xE3, 0xE1, 0xF3, 0xE8, 0, 0, 1] @ zeros 36 @ [of_nat (length payload)] @ payload"

definition sampleConn :: conn_in where
  "sampleConn = \<lparr>ci_remote = Some sampleSrc,
     ci_reads = [(True, take 3 (sampleFrame [7, 8])), (False, drop 3 (sampleFrame [7, 8]) @ [0xE3, 0xE1]), (True, zeros 5)],
     ci_end = (True, ErrEOF), ci_objects = (\<lambda>_ _. [])\<rparr>"

definition sampleNet :: net_env where
  "sampleNet = \<lparr>ne_sock = (\<lambda>_ _ _. (0, Some (OtherErr ''EIO''))), ne_tee = (\<lambda>_ _. (0, None)),
     ne_mirror = (\<lambda>_ _. (0, None)), ne_turn = (\<lambda>_. 0)\<rparr>"

lemma sample_tcp_ok: "tcp_lib_ok sampleLib"
  using sample_lib_ok by (simp add: tcp_lib_ok_def sampleLib_def)

lemma sample_stream:
  "stream (startConn ti sampleConn e s) = sampleFrame [7, 8] @ [0xE3, 0xE1] @ zeros 5"
  by (simp add: startConn_def stream_def sampleConn_def)

lemma sample_parse: "parseAll fw (sampleFrame [7, 8] @ [0xE3, 0xE1] @ zeros 5) = [Framed (sampleFrame [7, 8])]"
proof -
  let ?f = "sampleFrame [7, 8]" and ?r = "[0xE3, 0xE1] @ zeros 5"
  have l: "length ?f = 46" by (simp add: sampleFrame_def)
  have p: "parseUnit fw (?f @ ?r) = Some (Framed ?f, ?r)"
    using l by (simp add: parseUnit_def parsePayload_def nth_append magicOK_def tooLong_def DefaultMaxObject_def
        sampleFrame_def MsgTypeSubtreeGroupAnnounce_def FrameVerV1_def FrameVerV9_def)
  have "parseUnit fw ?r = None" by (simp add: parseUnit_def)
  then show ?thesis using p by (subst parseAll.simps, simp, subst parseAll.simps) simp
qed


theorem tcp_framing_witness:
  "let ti = NewTCPIngress [] True; c = startConn ti sampleConn (tcpEgress sampleFw ti [] True False) (newState 0 1 concat) in
   \<exists>c'. handleConn sampleLib sampleFw sampleNet ti (Some sampleSrc) (\<lambda>_ _. []) c = Some c' \<and>
     c_seen c' = [Framed (sampleFrame [7, 8])]"
proof -
  let ?ti = "NewTCPIngress [] True"
  let ?c = "startConn ?ti sampleConn (tcpEgress sampleFw ?ti [] True False) (newState 0 1 concat)"
  have ok: "conn_ok sampleFw ?c" by (rule startConn_ok [OF newState_ok [OF concat_interleaving]])
  have m: "4 \<le> length (stream ?c)" "magicOK (stream ?c)"
    unfolding sample_stream by (simp_all add: sampleFrame_def magicOK_def nth_append)
  have "c_seen ?c = []" by (simp add: startConn_def)
  then show ?thesis unfolding Let_def
    using tcp_framing [OF sample_tcp_ok ok m, of sampleNet ?ti "Some sampleSrc" "\<lambda>_ _. []"]
    unfolding sample_stream sample_parse by simp
qed



end
