(* ===== verification/ObjIngress.thy ===== *)
theory ObjIngress
  imports Tcp
begin

text \<open>
  \<^verbatim>\<open>worker/objingress.go\<close>: the push lanes, one listener for each class of object.  An object read off a
  connection is reframed, dispatched and flushed before the next is read.  The object reader is the
  argument it is for the TCP listener; a connection's tees have private sockets, so a task changes the
  open descriptors too.  \<open>oc_waits\<close> records what the egress holds at each call of the reader.
\<close>

subsection \<open>The lane\<close>

definition DefaultMaxObjectBytes :: int where "DefaultMaxObjectBytes = 256 * 2 ^ 20"

record ObjectIngress =
  oi_ifaces :: "iface list"
  oi_rec :: bool
  oi_class :: objclass
  oi_maxObject :: int
  oi_via :: "via_fn option"
  oi_retryTee :: string
  oi_admit :: bool
  oi_connAdmit :: bool
  oi_localMirror :: string

definition obj_SetRetryTee :: "string \<Rightarrow> ObjectIngress \<Rightarrow> ObjectIngress" where
  "obj_SetRetryTee addr oi = oi\<lparr>oi_retryTee := addr\<rparr>"

definition obj_SetLocalMirror :: "string \<Rightarrow> ObjectIngress \<Rightarrow> ObjectIngress" where
  "obj_SetLocalMirror addr oi = oi\<lparr>oi_localMirror := addr\<rparr>"

definition obj_SetAdmitHook :: "bool \<Rightarrow> ObjectIngress \<Rightarrow> ObjectIngress" where
  "obj_SetAdmitHook on oi = oi\<lparr>oi_admit := on\<rparr>"

definition obj_SetConnAdmitHook :: "bool \<Rightarrow> ObjectIngress \<Rightarrow> ObjectIngress" where
  "obj_SetConnAdmitHook on oi = oi\<lparr>oi_connAdmit := on\<rparr>"

definition NewObjectIngress :: "iface list \<Rightarrow> bool \<Rightarrow> objclass \<Rightarrow> ObjectIngress" where
  "NewObjectIngress ifaces rec cls =
     \<lparr>oi_ifaces = ifaces, oi_rec = rec, oi_class = cls, oi_maxObject = DefaultMaxObjectBytes, oi_via = None,
      oi_retryTee = [], oi_admit = False, oi_connAdmit = False, oi_localMirror = []\<rparr>"

definition SetMaxObject :: "int \<Rightarrow> ObjectIngress \<Rightarrow> ObjectIngress" where
  "SetMaxObject n oi = (if n > 0 then oi\<lparr>oi_maxObject := n\<rparr> else oi)"

definition obj_SetFlushVia :: "via_fn option \<Rightarrow> ObjectIngress \<Rightarrow> ObjectIngress" where
  "obj_SetFlushVia fn oi = oi\<lparr>oi_via := fn\<rparr>"

definition obj_flushEgr :: "net_env \<Rightarrow> ObjectIngress \<Rightarrow> nat \<Rightarrow> fstate \<Rightarrow> fstate option" where
  "obj_flushEgr env oi n s =
     (case s_egr s of None \<Rightarrow> Some s | Some e \<Rightarrow> flushOut env (oi_via oi) (teeTurn env n s))"

subsection \<open>A connection\<close>

record oconn =
  oc_fs :: fstate
  oc_flushes :: nat
  oc_admits :: "admit_call list"
  oc_waits :: "nat list"

definition obj_admit :: "ObjectIngress \<Rightarrow> nat \<Rightarrow> oconn \<Rightarrow> oconn" where
  "obj_admit oi n c =
     c\<lparr>oc_admits := oc_admits c @ (if oi_admit oi then [AdmitCall 1 n] else []) @
                   (if oi_connAdmit oi then [ConnAdmitCall 1 n] else [])\<rparr>"

text \<open>What is dispatched for an object and under which class; nothing when it cannot be reframed.\<close>

definition reframe :: "lib \<Rightarrow> ObjectIngress \<Rightarrow> bytes \<Rightarrow> (bytes \<times> IngressClass) option" where
  "reframe L oi obj =
     (if oi_class oi = ClassBEEF then Some (obj, IngressBEEF)
      else case objfmt_MulticastBytes L (oi_class oi) obj of
             None \<Rightarrow> None
           | Some raw \<Rightarrow> Some (raw, IngressPrivileged))"

fun objLoop ::
  "lib \<Rightarrow> Forwarder \<Rightarrow> net_env \<Rightarrow> ObjectIngress \<Rightarrow> net_addr option \<Rightarrow> obj_next list \<Rightarrow> oconn \<Rightarrow> oconn option" where
  "objLoop L fw env oi remote [] c = Some (c\<lparr>oc_waits := oc_waits c @ [heldOf (oc_fs c)]\<rparr>)"
| "objLoop L fw env oi remote (r # rs) c =
     (let c1 = c\<lparr>oc_waits := oc_waits c @ [heldOf (oc_fs c)]\<rparr>
      in case r of
           NextTooLarge \<Rightarrow>
             Some (if oi_class oi = ClassBEEF \<and> oi_rec oi
                   then c1\<lparr>oc_fs := (oc_fs c1)\<lparr>s_ev := s_ev (oc_fs c1) @ [BEEFSubmission ''oversize'']\<rparr>\<rparr> else c1)
         | NextErr e \<Rightarrow> Some c1
         | NextObj obj \<Rightarrow>
             let c2 = obj_admit oi (length obj) c1
             in case reframe L oi obj of
                  None \<Rightarrow> Some c2
                | Some (raw, cls) \<Rightarrow>
                    do { s \<leftarrow> DispatchClass L fw raw remote (-1) cls (oc_fs c2);
                         s' \<leftarrow> obj_flushEgr env oi (oc_flushes c2) s;
                         objLoop L fw env oi remote rs (c2\<lparr>oc_fs := s', oc_flushes := Suc (oc_flushes c2)\<rparr>) })"

text \<open>The bound a lane gives its reader.\<close>

definition objBound :: "Forwarder \<Rightarrow> ObjectIngress \<Rightarrow> net_addr option \<Rightarrow> int" where
  "objBound fw oi remote =
     (let b = BEEFRecordBound fw remote
      in if oi_class oi = ClassBEEF \<and> b > 0 then b else oi_maxObject oi)"

definition obj_handleConn ::
  "lib \<Rightarrow> Forwarder \<Rightarrow> net_env \<Rightarrow> ObjectIngress \<Rightarrow> conn_in \<Rightarrow> fstate \<Rightarrow> oconn option" where
  "obj_handleConn L fw env oi ci s =
     objLoop L fw env oi (ci_remote ci) (map snd (ci_objects ci (oi_class oi) (Some (objBound fw oi (ci_remote ci)))))
       \<lparr>oc_fs = s, oc_flushes = 0, oc_admits = [], oc_waits = []\<rparr>"

definition objEgress :: "Forwarder \<Rightarrow> ObjectIngress \<Rightarrow> Target list \<Rightarrow> Egress" where
  "objEgress fw oi ts =
     NewEgress (fw_fragDataSize fw) (fw_coalesce fw) (fw_coalesceMaxMembers fw) (map (if_name \<circ> tg_iface) ts) 1 (oi_rec oi)"

text \<open>The goroutine of a connection and its deferred calls, last deferred first.\<close>

definition objTask ::
  "kernel \<Rightarrow> lib \<Rightarrow> Forwarder \<Rightarrow> net_env \<Rightarrow> ObjectIngress \<Rightarrow> Target list \<Rightarrow> nat \<Rightarrow> conn_in \<Rightarrow> os \<times> fstate \<Rightarrow> (os \<times> fstate) option" where
  "objTask K L fw env oi ts k ci hs =
     (case hs of (h, s) \<Rightarrow>
      case dialTee K (oi_retryTee oi) EnableRetryTee (objEgress fw oi ts, h) of (tee, e1, h1) \<Rightarrow>
      case dialTee K (oi_localMirror oi) EnableLocalMirror (e1, h1) of (mir, e2, h2) \<Rightarrow>
        do { c \<leftarrow> obj_handleConn L fw env oi ci (s\<lparr>s_egr := Some e2\<rparr>);
             s1 \<leftarrow> obj_flushEgr env oi (oc_flushes c) (oc_fs c);
             let s2 = (if mir = None then s1 else onEgressEvents (CloseLocalMirror (ne_mirror env)) s1);
             let s3 = (if tee = None then s2 else onEgressEvents (CloseRetryTee (ne_tee env)) s2);
             Some (closeOpt tee (closeOpt mir h2), s3) })"

definition obj_Run ::
  "kernel \<Rightarrow> net_env \<Rightarrow> lib \<Rightarrow> Forwarder \<Rightarrow> ObjectIngress \<Rightarrow> accept_result list \<Rightarrow> os \<Rightarrow> fstate \<Rightarrow> run_result option" where
  "obj_Run K env L fw oi accepts h s =
     (case os_create K h of
        (Inl e, h1) \<Rightarrow> Some (Returned (Some e) h1 s)
      | (Inr lfd, h1) \<Rightarrow>
          (case OpenTargets K fw (oi_ifaces oi) True h1 of
             (Inl e, h2) \<Rightarrow> Some (Returned (Some e) h2 s)
           | (Inr ts, h2) \<Rightarrow>
               do { (closed, h3, s1) \<leftarrow> acceptLoop (objTask K L fw env oi ts) 0 accepts (h2, s);
                    if \<not> closed then Some (Running h3 s1)
                    else Some (Returned None (CloseTargets ts (os_close lfd h3)) s1) }))"
subsection \<open>Every object is flushed before the next is read\<close>

text \<open>Between two objects: the state is valid, nothing is held, and the lane has no coalescing buffer
  (a batch of one never gets one).\<close>

definition obj_ok :: "Forwarder \<Rightarrow> fstate \<Rightarrow> bool" where
  "obj_ok fw s \<longleftrightarrow> fstate_ok fw s \<and> drained s \<and> (\<forall>e. s_egr s = Some e \<longrightarrow> e_coal e = None)"

lemma obj_flushEgr_ok:
  assumes "fstate_ok fw s" "s_egr s = Some e" "e_coal e = None"
  shows "\<exists>s'. obj_flushEgr env oi n s = Some s' \<and> obj_ok fw s'"
proof -
  obtain e1 where s1: "s_egr (teeTurn env n s) = Some e1" "only_tees e e1" "fstate_ok fw (teeTurn env n s)"
    using teeTurn_ok [OF assms(1,2)] by blast
  have "e_coal e1 = None" using only_tees_keeps(4) [OF s1(2)] assms(3) by simp
  then show ?thesis using flushOut_ok [OF s1(3,1), of env "oi_via oi"] assms(2)
    by (auto simp: obj_flushEgr_def obj_ok_def drained_def)
qed

lemma obj_dispatch_ok:
  assumes "lib_ok L" "obj_ok fw s"
  obtains s1 s2 where "DispatchClass L fw raw remote w cls s = Some s1" "obj_flushEgr env oi n s1 = Some s2" "obj_ok fw s2"
proof -
  obtain e where e: "s_egr s = Some e" "e_coal e = None" using assms(2) by (auto simp: obj_ok_def drained_def)
  obtain s1 where s1: "DispatchClass L fw raw remote w cls s = Some s1" "fstate_ok fw s1"
    using handler_totalD [OF DispatchClass_total [OF assms(1)]] assms(2) unfolding obj_ok_def by blast
  obtain e1 where e1: "s_egr s1 = Some e1" "e_coal e1 = None"
    using DispatchClass_quiet [OF s1(1)] e by (cases "s_egr s1") (auto simp: queues_only_def)
  show ?thesis using obj_flushEgr_ok [OF s1(2) e1] s1(1) that by blast
qed

lemma objLoop_ok:
  assumes "lib_ok L"
  shows "obj_ok fw (oc_fs c) \<Longrightarrow> \<forall>n \<in> set (oc_waits c). n = 0 \<Longrightarrow>
    \<exists>c'. objLoop L fw env oi remote rs c = Some c' \<and> obj_ok fw (oc_fs c') \<and> (\<forall>n \<in> set (oc_waits c'). n = 0)"
proof (induction rs arbitrary: c)
  case Nil
  then show ?case using drained_holds_nothing by (auto simp: obj_ok_def)
next
  case (Cons r rs)
  let ?c1 = "c\<lparr>oc_waits := oc_waits c @ [heldOf (oc_fs c)]\<rparr>"
  have w: "\<forall>n \<in> set (oc_waits ?c1). n = 0" using Cons.prems drained_holds_nothing by (auto simp: obj_ok_def)
  show ?case
  proof (cases r)
    case (NextObj obj)
    show ?thesis
    proof (cases "reframe L oi obj")
      case None
      then show ?thesis using NextObj Cons.prems w by (simp add: obj_admit_def)
    next
      case (Some rc)
      obtain raw cls where rc: "rc = (raw, cls)" by fastforce
      let ?c2 = "obj_admit oi (length obj) ?c1"
      have f: "oc_fs ?c2 = oc_fs c" "oc_flushes ?c2 = oc_flushes c" "oc_waits ?c2 = oc_waits ?c1"
        by (simp_all add: obj_admit_def)
      obtain s1 s2 where s: "DispatchClass L fw raw remote (-1) cls (oc_fs c) = Some s1"
        "obj_flushEgr env oi (oc_flushes c) s1 = Some s2" "obj_ok fw s2"
        using obj_dispatch_ok [OF assms Cons.prems(1)] .
      let ?c3 = "?c2\<lparr>oc_fs := s2, oc_flushes := Suc (oc_flushes ?c2)\<rparr>"
      have "objLoop L fw env oi remote (r # rs) c = objLoop L fw env oi remote rs ?c3"
        using NextObj Some rc s(1,2) f by (simp add: Let_def)
      moreover have "obj_ok fw (oc_fs ?c3)" "\<forall>n \<in> set (oc_waits ?c3). n = 0" using s(3) w f by simp_all
      ultimately show ?thesis using Cons.IH by presburger
    qed
  qed (use Cons.prems w in \<open>auto simp: obj_ok_def drained_def Let_def\<close>)
qed

lemma objEgress_ok:
  assumes "fstate_ok fw s" "only_tees (objEgress fw oi ts) e"
  shows "obj_ok fw (s\<lparr>s_egr := Some e\<rparr>)"
proof -
  have "e_coal e = None" using only_tees_keeps(4) [OF assms(2)] by (simp add: objEgress_def NewEgress_def)
  then show ?thesis using worker_start [OF assms(1), of _ _ _ _ _ e] assms(2) by (auto simp: obj_ok_def objEgress_def)
qed

lemma obj_handleConn_ok:
  assumes "lib_ok L" "obj_ok fw s"
  shows "\<exists>c. obj_handleConn L fw env oi ci s = Some c \<and> obj_ok fw (oc_fs c) \<and> (\<forall>n \<in> set (oc_waits c). n = 0)"
  unfolding obj_handleConn_def by (rule objLoop_ok) (use assms in simp_all)

lemma closeOpt_open: "set (os_open (closeOpt fo h)) = set (os_open h) - set (fd_list fo)"
  by (auto simp: closeOpt_def fd_list_def os_close_def split: option.split)

lemma closeOpt_wf: "os_wf h \<Longrightarrow> os_wf (closeOpt fo h) \<and> os_next (closeOpt fo h) = os_next h"
  by (auto simp: closeOpt_def os_close_def os_wf_def split: option.split)

lemma objTask_ok:
  assumes "lib_ok L" "os_wf h" "fstate_ok fw s"
  shows "\<exists>h' s'. objTask K L fw env oi ts k ci (h, s) = Some (h', s') \<and> os_wf h' \<and> os_next h \<le> os_next h' \<and>
     set (os_open h') = set (os_open h) \<and> fstate_ok fw s' \<and> drained s'"
proof -
  obtain tee e1 h1 where t: "dialTee K (oi_retryTee oi) EnableRetryTee (objEgress fw oi ts, h) = (tee, e1, h1)" by (metis prod_cases3)
  obtain mir e2 h2 where m: "dialTee K (oi_localMirror oi) EnableLocalMirror (e1, h1) = (mir, e2, h2)" by (metis prod_cases3)
  note te = dialTee_effect [OF assms(2) t enabled(1,2)]
  note me = dialTee_effect [OF te(2) m enabled(3,4)]
  obtain c where c: "obj_handleConn L fw env oi ci (s\<lparr>s_egr := Some e2\<rparr>) = Some c" "obj_ok fw (oc_fs c)"
    using obj_handleConn_ok [OF assms(1) objEgress_ok [OF assms(3) only_tees_trans [OF te(1) me(1)]]] by blast
  obtain e where e: "fstate_ok fw (oc_fs c)" "s_egr (oc_fs c) = Some e" "e_coal e = None"
    using c(2) by (auto simp: obj_ok_def drained_def)
  obtain s1 where s1: "obj_flushEgr env oi (oc_flushes c) (oc_fs c) = Some s1" "fstate_ok fw s1" "drained s1"
    using obj_flushEgr_ok [OF e] unfolding obj_ok_def by blast
  define s2 where "s2 = (if mir = None then s1 else onEgressEvents (CloseLocalMirror (ne_mirror env)) s1)"
  define s3 where "s3 = (if tee = None then s2 else onEgressEvents (CloseRetryTee (ne_tee env)) s2)"
  have k2: "drained s2" "fstate_ok fw s2" using drained_close [OF s1(3,2)] s1 by (simp_all add: s2_def)
  have k3: "drained s3" "fstate_ok fw s3" using drained_close [OF k2] k2 by (simp_all add: s3_def)
  let ?h = "closeOpt tee (closeOpt mir h2)"
  have run: "objTask K L fw env oi ts k ci (h, s) = Some (?h, s3)"
    unfolding objTask_def prod.case t m s2_def s3_def using c(1) s1(1) by (simp add: Let_def)
  have "\<forall>fd \<in> set (os_open h). fd < os_next h" using assms(2) by (auto simp: os_wf_def)
  moreover have "\<forall>fd \<in> set (fd_list tee) \<union> set (fd_list mir). os_next h \<le> fd"
    using te(3,5) me(5) by (cases tee; cases mir) (auto simp: fd_list_def)
  ultimately have "set (os_open h) \<inter> (set (fd_list tee) \<union> set (fd_list mir)) = {}" by (meson disjoint_iff leD)
  then have "set (os_open ?h) = set (os_open h)" unfolding closeOpt_open using te(4) me(4) by blast
  moreover have "os_wf ?h" "os_next h \<le> os_next ?h"
    using closeOpt_wf closeOpt_wf [OF me(2), of mir] te(3) me(3) by auto
  ultimately show ?thesis using run k3 by blast
qed

interpretation obj_lane: conn_server "objTask K L fw env oi ts"
  "\<lambda>(h, s). lib_ok L \<and> os_wf h \<and> n \<le> os_next h \<and> set (os_open h) = H \<and> fstate_ok fw s" for K L fw env oi ts n H
proof (unfold_locales, goal_cases)
  case (1 hs k ci)
  obtain h s where hs: "hs = (h, s)" by fastforce
  then have "lib_ok L" "os_wf h" "n \<le> os_next h" "set (os_open h) = H" "fstate_ok fw s" using 1 by auto
  then show ?case using objTask_ok [of L h fw s K env oi ts k ci] hs by fastforce
qed


lemma obj_Run_releases:
  assumes "lib_ok L" "fstate_ok fw s" "os_wf h" and cl: "AcceptErr ce \<in> set accepts" "isClosedErr (Some ce)"
  shows "\<exists>err h' s'. obj_Run K env L fw oi accepts h s = Some (Returned err h' s') \<and> fstate_ok fw s' \<and>
     (err = None \<longrightarrow> set (os_open h') = set (os_open h)) \<and> set (os_open h') \<subseteq> insert (os_next h) (set (os_open h))"
proof -
  obtain res h1 where r: "os_create K h = (res, h1)" by fastforce
  note o1 = os_create_effect [OF assms(3) r]
  have low: "\<forall>fd \<in> set (os_open h). fd < os_next h" using assms(3) by (auto simp: os_wf_def)
  show ?thesis
  proof (cases res)
    case (Inl e)
    then show ?thesis using r o1 assms(2) by (auto simp: obj_Run_def)
  next
    case (Inr lfd)
    have lfd: "lfd = os_next h" "set (os_open h1) = insert lfd (set (os_open h))" "lfd < os_next h1" using o1(3) Inr by auto
    obtain tr h2 where p: "OpenTargets K fw (oi_ifaces oi) True h1 = (tr, h2)" by fastforce
    note o2 = OpenTargets_opens [OF o1(1), of "oi_ifaces oi" fw K True, unfolded p opens_def]
    show ?thesis
    proof (cases tr)
      case (Inl e)
      then show ?thesis using r \<open>res = Inr lfd\<close> p o2 lfd assms(2) by (simp add: obj_Run_def)
    next
      case (Inr ts)
      have st: "case (h2, s) of (h, s) \<Rightarrow> lib_ok L \<and> os_wf h \<and> os_next h1 \<le> os_next h \<and>
          set (os_open h) = set (os_open h2) \<and> fstate_ok fw s"
        using assms(1,2) o2 by simp
      have c: "(\<exists>e. AcceptErr e \<in> set accepts \<and> isClosedErr (Some e)) = True" using cl by blast
      obtain h3 s1 where a: "acceptLoop (objTask K L fw env oi ts) 0 accepts (h2, s) = Some (True, h3, s1)"
        "set (os_open h3) = set (os_open h2)" "fstate_ok fw s1"
        using obj_lane.accept_returns [OF st, where k = 0 and rs = accepts and K = K and env = env and oi = oi and ts = ts]
        unfolding c by auto
      have run: "obj_Run K env L fw oi accepts h s = Some (Returned None (CloseTargets ts (os_close lfd h3)) s1)"
        unfolding obj_Run_def r \<open>res = Inr lfd\<close> prod.case sum.case p Inr using a(1) by simp
      have "\<forall>fd \<in> insert lfd (tg_fd ` set ts). os_next h \<le> fd" using lfd o2 Inr by fastforce
      then have "set (os_open h) \<inter> insert lfd (tg_fd ` set ts) = {}" using low by (meson disjoint_iff leD)
      then have "set (os_open (CloseTargets ts (os_close lfd h3))) = set (os_open h)"
        using a(2) o2 Inr lfd by (auto simp: CloseTargets_def closeTargets_effect os_close_def)
      then show ?thesis using run a(3) by auto
    qed
  qed
qed

subsection \<open>Properties\<close>



end
