(* ===== verification/Manifest.thy ===== *)
theory Manifest
  imports Sockets
begin

text \<open>
  \<^verbatim>\<open>manifest/applier.go\<close> and \<^verbatim>\<open>manifest/listener.go\<close>: the consumer of shard manifests.  The registry and the
  evaluator belong to shard-common: an adopted view is an input of each tick, and the decoder of manifest
  datagrams is an argument.  Hooks are optional functions on a state of any type, so the applier can be
  run on the hooks \<^verbatim>\<open>main\<close> installs and on a log of calls.
\<close>

subsection \<open>Restart requests\<close>

record RestartRequest =
  rr_requested :: bool
  rr_reason :: "string option"

definition noRestart :: RestartRequest where
  "noRestart = \<lparr>rr_requested = False, rr_reason = None\<rparr>"

definition Request :: "string \<Rightarrow> RestartRequest \<Rightarrow> RestartRequest" where
  "Request reason r = (if rr_requested r then r else r\<lparr>rr_requested := True, rr_reason := Some reason\<rparr>)"

definition Requested :: "RestartRequest \<Rightarrow> bool" where
  "Requested r = rr_requested r"

definition Reason :: "RestartRequest \<Rightarrow> string" where
  "Reason r = (case rr_reason r of Some v \<Rightarrow> v | None \<Rightarrow> [])"

subsection \<open>The applier\<close>

record SuccessorView =
  sv_ShardBits :: byte
  sv_SSM :: bool
  sv_TransitionEpoch :: u32

text \<open>An adopted view, with the fields the proxy reads.\<close>

record Adopted =
  av_ShardBits :: byte
  av_SSM :: bool
  av_Successor :: "SuccessorView option"
  av_Domains :: "byte \<rightharpoonup> byte"
  av_Divergence :: "string list"
  av_Pilots :: int
  av_Quorum :: "string \<Rightarrow> bool"

definition zeroAdopted :: Adopted where
  "zeroAdopted = \<lparr>av_ShardBits = 0, av_SSM = False, av_Successor = None, av_Domains = Map.empty,
     av_Divergence = [], av_Pilots = 0, av_Quorum = (\<lambda>_. False)\<rparr>"

text \<open>\<^verbatim>\<open>Domains[id].ShardBits\<close>: zero for a domain that is not there.\<close>

definition domainBits :: "byte \<Rightarrow> Adopted \<Rightarrow> byte" where
  "domainBits d v = (case av_Domains v d of Some b \<Rightarrow> b | None \<Rightarrow> 0)"

record 's Hooks =
  OnShardBitsChange :: "(byte \<Rightarrow> byte \<Rightarrow> 's \<Rightarrow> 's) option"
  OnSourceModeChange :: "(bool \<Rightarrow> bool \<Rightarrow> 's \<Rightarrow> 's) option"
  OnSuccessorChange :: "(SuccessorView option \<Rightarrow> SuccessorView option \<Rightarrow> 's \<Rightarrow> 's) option"
  OnDomainShardBitsChange :: "(byte \<Rightarrow> byte \<Rightarrow> byte \<Rightarrow> 's \<Rightarrow> 's) option"

datatype (plugins only: code size) mf_event =
    ManifestSetPilotsKnown int
  | ManifestSetQuorumMetBits nat
  | ManifestSetReshardState nat
  | ManifestSetReshardWindowSeconds int
  | ManifestAdoption string string
  | ManifestDivergence string string
  | ManifestReceived

definition reasonForChange :: "bool \<Rightarrow> string" where
  "reasonForChange hadPrev = (if hadPrev then ''quorum-shift'' else ''bootstrap'')"

definition publishMetrics :: "int \<Rightarrow> Adopted \<Rightarrow> mf_event list" where
  "publishMetrics now v =
     (let bits = (if av_Quorum v ''shard_bits'' then 1 else 0) + (if av_Quorum v ''source_mode'' then 2 else 0) +
                 (if av_Quorum v ''successor'' then 4 else 0);
          window = (case av_Successor v of None \<Rightarrow> 0 | Some sv \<Rightarrow> uint (sv_TransitionEpoch sv) - now);
          state = (case av_Successor v of None \<Rightarrow> 0 | Some sv \<Rightarrow> if window > 0 then 1 else 2)
      in [ManifestSetPilotsKnown (av_Pilots v), ManifestSetQuorumMetBits bits, ManifestSetReshardState state,
          ManifestSetReshardWindowSeconds window])"

record domainChange =
  dc_domain :: byte
  dc_prev :: byte
  dc_next :: byte

definition domainShardBitsChanges :: "Adopted \<Rightarrow> Adopted \<Rightarrow> domainChange list" where
  "domainShardBitsChanges prev next =
     concat (map (\<lambda>i. let d = of_nat i; pv = domainBits d prev; nv = domainBits d next
                       in if pv \<noteq> nv then [\<lparr>dc_domain = d, dc_prev = pv, dc_next = nv\<rparr>] else [])
              [0..<0x0E + 1])"

definition onChange :: "'h option \<Rightarrow> bool \<Rightarrow> mf_event list \<Rightarrow> ('h \<Rightarrow> 's \<Rightarrow> 's) \<Rightarrow> 's \<times> mf_event list \<Rightarrow> 's \<times> mf_event list" where
  "onChange hook changed evs call st =
     (case hook of
        None \<Rightarrow> st
      | Some f \<Rightarrow> if changed then (call f (fst st), snd st @ evs) else st)"

definition domainHooks ::
  "(byte \<Rightarrow> byte \<Rightarrow> byte \<Rightarrow> 's \<Rightarrow> 's) option \<Rightarrow> domainChange list \<Rightarrow> 's \<times> mf_event list \<Rightarrow> 's \<times> mf_event list" where
  "domainHooks hook ds st =
     fold (\<lambda>d. onChange hook True [ManifestAdoption ''domain_shard_bits'' (reasonForChange (dc_prev d \<noteq> 0))]
                 (\<lambda>f. f (dc_domain d) (dc_prev d) (dc_next d))) ds st"

text \<open>One tick: \<open>next\<close> is what the evaluator adopted.\<close>

definition applierTick :: "'s Hooks \<Rightarrow> int \<Rightarrow> Adopted \<Rightarrow> Adopted \<Rightarrow> 's \<times> mf_event list \<Rightarrow> 's \<times> mf_event list" where
  "applierTick h now prev next st =
     (let st1 = (fst st, snd st @ publishMetrics now next);
          st2 = onChange (OnShardBitsChange h) (av_ShardBits prev \<noteq> av_ShardBits next)
                  [ManifestAdoption ''shard_bits'' (reasonForChange (av_ShardBits prev \<noteq> 0))]
                  (\<lambda>f. f (av_ShardBits prev) (av_ShardBits next)) st1;
          st3 = onChange (OnSourceModeChange h) (av_SSM prev \<noteq> av_SSM next)
                  [ManifestAdoption ''source_mode'' (reasonForChange (av_Pilots prev > 0))]
                  (\<lambda>f. f (av_SSM prev) (av_SSM next)) st2;
          st4 = onChange (OnSuccessorChange h) (av_Successor prev \<noteq> av_Successor next) []
                  (\<lambda>f. f (av_Successor prev) (av_Successor next)) st3;
          st5 = domainHooks (OnDomainShardBitsChange h) (domainShardBitsChanges prev next) st4
      in (fst st5, snd st5 @ map (\<lambda>f. ManifestDivergence f ''peer-disagree'') (av_Divergence next)))"

text \<open>\<^verbatim>\<open>Run\<close>: the views of the ticks, with their times, until the context is cancelled.\<close>

fun applierLoop :: "'s Hooks \<Rightarrow> Adopted \<Rightarrow> (int \<times> Adopted) list \<Rightarrow> 's \<times> mf_event list \<Rightarrow> 's \<times> mf_event list" where
  "applierLoop h prev [] st = st"
| "applierLoop h prev ((now, next) # ticks) st = applierLoop h next ticks (applierTick h now prev next st)"

definition applierRun :: "'s Hooks \<Rightarrow> (int \<times> Adopted) list \<Rightarrow> 's \<Rightarrow> 's \<times> mf_event list" where
  "applierRun h ticks s = applierLoop h zeroAdopted ticks (s, [])"

subsection \<open>Calls of the hooks\<close>

datatype hook_call =
    ShardBitsCall byte byte
  | SourceModeCall bool bool
  | SuccessorCall "SuccessorView option" "SuccessorView option"
  | DomainCall byte byte byte

definition runCall :: "'s Hooks \<Rightarrow> hook_call \<Rightarrow> 's \<Rightarrow> 's" where
  "runCall h c =
     (case c of
        ShardBitsCall a b \<Rightarrow> (case OnShardBitsChange h of Some f \<Rightarrow> f a b | None \<Rightarrow> (\<lambda>s. s))
      | SourceModeCall a b \<Rightarrow> (case OnSourceModeChange h of Some f \<Rightarrow> f a b | None \<Rightarrow> (\<lambda>s. s))
      | SuccessorCall a b \<Rightarrow> (case OnSuccessorChange h of Some f \<Rightarrow> f a b | None \<Rightarrow> (\<lambda>s. s))
      | DomainCall d a b \<Rightarrow> (case OnDomainShardBitsChange h of Some f \<Rightarrow> f d a b | None \<Rightarrow> (\<lambda>s. s)))"

text \<open>What a tick calls, in order.\<close>

definition tickCalls :: "Adopted \<Rightarrow> Adopted \<Rightarrow> hook_call list" where
  "tickCalls prev next =
     (if av_ShardBits prev \<noteq> av_ShardBits next then [ShardBitsCall (av_ShardBits prev) (av_ShardBits next)] else []) @
     (if av_SSM prev \<noteq> av_SSM next then [SourceModeCall (av_SSM prev) (av_SSM next)] else []) @
     (if av_Successor prev \<noteq> av_Successor next then [SuccessorCall (av_Successor prev) (av_Successor next)] else []) @
     map (\<lambda>d. DomainCall (dc_domain d) (dc_prev d) (dc_next d)) (domainShardBitsChanges prev next)"

fun loopCalls :: "Adopted \<Rightarrow> Adopted list \<Rightarrow> hook_call list" where
  "loopCalls prev [] = []"
| "loopCalls prev (next # vs) = tickCalls prev next @ loopCalls next vs"

definition shardCalls :: "hook_call list \<Rightarrow> (byte \<times> byte) list" where
  "shardCalls cs = concat (map (\<lambda>c. case c of ShardBitsCall a b \<Rightarrow> [(a, b)] | _ \<Rightarrow> []) cs)"

definition sourceCalls :: "hook_call list \<Rightarrow> (bool \<times> bool) list" where
  "sourceCalls cs = concat (map (\<lambda>c. case c of SourceModeCall a b \<Rightarrow> [(a, b)] | _ \<Rightarrow> []) cs)"

definition successorCalls :: "hook_call list \<Rightarrow> (SuccessorView option \<times> SuccessorView option) list" where
  "successorCalls cs = concat (map (\<lambda>c. case c of SuccessorCall a b \<Rightarrow> [(a, b)] | _ \<Rightarrow> []) cs)"

definition domainCalls :: "byte \<Rightarrow> hook_call list \<Rightarrow> (byte \<times> byte) list" where
  "domainCalls d cs = concat (map (\<lambda>c. case c of DomainCall d' a b \<Rightarrow> if d' = d then [(a, b)] else [] | _ \<Rightarrow> []) cs)"

text \<open>The changes along a sequence.\<close>

fun transitions :: "'a list \<Rightarrow> ('a \<times> 'a) list" where
  "transitions (a # b # xs) = (if a \<noteq> b then [(a, b)] else []) @ transitions (b # xs)"
| "transitions xs = []"

lemma calls_append [simp]:
  "shardCalls (xs @ ys) = shardCalls xs @ shardCalls ys" "sourceCalls (xs @ ys) = sourceCalls xs @ sourceCalls ys"
  "successorCalls (xs @ ys) = successorCalls xs @ successorCalls ys" "domainCalls d (xs @ ys) = domainCalls d xs @ domainCalls d ys"
  by (simp_all add: shardCalls_def sourceCalls_def successorCalls_def domainCalls_def)

lemma calls_domain_map [simp]:
  "shardCalls (map (\<lambda>d. DomainCall (f d) (g d) (k d)) ds) = []" "sourceCalls (map (\<lambda>d. DomainCall (f d) (g d) (k d)) ds) = []"
  "successorCalls (map (\<lambda>d. DomainCall (f d) (g d) (k d)) ds) = []"
  by (induction ds) (simp_all add: shardCalls_def sourceCalls_def successorCalls_def)

lemma tick_other_calls:
  "shardCalls (tickCalls prev next) = (if av_ShardBits prev \<noteq> av_ShardBits next then [(av_ShardBits prev, av_ShardBits next)] else [])"
  "sourceCalls (tickCalls prev next) = (if av_SSM prev \<noteq> av_SSM next then [(av_SSM prev, av_SSM next)] else [])"
  "successorCalls (tickCalls prev next) =
     (if av_Successor prev \<noteq> av_Successor next then [(av_Successor prev, av_Successor next)] else [])"
  by (auto simp: tickCalls_def) (simp_all add: shardCalls_def sourceCalls_def successorCalls_def)

lemma of_nat_byte_eq: "i < 256 \<Longrightarrow> (of_nat i :: byte) = d \<longleftrightarrow> i = unat d"
  by (metis mod_less of_nat_unat unat_of_nat_byte ucast_id)

lemma domainCalls_scan:
  "n \<le> 256 \<Longrightarrow> domainCalls d (map (\<lambda>d. DomainCall (dc_domain d) (dc_prev d) (dc_next d))
      (concat (map (\<lambda>i. let d = of_nat i; pv = domainBits d prev; nv = domainBits d next
                       in if pv \<noteq> nv then [\<lparr>dc_domain = d, dc_prev = pv, dc_next = nv\<rparr>] else []) [0..<n]))) =
    (if unat d < n \<and> domainBits d prev \<noteq> domainBits d next then [(domainBits d prev, domainBits d next)] else [])"
proof (induction n)
  case (Suc n)
  then have "(of_nat n :: byte) = d \<longleftrightarrow> n = unat d" by (intro of_nat_byte_eq) simp
  then show ?case using Suc by (auto simp: Let_def domainCalls_def)
qed (simp add: domainCalls_def)

lemma tick_domain_calls:
  "domainCalls d (tickCalls prev next) =
     (if d \<le> 14 \<and> domainBits d prev \<noteq> domainBits d next then [(domainBits d prev, domainBits d next)] else [])"
proof -
  have "unat d < 15 \<longleftrightarrow> d \<le> 14" by (auto simp: word_le_nat_alt)
  moreover have "domainCalls d (if b then [ShardBitsCall x y] else []) = []" "domainCalls d (if b then [SourceModeCall u v] else []) = []"
    "domainCalls d (if b then [SuccessorCall p q] else []) = []" for b x y u v p q
    by (simp_all add: domainCalls_def)
  ultimately show ?thesis using domainCalls_scan [of 15 d prev "next"]
    by (simp add: tickCalls_def domainShardBitsChanges_def)
qed

lemma loop_calls:
  "shardCalls (loopCalls prev vs) = transitions (map av_ShardBits (prev # vs))"
  "sourceCalls (loopCalls prev vs) = transitions (map av_SSM (prev # vs))"
  "successorCalls (loopCalls prev vs) = transitions (map av_Successor (prev # vs))"
  "domainCalls d (loopCalls prev vs) = (if d \<le> 14 then transitions (map (domainBits d) (prev # vs)) else [])"
proof -
  show "shardCalls (loopCalls prev vs) = transitions (map av_ShardBits (prev # vs))"
    by (induction vs arbitrary: prev) (simp add: shardCalls_def, simp add: tick_other_calls)
  show "sourceCalls (loopCalls prev vs) = transitions (map av_SSM (prev # vs))"
    by (induction vs arbitrary: prev) (simp add: sourceCalls_def, simp add: tick_other_calls)
  show "successorCalls (loopCalls prev vs) = transitions (map av_Successor (prev # vs))"
    by (induction vs arbitrary: prev) (simp add: successorCalls_def, simp add: tick_other_calls)
  show "domainCalls d (loopCalls prev vs) = (if d \<le> 14 then transitions (map (domainBits d) (prev # vs)) else [])"
    by (induction vs arbitrary: prev) (simp add: domainCalls_def, simp add: tick_domain_calls)
qed

lemma domainHooks_calls:
  "fst (domainHooks (OnDomainShardBitsChange h) ds st) =
   fold (runCall h) (map (\<lambda>d. DomainCall (dc_domain d) (dc_prev d) (dc_next d)) ds) (fst st)"
  unfolding domainHooks_def
  by (induction ds arbitrary: st) (auto simp: onChange_def runCall_def split: option.split)

lemma tick_runs_calls: "fst (applierTick h now prev next st) = fold (runCall h) (tickCalls prev next) (fst st)"
proof -
  have c: "fst (onChange (OnShardBitsChange h) b evs (\<lambda>f. f x y) st) = fold (runCall h) (if b then [ShardBitsCall x y] else []) (fst st)"
    "fst (onChange (OnSourceModeChange h) b evs (\<lambda>f. f u v) st) = fold (runCall h) (if b then [SourceModeCall u v] else []) (fst st)"
    "fst (onChange (OnSuccessorChange h) b evs (\<lambda>f. f p q) st) = fold (runCall h) (if b then [SuccessorCall p q] else []) (fst st)"
    for b evs st x y u v p q
    by (auto simp: onChange_def runCall_def split: option.split)
  show ?thesis unfolding applierTick_def Let_def tickCalls_def fst_conv domainHooks_calls c fold_append comp_apply ..
qed

lemma loop_runs_calls: "fst (applierLoop h prev ticks st) = fold (runCall h) (loopCalls prev (map snd ticks)) (fst st)"
  by (induction h prev ticks st rule: applierLoop.induct) (simp_all add: tick_runs_calls)

subsection \<open>The listener\<close>

definition MsgTypeShardManifest :: byte where "MsgTypeShardManifest = 0x40"

record Listener =
  l_Group :: udp_addr
  l_Groups :: "udp_addr list"
  l_Iface :: "iface option"
  l_Sources :: "bytes list"

definition listener_groups :: "Listener \<Rightarrow> udp_addr list" where
  "listener_groups l = (if l_Groups l \<noteq> [] then l_Groups l else [l_Group l])"

definition posture :: "bytes list \<Rightarrow> string" where
  "posture sources = (if sources = [] then ''asm'' else ''ssm'')"

text \<open>The joins on one socket: an address that is not an IP and a failed call end it with the error.\<close>

fun joinAll :: "kernel \<Rightarrow> udp_addr list \<Rightarrow> os \<Rightarrow> go_err option \<times> os" where
  "joinAll K [] h = (None, h)"
| "joinAll K (g # gs) h =
     (if To16 (ua_ip g) = [] then (Some (TextErr ''ssm listen: bad group address''), h)
      else case syscall K h of
             (Some cerr, h1) \<Rightarrow> (Some (WrapErr ''ssm listen: Control'' cerr), h1)
           | (None, h1) \<Rightarrow>
               (case syscall K h1 of
                  (Some joinErr, h2) \<Rightarrow> (Some (WrapErr ''ssm join'' joinErr), h2)
                | (None, h2) \<Rightarrow> joinAll K gs h2))"

definition openGroupConn :: "kernel \<Rightarrow> Listener \<Rightarrow> os \<Rightarrow> (go_err + nat) \<times> os" where
  "openGroupConn K l h =
     (let gs = listener_groups l
      in if length gs = 1 \<and> l_Sources l = [] then os_create K h
         else case os_create K h of
                (Inl e, h1) \<Rightarrow> (Inl (WrapErr ''ssm listen'' e), h1)
              | (Inr fd, h1) \<Rightarrow>
                  (case syscall K h1 of
                     (Some e, h2) \<Rightarrow> (Inl (WrapErr ''ssm listen: SyscallConn'' e), os_close fd h2)
                   | (None, h2) \<Rightarrow>
                       (case joinAll K gs h2 of
                          (Some e, h3) \<Rightarrow> (Inl e, os_close fd h3)
                        | (None, h3) \<Rightarrow> (Inr fd, h3))))"

text \<open>What a turn of the read loop meets; a read gives at most the 2048 bytes of the buffer.\<close>

datatype (plugins only: code size) mf_read =
    MCancelled
  | MTimeout
  | MReadErr go_err
  | MDatagram bytes bytes

text \<open>The manifest of a datagram, when the proxy takes it: the address of its sender and its contents.\<close>

definition manifestOf :: "(bytes \<Rightarrow> 'm option) \<Rightarrow> bytes \<Rightarrow> bytes \<Rightarrow> (bytes \<times> 'm) option" where
  "manifestOf dec raw src =
     (let buf = take 2048 raw
      in if length buf < 7 then None
         else if buf ! 6 \<noteq> MsgTypeShardManifest then None
         else case dec buf of
                None \<Rightarrow> None
              | Some m \<Rightarrow> if To16 src = [] then None else Some (To16 src, m))"

fun listenLoop ::
  "(bytes \<Rightarrow> 'm option) \<Rightarrow> mf_read list \<Rightarrow> (bytes \<times> 'm) list \<times> mf_event list \<Rightarrow> bool \<times> (bytes \<times> 'm) list \<times> mf_event list" where
  "listenLoop dec [] st = (False, st)"
| "listenLoop dec (MCancelled # rs) st = (True, st)"
| "listenLoop dec (MTimeout # rs) st = listenLoop dec rs st"
| "listenLoop dec (MReadErr e # rs) st = listenLoop dec rs st"
| "listenLoop dec (MDatagram raw src # rs) st =
     (case manifestOf dec raw src of
        None \<Rightarrow> listenLoop dec rs st
      | Some u \<Rightarrow> listenLoop dec rs (fst st @ [u], snd st @ [ManifestReceived]))"

definition listener_Start ::
  "kernel \<Rightarrow> (bytes \<Rightarrow> 'm option) \<Rightarrow> Listener \<Rightarrow> mf_read list \<Rightarrow> os \<Rightarrow>
   (go_err + bool) \<times> os \<times> (bytes \<times> 'm) list \<times> mf_event list" where
  "listener_Start K dec l reads h =
     (case openGroupConn K l h of
        (Inl e, h1) \<Rightarrow> (Inl (WrapErr ''manifest-listener: open'' e), h1, [], [])
      | (Inr fd, h1) \<Rightarrow>
          (case listenLoop dec reads ([], []) of
             (returned, st) \<Rightarrow> (Inr returned, if returned then os_close fd h1 else h1, st)))"

lemma joinAll_frame: "joinAll K gs h = (r, h') \<Longrightarrow> \<exists>c. h' = h\<lparr>os_calls := c\<rparr>"
proof (induction K gs h rule: joinAll.induct)
  case (1 K h)
  then show ?case by (intro exI [of _ "os_calls h"]) simp
next
  case (2 K g gs h)
  show ?case
  proof (cases "To16 (ua_ip g) = []")
    case True
    then show ?thesis using 2(2) by (intro exI [of _ "os_calls h"]) simp
  next
    case False
    then show ?thesis using 2 by (auto simp: syscall_def split: option.splits)
  qed
qed

lemma openGroupConn_opens:
  assumes "os_wf h" shows "opens (\<lambda>fd. [fd]) (\<lambda>_ _. True) h (openGroupConn K l h)"
proof -
  obtain r h3 where j: "joinAll K (listener_groups l) (h\<lparr>os_calls := Suc (Suc (os_calls h)), os_next := Suc (os_next h),
      os_open := os_next h # os_open h\<rparr>) = (r, h3)" by fastforce
  obtain c where c: "h3 = h\<lparr>os_next := Suc (os_next h), os_open := os_next h # os_open h, os_calls := c\<rparr>"
    using joinAll_frame [OF j] by auto
  have new: "os_next h \<notin> set (os_open h)" using assms by (auto simp: os_wf_def)
  have wf: "os_wf (h\<lparr>os_next := Suc (os_next h), os_open := os_next h # os_open h\<rparr>)"
    using assms by (fastforce simp: os_wf_def)
  let ?h1 = "h\<lparr>os_calls := Suc (os_calls h), os_next := Suc (os_next h), os_open := os_next h # os_open h\<rparr>"
  let ?one = "length (listener_groups l) = 1 \<and> l_Sources l = []"
  have sys: "syscall K ?h1 = (K (Suc (os_calls h)), h\<lparr>os_calls := Suc (Suc (os_calls h)), os_next := Suc (os_next h),
      os_open := os_next h # os_open h\<rparr>)"
    by (simp add: syscall_def)
  show ?thesis
  proof (cases "K (os_calls h)")
    case (Some e)
    then show ?thesis using assms by (simp add: opens_def openGroupConn_def Let_def os_create_def syscall_def)
  next
    case None
    then have cr: "os_create K h = (Inr (os_next h), ?h1)" by (simp add: os_create_def syscall_def)
    consider (one) ?one | (raw) e where "\<not> ?one" "K (Suc (os_calls h)) = Some e"
      | (joined) e where "\<not> ?one" "K (Suc (os_calls h)) = None" "r = Some e" | (ok) "\<not> ?one" "K (Suc (os_calls h)) = None" "r = None"
      by fastforce
    then show ?thesis
    proof cases
      case one
      then show ?thesis using wf by (simp add: opens_def openGroupConn_def Let_def cr os_wf_def)
    next
      case raw
      have "os_wf (os_close (os_next h) (h\<lparr>os_next := Suc (os_next h), os_open := os_next h # os_open h, os_calls := x\<rparr>))" for x
        using wf by (auto simp: os_wf_def os_close_def)
      then show ?thesis using raw new assms unfolding openGroupConn_def Let_def cr prod.case sum.case sys if_not_P [OF raw(1)]
        by (simp add: opens_def os_close_def os_wf_def)
    next
      case joined
      then show ?thesis using j c new assms wf unfolding openGroupConn_def Let_def cr prod.case sum.case sys if_not_P [OF joined(1)]
        by (auto simp add: opens_def os_close_def os_wf_def)
    next
      case ok
      then show ?thesis using j c new wf unfolding openGroupConn_def Let_def cr prod.case sum.case sys if_not_P [OF ok(1)]
        by (simp add: opens_def os_wf_def)
    qed
  qed
qed

interpretation manifest_socket: opener "\<lambda>l. openGroupConn K l" os_close "\<lambda>fd. [fd]" "\<lambda>_ _ _. True" for K
  by unfold_locales (simp_all add: openGroupConn_opens)

lemma listenLoop_spec:
  "listenLoop dec rs st =
     (MCancelled \<in> set rs,
      let us = List.map_filter (\<lambda>r. case r of MDatagram raw src \<Rightarrow> manifestOf dec raw src | _ \<Rightarrow> None)
                 (takeWhile (\<lambda>r. r \<noteq> MCancelled) rs)
      in (fst st @ us, snd st @ replicate (length us) ManifestReceived))"
  by (induction dec rs st rule: listenLoop.induct)
    (auto simp: map_filter_simps Let_def replicate_append_same [symmetric] split: option.split)

subsection \<open>Properties\<close>

text \<open>C30.  The hooks an applier has installed run once for each change of the adopted view and for nothing
  else, in the order of the changes: the calls made on the state are, for the shard width, the source mode, the
  successor and every object plane 0..14, the transitions of that field along the views of the ticks, starting
  from the zero view; the planes above 14 get none.\<close>

theorem applier_fires_on_changes:
  "fst (applierRun h ticks s) = fold (runCall h) (loopCalls zeroAdopted (map snd ticks)) s \<and>
   shardCalls (loopCalls zeroAdopted (map snd ticks)) = transitions (0 # map (av_ShardBits \<circ> snd) ticks) \<and>
   sourceCalls (loopCalls zeroAdopted (map snd ticks)) = transitions (False # map (av_SSM \<circ> snd) ticks) \<and>
   successorCalls (loopCalls zeroAdopted (map snd ticks)) = transitions (None # map (av_Successor \<circ> snd) ticks) \<and>
   domainCalls d (loopCalls zeroAdopted (map snd ticks)) =
     (if d \<le> 14 then transitions (0 # map (domainBits d \<circ> snd) ticks) else [])"
  by (simp add: applierRun_def loop_runs_calls loop_calls zeroAdopted_def domainBits_def [of d "zeroAdopted"] comp_def
      domainBits_def)

text \<open>The manifests a sequence of reads carries, up to the one that sees the context cancelled.\<close>

definition delivered :: "(bytes \<Rightarrow> 'm option) \<Rightarrow> mf_read list \<Rightarrow> (bytes \<times> 'm) list" where
  "delivered dec reads =
     List.map_filter (\<lambda>r. case r of MDatagram raw src \<Rightarrow> manifestOf dec raw src | _ \<Rightarrow> None)
       (takeWhile (\<lambda>r. r \<noteq> MCancelled) reads)"

text \<open>C31.  A listener whose context is cancelled gives the registry exactly the manifests of the datagrams read
  before the cancellation, in order and with one metric each, whatever else arrives and however many reads fail;
  when it cannot open its socket it gives none.  Either way it returns with the descriptors open that were open
  before, whichever system call fails.\<close>

theorem listener_delivers:
  assumes "os_wf h" and "MCancelled \<in> set reads"
  shows "\<exists>res h' us evs. listener_Start K dec l reads h = (res, h', us, evs) \<and> set (os_open h') = set (os_open h) \<and>
     us = (if isl res then [] else delivered dec reads) \<and> evs = replicate (length us) ManifestReceived"
proof (cases "openGroupConn K l h")
  case (Pair r h1)
  then have o: "opens (\<lambda>fd. [fd]) (\<lambda>_ _. True) h (r, h1)" using manifest_socket.opened [OF assms(1), of K l] by simp
  show ?thesis
  proof (cases r)
    case (Inl e)
    then show ?thesis using o Pair by (auto simp: listener_Start_def opens_def)
  next
    case (Inr fd)
    then have "set (os_open (os_close fd h1)) = set (os_open h)" using o assms(1)
      by (auto simp: opens_def os_close_def os_wf_def)
    then show ?thesis using Inr Pair assms(2)
      by (simp add: listener_Start_def listenLoop_spec Let_def delivered_def)
  qed
qed

theorem listener_delivers_witness:
  "let h = \<lparr>os_calls = 0, os_next = 3, os_open = [1], os_opts = []\<rparr>;
       l = \<lparr>l_Group = \<lparr>ua_ip = [], ua_port = 0, ua_zone = []\<rparr>, l_Groups = [], l_Iface = Some \<lparr>if_name = ''eth0'', if_index = 2\<rparr>, l_Sources = []\<rparr>;
       raw = replicate 7 MsgTypeShardManifest; src = replicate 16 1 in
   \<exists>h' evs. listener_Start (\<lambda>n. None) (\<lambda>b. Some (length b)) l [MReadErr (SysErrno ''EIO''), MDatagram raw src, MCancelled, MDatagram raw src] h =
       (Inr True, h', [(src, 7)], evs) \<and> set (os_open h') = {1} \<and> evs = [ManifestReceived]"
proof -
  let ?h = "\<lparr>os_calls = 0, os_next = 3, os_open = [1], os_opts = []\<rparr>"
  let ?l = "\<lparr>l_Group = \<lparr>ua_ip = [], ua_port = 0, ua_zone = []\<rparr>, l_Groups = [], l_Iface = Some \<lparr>if_name = ''eth0'', if_index = 2\<rparr>, l_Sources = []\<rparr>"
  let ?raw = "replicate 7 MsgTypeShardManifest" and ?src = "replicate 16 1 :: bytes"
  let ?rs = "[MReadErr (SysErrno ''EIO''), MDatagram ?raw ?src, MCancelled, MDatagram ?raw ?src]"
  have m: "manifestOf (\<lambda>b. Some (length b)) ?raw ?src = Some (?src, 7)"
    by (simp add: manifestOf_def Let_def To16_def)
  have d: "delivered (\<lambda>b. Some (length b)) ?rs = [(?src, 7)]"
    using m by (simp add: delivered_def map_filter_simps)
  obtain res h' us evs where r: "listener_Start (\<lambda>n. None) (\<lambda>b. Some (length b)) ?l ?rs ?h = (res, h', us, evs)"
    "set (os_open h') = {1}" "us = (if isl res then [] else delivered (\<lambda>b. Some (length b)) ?rs)"
    "evs = replicate (length us) ManifestReceived"
    using listener_delivers [of ?h ?rs "\<lambda>n. None" "\<lambda>b. Some (length b)" ?l] by (auto simp: os_wf_def)
  have "res = Inr True" using r(1) m
    by (simp add: listener_Start_def openGroupConn_def listener_groups_def os_create_def syscall_def Let_def)
  then show ?thesis using r d by (simp add: Let_def)
qed

end
