(* ===== verification/Config.thy ===== *)
theory Config
  imports Complex_Main Net
begin

text \<open>
  \<^verbatim>\<open>config/config.go\<close> and \<^verbatim>\<open>config/controlgroup.go\<close>: the configuration from flags and environment.  What
  \<^verbatim>\<open>flag.Parse\<close> took off the command line and the environment are arguments; strings are the ASCII strings
  the parsers of \<^verbatim>\<open>strconv\<close> and \<^verbatim>\<open>strings\<close> work on.  The scope table of shard-common, the interfaces of the host,
  and the syntaxes of durations, floats and IP addresses are arguments too.
\<close>

subsection \<open>Strings and numbers\<close>

definition isSpace :: "char \<Rightarrow> bool" where
  "isSpace c \<longleftrightarrow> of_char c \<in> {0x20, 0x09, 0x0A, 0x0B, 0x0C, 0x0D :: nat}"

definition TrimSpace :: "string \<Rightarrow> string" where
  "TrimSpace s = rev (dropWhile isSpace (rev (dropWhile isSpace s)))"

definition lowerChar :: "char \<Rightarrow> char" where
  "lowerChar c = (let n = of_char c :: nat in if 65 \<le> n \<and> n \<le> 90 then char_of (n + 32) else c)"

definition ToLower :: "string \<Rightarrow> string" where
  "ToLower s = map lowerChar s"

fun splitComma :: "string \<Rightarrow> string list" where
  "splitComma [] = [[]]"
| "splitComma (c # cs) =
     (if c = CHR '','' then [] # splitComma cs
      else case splitComma cs of [] \<Rightarrow> [[c]] | x # xs \<Rightarrow> (c # x) # xs)"

definition digitVal :: "char \<Rightarrow> nat option" where
  "digitVal c =
     (let n = of_char (lowerChar c) :: nat
      in if 48 \<le> n \<and> n \<le> 57 then Some (n - 48)
         else if 97 \<le> n \<and> n \<le> 122 then Some (n - 97 + 10)
         else None)"

text \<open>\<^verbatim>\<open>strconv.ParseUint\<close> for an explicit base, \<^verbatim>\<open>strconv.Atoi\<close> and \<^verbatim>\<open>strconv.ParseBool\<close>.\<close>

definition parseDigit :: "nat \<Rightarrow> char \<Rightarrow> nat \<Rightarrow> nat option" where
  "parseDigit base c n =
     (case digitVal c of None \<Rightarrow> None | Some d \<Rightarrow> if d < base then Some (n * base + d) else None)"

definition ParseUint :: "string \<Rightarrow> nat \<Rightarrow> nat \<Rightarrow> nat option" where
  "ParseUint s base bits =
     (if s = [] then None
      else case fold_opt (parseDigit base) s 0 of
             None \<Rightarrow> None
           | Some n \<Rightarrow> if n < 2 ^ bits then Some n else None)"

definition Atoi :: "string \<Rightarrow> int option" where
  "Atoi s =
     (let neg = (s \<noteq> [] \<and> hd s = CHR ''-'');
          ds = (if s \<noteq> [] \<and> (hd s = CHR ''-'' \<or> hd s = CHR ''+'') then tl s else s)
      in case ParseUint ds 10 64 of
           None \<Rightarrow> None
         | Some n \<Rightarrow> if neg then (if n \<le> 2 ^ 63 then Some (- int n) else None)
                     else if n < 2 ^ 63 then Some (int n) else None)"

definition ParseBool :: "string \<Rightarrow> bool option" where
  "ParseBool s =
     (if s \<in> {''1'', ''t'', ''T'', ''TRUE'', ''true'', ''True''} then Some True
      else if s \<in> {''0'', ''f'', ''F'', ''FALSE'', ''false'', ''False''} then Some False
      else None)"

subsection \<open>Environment and flags\<close>

type_synonym environ = "string \<Rightarrow> string"

record cfg_lib =
  cl_ParseScope :: "string \<Rightarrow> nat option"
  cl_PrefixSSM :: "nat \<Rightarrow> u16 option"
  cl_InterfaceByName :: "string \<Rightarrow> bool"
  cl_ParseIP :: "string \<Rightarrow> bytes"
  cl_ParseDuration :: "string \<Rightarrow> int option"
  cl_ParseFloat :: "string \<Rightarrow> rat option"
  cl_NumCPU :: int

record cmdline =
  fl_str :: "string \<Rightarrow> string option"
  fl_int :: "string \<Rightarrow> int option"
  fl_uint :: "string \<Rightarrow> nat option"
  fl_bool :: "string \<Rightarrow> bool option"
  fl_dur :: "string \<Rightarrow> int option"
  fl_float :: "string \<Rightarrow> rat option"

definition envStr :: "environ \<Rightarrow> string \<Rightarrow> string \<Rightarrow> string" where
  "envStr env key def = (if env key \<noteq> [] then env key else def)"

definition envParsed :: "(string \<Rightarrow> 'a option) \<Rightarrow> environ \<Rightarrow> string \<Rightarrow> 'a \<Rightarrow> 'a" where
  "envParsed parse env key def =
     (if env key \<noteq> [] then (case parse (env key) of Some v \<Rightarrow> v | None \<Rightarrow> def) else def)"

definition envInt :: "environ \<Rightarrow> string \<Rightarrow> int \<Rightarrow> int" where
  "envInt env key def = envParsed Atoi env key def"

definition envBool :: "environ \<Rightarrow> string \<Rightarrow> bool \<Rightarrow> bool" where
  "envBool env key def = envParsed ParseBool env key def"

definition envFloat :: "cfg_lib \<Rightarrow> environ \<Rightarrow> string \<Rightarrow> rat \<Rightarrow> rat" where
  "envFloat L env key def = envParsed (cl_ParseFloat L) env key def"

definition envDuration :: "cfg_lib \<Rightarrow> environ \<Rightarrow> string \<Rightarrow> int \<Rightarrow> int" where
  "envDuration L env key def = envParsed (cl_ParseDuration L) env key def"

text \<open>A flag of the \<^verbatim>\<open>flag\<close> package: its value when it was given, its default otherwise.\<close>

definition given :: "'a option \<Rightarrow> 'a \<Rightarrow> 'a" where
  "given v def = (case v of Some x \<Rightarrow> x | None \<Rightarrow> def)"

subsection \<open>Scopes and control groups\<close>

definition Scopes :: "string \<Rightarrow> u16 option" where
  "Scopes = map_of [(''link'', 0xFF02), (''site'', 0xFF05), (''org'', 0xFF08), (''global'', 0xFF0E)]"

definition ControlGroupASMOnly :: string where "ControlGroupASMOnly = ''asm-only''"
definition ControlGroupBoth :: string where "ControlGroupBoth = ''both''"
definition ControlGroupDerived :: string where "ControlGroupDerived = ''derived''"

definition ControlGroupPrefixes :: "cfg_lib \<Rightarrow> string \<Rightarrow> string \<Rightarrow> string \<Rightarrow> string + u16 list" where
  "ControlGroupPrefixes L cgMode sourceMode scopeName =
     (case Scopes scopeName of
        None \<Rightarrow> Inl ''unknown scope''
      | Some asm \<Rightarrow>
          if cgMode = ControlGroupASMOnly then Inr [asm]
          else if cgMode \<noteq> ControlGroupBoth \<and> cgMode \<noteq> ControlGroupDerived then Inl ''invalid -control-group-compat''
          else
            let finish = (\<lambda>derived. if cgMode = ControlGroupDerived \<or> derived = asm then Inr [derived] else Inr [asm, derived])
            in if ToLower sourceMode = ''ssm'' then
                 (case cl_ParseScope L scopeName of
                    None \<Rightarrow> if cgMode = ControlGroupDerived then Inl ''derived needs site or global scope'' else finish asm
                  | Some sc \<Rightarrow>
                      (case cl_PrefixSSM L sc of None \<Rightarrow> Inl ''prefix'' | Some p \<Rightarrow> finish p))
               else finish asm)"

definition parseGroupID :: "string \<Rightarrow> string + u16" where
  "parseGroupID s0 =
     (let s = TrimSpace s0
      in if s = [] then Inl ''empty value''
         else
           let (s', base) = (if take 2 (ToLower s) = ''0x'' then (drop 2 s, 16)
                             else if ParseUint s 10 16 = None then (s, 16) else (s, 10 :: nat))
           in case ParseUint s' base 16 of
                None \<Rightarrow> Inl ''not a number''
              | Some n \<Rightarrow> Inr (of_nat n))"
subsection \<open>The configuration\<close>

record Config =
  cf_ListenAddr :: string
  cf_UDPListenPort :: int
  cf_TCPListenPort :: int
  cf_SubtreeListenPort :: int
  cf_BlockListenPort :: int
  cf_BEEFListenPort :: int
  cf_BEEFShardBits :: nat
  cf_BEEFMaxObjectBytes :: int
  cf_EgressIfaces :: "string list"
  cf_EgressPort :: int
  cf_EgressHopLimit :: int
  cf_EgressLoop :: bool
  cf_RequireBlockPoW :: bool
  cf_MinPoWBits :: u32
  cf_RequireEF :: bool
  cf_AllowStampedIngress :: bool
  cf_VerifySubtreeRoot :: bool
  cf_VerifyPayloadHash :: bool
  cf_ShardBits :: nat
  cf_NumGroups :: u32
  cf_MCScope :: string
  cf_MCPrefix :: u16
  cf_MCGroupID :: u16
  cf_SourceMode :: string
  cf_BindSource :: string
  cf_StampSource :: bool
  cf_NumWorkers :: int
  cf_Debug :: bool
  cf_DrainTimeout :: int
  cf_FragMTU :: int
  cf_Coalesce :: bool
  cf_CoalesceMaxBytes :: int
  cf_CoalesceMaxMembers :: int
  cf_CoalesceCarryTxid :: bool
  cf_RecvBatch :: int
  cf_RetryTee :: string
  cf_RecvBufBytes :: int
  cf_PprofEnabled :: bool
  cf_MetricsAddr :: string
  cf_InstanceID :: string
  cf_OTLPEndpoint :: string
  cf_OTLPInterval :: int
  cf_LogFormat :: string
  cf_LogLevel :: string
  cf_TraceSampling :: rat
  cf_TxidDedupEnabled :: bool
  cf_TxidDedupBackend :: string
  cf_TxidDedupRedisAddr :: string
  cf_TxidDedupAeroHosts :: "string list"
  cf_TxidDedupAeroNamespace :: string
  cf_TxidDedupAeroSet :: string
  cf_TxidDedupPrefix :: string
  cf_TxidDedupTTL :: int
  cf_TxidDedupLocalCap :: int
  cf_AutoConfigEnabled :: bool
  cf_AutoConfigBootstrap :: string
  cf_AutoConfigPilotQuorum :: int
  cf_AutoConfigHysteresis :: int
  cf_AutoConfigBeaconScope :: string
  cf_ControlGroupCompat :: string
  cf_AutoConfigBeaconPort :: int
  cf_AutoConfigLiveResharding :: bool
  cf_AutoConfigBridgingWindow :: int

text \<open>The flags whose values \<^verbatim>\<open>Load\<close> keeps in locals.\<close>

record raw_flags =
  rf_beefBits :: nat
  rf_minPoWBits :: string
  rf_iface :: string
  rf_groupID :: string
  rf_aeroHosts :: string
  rf_otlpInterval :: int
  rf_bits :: nat

text \<open>\<^verbatim>\<open>uint(n)\<close> of a 64-bit \<^verbatim>\<open>int\<close>.\<close>

definition toUint :: "int \<Rightarrow> nat" where
  "toUint n = nat (n mod 2 ^ 64)"

definition rawFlags :: "cfg_lib \<Rightarrow> environ \<Rightarrow> cmdline \<Rightarrow> raw_flags" where
  "rawFlags L env fl =
     \<lparr>rf_beefBits = given (fl_uint fl ''beef-shard-bits'') (toUint (envInt env ''BEEF_SHARD_BITS'' 0)),
      rf_minPoWBits = given (fl_str fl ''min-pow-bits'') (envStr env ''MIN_POW_BITS'' ''0''),
      rf_iface = given (fl_str fl ''iface'') (envStr env ''MULTICAST_IF'' ''eth0''),
      rf_groupID = given (fl_str fl ''mc-group-id'') (envStr env ''MC_GROUP_ID'' ''0x000B''),
      rf_aeroHosts = given (fl_str fl ''txid-dedup-aerospike-hosts'') (envStr env ''TXID_DEDUP_AEROSPIKE_HOSTS'' []),
      rf_otlpInterval = given (fl_dur fl ''otlp-interval'') (envDuration L env ''OTLP_INTERVAL'' (30 * 10 ^ 9)),
      rf_bits = given (fl_uint fl ''shard-bits'') (toUint (envInt env ''SHARD_BITS'' 2))\<rparr>"

definition flagConfig :: "cfg_lib \<Rightarrow> environ \<Rightarrow> cmdline \<Rightarrow> Config" where
  "flagConfig L env fl =
     \<lparr>cf_ListenAddr = given (fl_str fl ''listen'') (envStr env ''LISTEN_ADDR'' ''[::]''),
      cf_UDPListenPort = given (fl_int fl ''udp-listen-port'') (envInt env ''UDP_LISTEN_PORT'' 8725),
      cf_TCPListenPort = given (fl_int fl ''tcp-listen-port'') (envInt env ''TCP_LISTEN_PORT'' 0),
      cf_SubtreeListenPort = given (fl_int fl ''subtree-listen-port'') (envInt env ''SUBTREE_LISTEN_PORT'' 0),
      cf_BlockListenPort = given (fl_int fl ''block-listen-port'') (envInt env ''BLOCK_LISTEN_PORT'' 0),
      cf_BEEFListenPort = given (fl_int fl ''beef-listen-port'') (envInt env ''BEEF_LISTEN_PORT'' 0),
      cf_BEEFShardBits = 0,
      cf_BEEFMaxObjectBytes = given (fl_int fl ''beef-max-object-bytes'') (envInt env ''BEEF_MAX_OBJECT_BYTES'' (2 ^ 20)),
      cf_EgressIfaces = [],
      cf_EgressPort = given (fl_int fl ''egress-port'') (envInt env ''EGRESS_PORT'' 9001),
      cf_EgressHopLimit = given (fl_int fl ''egress-hoplimit'') (envInt env ''EGRESS_HOPLIMIT'' 1),
      cf_EgressLoop = given (fl_bool fl ''egress-loop'') (envBool env ''EGRESS_MULTICAST_LOOP'' False),
      cf_RequireBlockPoW = given (fl_bool fl ''require-block-pow'') (envBool env ''REQUIRE_BLOCK_POW'' True),
      cf_MinPoWBits = 0,
      cf_RequireEF = given (fl_bool fl ''require-ef'') (envBool env ''REQUIRE_EF'' False),
      cf_AllowStampedIngress = given (fl_bool fl ''allow-stamped-ingress'') (envBool env ''ALLOW_STAMPED_INGRESS'' False),
      cf_VerifySubtreeRoot = given (fl_bool fl ''verify-subtree-root'') (envBool env ''VERIFY_SUBTREE_ROOT'' True),
      cf_VerifyPayloadHash = given (fl_bool fl ''verify-payload-hash'') (envBool env ''VERIFY_PAYLOAD_HASH'' False),
      cf_ShardBits = 0, cf_NumGroups = 0,
      cf_MCScope = given (fl_str fl ''scope'') (envStr env ''MC_SCOPE'' ''site''),
      cf_MCPrefix = 0, cf_MCGroupID = 0,
      cf_SourceMode = given (fl_str fl ''source-mode'') (envStr env ''SOURCE_MODE'' ''asm''),
      cf_BindSource = given (fl_str fl ''bind-source'') (envStr env ''BIND_SOURCE'' []),
      cf_StampSource = given (fl_bool fl ''stamp-source'') (envBool env ''STAMP_SOURCE'' True),
      cf_NumWorkers = given (fl_int fl ''workers'') (envInt env ''NUM_WORKERS'' (cl_NumCPU L)),
      cf_Debug = given (fl_bool fl ''debug'') (envBool env ''DEBUG'' False),
      cf_DrainTimeout = given (fl_dur fl ''drain-timeout'') (envDuration L env ''DRAIN_TIMEOUT'' 0),
      cf_FragMTU = given (fl_int fl ''frag-mtu'') (envInt env ''FRAG_MTU'' 1500),
      cf_Coalesce = given (fl_bool fl ''coalesce'') (envBool env ''COALESCE'' False),
      cf_CoalesceMaxBytes = given (fl_int fl ''coalesce-max-bytes'') (envInt env ''COALESCE_MAX_BYTES'' 1500),
      cf_CoalesceMaxMembers = given (fl_int fl ''coalesce-max-members'') (envInt env ''COALESCE_MAX_MEMBERS'' 0),
      cf_CoalesceCarryTxid = given (fl_bool fl ''coalesce-carry-txid'') (envBool env ''COALESCE_CARRY_TXID'' False),
      cf_RecvBatch = given (fl_int fl ''recv-batch'') (envInt env ''BSP_RECV_BATCH'' 32),
      cf_RetryTee = given (fl_str fl ''retry-tee'') (envStr env ''BSP_RETRY_TEE'' []),
      cf_RecvBufBytes = given (fl_int fl ''recv-buf-bytes'') (envInt env ''BSP_RECV_BUF_BYTES'' 0),
      cf_PprofEnabled = given (fl_bool fl ''pprof'') (envBool env ''BSP_PPROF'' False),
      cf_MetricsAddr = given (fl_str fl ''metrics-addr'') (envStr env ''METRICS_ADDR'' '':9100''),
      cf_InstanceID = given (fl_str fl ''instance'') (envStr env ''INSTANCE_ID'' []),
      cf_OTLPEndpoint = given (fl_str fl ''otlp-endpoint'') (envStr env ''OTLP_ENDPOINT'' []),
      cf_OTLPInterval = 0,
      cf_LogFormat = given (fl_str fl ''log-format'') (envStr env ''LOG_FORMAT'' ''text''),
      cf_LogLevel = given (fl_str fl ''log-level'') (envStr env ''LOG_LEVEL'' ''info''),
      cf_TraceSampling = given (fl_float fl ''trace-sampling'') (envFloat L env ''TRACE_SAMPLING'' 0),
      cf_TxidDedupEnabled = given (fl_bool fl ''ingress-dedup'') (envBool env ''INGRESS_DEDUP'' True),
      cf_TxidDedupBackend = given (fl_str fl ''txid-dedup-backend'') (envStr env ''TXID_DEDUP_BACKEND'' []),
      cf_TxidDedupRedisAddr = given (fl_str fl ''txid-dedup-redis-addr'') (envStr env ''TXID_DEDUP_REDIS_ADDR'' []),
      cf_TxidDedupAeroHosts = [],
      cf_TxidDedupAeroNamespace = given (fl_str fl ''txid-dedup-aerospike-namespace'') (envStr env ''TXID_DEDUP_AEROSPIKE_NAMESPACE'' ''cache''),
      cf_TxidDedupAeroSet = given (fl_str fl ''txid-dedup-aerospike-set'') (envStr env ''TXID_DEDUP_AEROSPIKE_SET'' ''bsp''),
      cf_TxidDedupPrefix = given (fl_str fl ''txid-dedup-prefix'') (envStr env ''TXID_DEDUP_PREFIX'' ''bsp:tx:''),
      cf_TxidDedupTTL = given (fl_dur fl ''txid-dedup-ttl'') (envDuration L env ''TXID_DEDUP_TTL'' (10 * 60 * 10 ^ 9)),
      cf_TxidDedupLocalCap = given (fl_int fl ''txid-dedup-local-cap'') (envInt env ''TXID_DEDUP_LOCAL_CAP'' (2 ^ 20)),
      cf_AutoConfigEnabled = given (fl_bool fl ''manifest-consumer-enabled'') (envBool env ''MANIFEST_CONSUMER_ENABLED'' False),
      cf_AutoConfigBootstrap = given (fl_str fl ''manifest-bootstrap'') (envStr env ''MANIFEST_BOOTSTRAP'' ''optional''),
      cf_AutoConfigPilotQuorum = given (fl_int fl ''pilot-quorum'') (envInt env ''PILOT_QUORUM'' 2),
      cf_AutoConfigHysteresis = given (fl_dur fl ''pilot-hysteresis'') (envDuration L env ''PILOT_HYSTERESIS'' 0),
      cf_AutoConfigBeaconScope = given (fl_str fl ''manifest-beacon-scope'') (envStr env ''MANIFEST_BEACON_SCOPE'' []),
      cf_ControlGroupCompat = given (fl_str fl ''control-group-compat'') (envStr env ''CONTROL_GROUP_COMPAT'' ControlGroupBoth),
      cf_AutoConfigBeaconPort = given (fl_int fl ''manifest-beacon-port'') (envInt env ''MANIFEST_BEACON_PORT'' 9001),
      cf_AutoConfigLiveResharding = given (fl_bool fl ''live-resharding'') (envBool env ''LIVE_RESHARDING'' False),
      cf_AutoConfigBridgingWindow = given (fl_dur fl ''bridging-window'') (envDuration L env ''BRIDGING_WINDOW'' 0)\<rparr>"

subsection \<open>Validation\<close>

text \<open>The checks of \<^verbatim>\<open>Load\<close> in their order; each may fail and may set fields.\<close>

definition checkShardBits :: "nat \<Rightarrow> int \<Rightarrow> Config \<Rightarrow> string + Config" where
  "checkShardBits bits otlp c =
     (if bits < 1 \<or> bits > 12 then Inl ''shard-bits must be in [1, 12]''
      else Inr (c\<lparr>cf_ShardBits := bits, cf_NumGroups := push_bit bits 1, cf_OTLPInterval := otlp\<rparr>))"

definition checkBEEFBits :: "nat \<Rightarrow> Config \<Rightarrow> string + Config" where
  "checkBEEFBits bits c =
     (if bits > 12 then Inl ''beef-shard-bits must be in [0, 12]''
      else if cf_BEEFMaxObjectBytes c < 1 then Inl ''beef-max-object-bytes must be positive''
      else Inr (c\<lparr>cf_BEEFShardBits := bits\<rparr>))"

fun portLoop :: "int list \<Rightarrow> int list \<Rightarrow> bool" where
  "portLoop seen [] = True"
| "portLoop seen (p # ps) =
     (if p = 0 then portLoop seen ps
      else if p \<in> set seen then False
      else portLoop (p # seen) ps)"

definition tcpPorts :: "Config \<Rightarrow> int list" where
  "tcpPorts c = [cf_TCPListenPort c, cf_SubtreeListenPort c, cf_BlockListenPort c, cf_BEEFListenPort c]"

definition checkPorts :: "Config \<Rightarrow> string + Config" where
  "checkPorts c = (if portLoop [] (tcpPorts c) then Inr c else Inl ''port collides'')"

definition checkMinPoW :: "string \<Rightarrow> Config \<Rightarrow> string + Config" where
  "checkMinPoW v c =
     (let s = TrimSpace v;
          (s', base) = (if take 2 (ToLower s) = ''0x'' then (drop 2 s, 16) else (s, 10))
      in case ParseUint s' base 32 of
           None \<Rightarrow> Inl ''invalid -min-pow-bits''
         | Some n \<Rightarrow> Inr (c\<lparr>cf_MinPoWBits := of_nat n\<rparr>))"

definition checkSource :: "cfg_lib \<Rightarrow> Config \<Rightarrow> string + Config" where
  "checkSource L c =
     (if ToLower (cf_SourceMode c) = ''asm'' then
        (case Scopes (cf_MCScope c) of
           None \<Rightarrow> Inl ''unknown scope''
         | Some p \<Rightarrow> Inr (c\<lparr>cf_SourceMode := ''asm'', cf_MCPrefix := p\<rparr>))
      else if ToLower (cf_SourceMode c) = ''ssm'' then
        (case cl_ParseScope L (cf_MCScope c) of
           None \<Rightarrow> Inl ''source-mode=ssm requires -scope site|global''
         | Some sc \<Rightarrow>
             (case cl_PrefixSSM L sc of
                None \<Rightarrow> Inl ''prefix''
              | Some p \<Rightarrow>
                  if cf_BindSource c = [] then Inl ''source-mode=ssm requires -bind-source''
                  else
                    let ip = cl_ParseIP L (cf_BindSource c)
                    in if ip = [] \<or> To4 ip \<noteq> [] then Inl ''invalid -bind-source''
                       else Inr (c\<lparr>cf_SourceMode := ''ssm'', cf_MCPrefix := p\<rparr>)))
      else Inl ''invalid source-mode'')"

definition checkGroupID :: "string \<Rightarrow> Config \<Rightarrow> string + Config" where
  "checkGroupID v c = (case parseGroupID v of Inl e \<Rightarrow> Inl ''invalid -mc-group-id'' | Inr gid \<Rightarrow> Inr (c\<lparr>cf_MCGroupID := gid\<rparr>))"

definition clampWorkers :: "cfg_lib \<Rightarrow> Config \<Rightarrow> string + Config" where
  "clampWorkers L c =
     Inr (c\<lparr>cf_NumWorkers := (if cf_NumWorkers c \<le> 0 then cl_NumCPU L else cf_NumWorkers c),
            cf_RecvBatch := (if cf_RecvBatch c < 1 then 1 else cf_RecvBatch c)\<rparr>)"

definition ifaceNames :: "string \<Rightarrow> string list" where
  "ifaceNames s = filter (\<lambda>n. n \<noteq> []) (map TrimSpace (splitComma s))"

definition checkIfaces :: "cfg_lib \<Rightarrow> string \<Rightarrow> Config \<Rightarrow> string + Config" where
  "checkIfaces L v c =
     (if \<exists>n \<in> set (ifaceNames v). \<not> cl_InterfaceByName L n then Inl ''multicast interface not found''
      else if cf_EgressIfaces c @ ifaceNames v = [] then Inl ''at least one egress interface must be specified via -iface''
      else Inr (c\<lparr>cf_EgressIfaces := cf_EgressIfaces c @ ifaceNames v\<rparr>))"

definition checkDedup :: "string \<Rightarrow> Config \<Rightarrow> string + Config" where
  "checkDedup hosts c0 =
     (let c = c0\<lparr>cf_TxidDedupAeroHosts := cf_TxidDedupAeroHosts c0 @ ifaceNames hosts,
                 cf_TxidDedupBackend :=
                   (if cf_TxidDedupBackend c0 \<noteq> [] then cf_TxidDedupBackend c0
                    else if cf_TxidDedupRedisAddr c0 \<noteq> [] then ''redis'' else ''none'')\<rparr>
      in if cf_TxidDedupLocalCap c > 0 then
           (if cf_TxidDedupTTL c \<le> 0 then Inl ''txid-dedup-ttl must be > 0 when dedup is enabled''
            else if cf_TxidDedupPrefix c = [] then Inl ''txid-dedup-prefix must not be empty when dedup is enabled''
            else if cf_TxidDedupBackend c \<notin> {''redis'', ''aerospike'', ''memory'', ''none''} then Inl ''txid-dedup-backend unknown''
            else if cf_TxidDedupBackend c = ''redis'' \<and> cf_TxidDedupRedisAddr c = [] then Inl ''txid-dedup-redis-addr required''
            else if cf_TxidDedupBackend c = ''aerospike'' \<and> cf_TxidDedupAeroHosts c = [] then Inl ''txid-dedup-aerospike-hosts required''
            else Inr c)
         else Inr c)"

definition checkAutoConfig :: "Config \<Rightarrow> string + Config" where
  "checkAutoConfig c =
     (if cf_AutoConfigBootstrap c \<notin> {''optional'', ''required''} then Inl ''manifest-bootstrap unknown''
      else if cf_AutoConfigPilotQuorum c < 1 then Inl ''pilot-quorum must be >= 1''
      else
        let c1 = c\<lparr>cf_AutoConfigBeaconScope :=
                     (if cf_AutoConfigBeaconScope c = [] then cf_MCScope c else cf_AutoConfigBeaconScope c)\<rparr>
        in if Scopes (cf_AutoConfigBeaconScope c1) = None then Inl ''manifest-beacon-scope unknown'' else Inr c1)"

definition andThen :: "'e + 'a \<Rightarrow> ('a \<Rightarrow> 'e + 'b) \<Rightarrow> 'e + 'b" where
  "andThen r f = (case r of Inl e \<Rightarrow> Inl e | Inr a \<Rightarrow> f a)"

definition Load :: "cfg_lib \<Rightarrow> environ \<Rightarrow> cmdline \<Rightarrow> string + Config" where
  "Load L env fl =
     (let rf = rawFlags L env fl
      in foldl andThen (Inr (flagConfig L env fl))
           [checkShardBits (rf_bits rf) (rf_otlpInterval rf), checkBEEFBits (rf_beefBits rf), checkPorts,
            checkMinPoW (rf_minPoWBits rf), checkSource L, checkGroupID (rf_groupID rf), clampWorkers L,
            checkIfaces L (rf_iface rf), checkDedup (rf_aeroHosts rf), checkAutoConfig])"

definition ManifestBeaconGroupPrefixes :: "cfg_lib \<Rightarrow> Config \<Rightarrow> string + u16 list" where
  "ManifestBeaconGroupPrefixes L c =
     ControlGroupPrefixes L (cf_ControlGroupCompat c) (cf_SourceMode c) (cf_AutoConfigBeaconScope c)"

subsection \<open>What a loaded configuration satisfies\<close>

definition source_ok :: "cfg_lib \<Rightarrow> Config \<Rightarrow> bool" where
  "source_ok L c \<longleftrightarrow>
     cf_SourceMode c = ''asm'' \<and> Scopes (cf_MCScope c) = Some (cf_MCPrefix c) \<or>
     cf_SourceMode c = ''ssm'' \<and> cl_ParseIP L (cf_BindSource c) \<noteq> [] \<and> To4 (cl_ParseIP L (cf_BindSource c)) = [] \<and>
       (\<exists>sc. cl_ParseScope L (cf_MCScope c) = Some sc \<and> cl_PrefixSSM L sc = Some (cf_MCPrefix c))"

definition dedup_ok :: "Config \<Rightarrow> bool" where
  "dedup_ok c \<longleftrightarrow>
     (0 < cf_TxidDedupLocalCap c \<longrightarrow>
        0 < cf_TxidDedupTTL c \<and> cf_TxidDedupPrefix c \<noteq> [] \<and>
        cf_TxidDedupBackend c \<in> {''redis'', ''aerospike'', ''memory'', ''none''} \<and>
        (cf_TxidDedupBackend c = ''redis'' \<longrightarrow> cf_TxidDedupRedisAddr c \<noteq> []) \<and>
        (cf_TxidDedupBackend c = ''aerospike'' \<longrightarrow> cf_TxidDedupAeroHosts c \<noteq> []))"

definition valid_config :: "cfg_lib \<Rightarrow> Config \<Rightarrow> bool" where
  "valid_config L c \<longleftrightarrow>
     1 \<le> cf_ShardBits c \<and> cf_ShardBits c \<le> 12 \<and> unat (cf_NumGroups c) = 2 ^ cf_ShardBits c \<and>
     cf_BEEFShardBits c \<le> 12 \<and> 1 \<le> cf_BEEFMaxObjectBytes c \<and>
     distinct (filter (\<lambda>p. p \<noteq> 0) (tcpPorts c)) \<and> source_ok L c \<and>
     1 \<le> cf_NumWorkers c \<and> 1 \<le> cf_RecvBatch c \<and>
     cf_EgressIfaces c \<noteq> [] \<and> (\<forall>n \<in> set (cf_EgressIfaces c). n \<noteq> [] \<and> cl_InterfaceByName L n) \<and>
     dedup_ok c \<and> cf_AutoConfigBootstrap c \<in> {''optional'', ''required''} \<and> 1 \<le> cf_AutoConfigPilotQuorum c \<and>
     Scopes (cf_AutoConfigBeaconScope c) \<noteq> None"

lemma andThen_Inr: "andThen r f = Inr b \<longleftrightarrow> (\<exists>a. r = Inr a \<and> f a = Inr b)"
  by (cases r) (auto simp: andThen_def)

lemma portLoop_distinct: "portLoop seen ps \<longleftrightarrow> distinct (filter (\<lambda>p. p \<noteq> 0) ps) \<and> set (filter (\<lambda>p. p \<noteq> 0) ps) \<inter> set seen = {}"
  by (induction seen ps rule: portLoop.induct) auto

lemma groups_of_bits: "bits \<le> 12 \<Longrightarrow> unat (push_bit bits 1 :: u32) = 2 ^ bits"
proof -
  assume "bits \<le> 12"
  then have "(2 :: nat) ^ bits \<le> 2 ^ 12" by (intro power_increasing) auto
  moreover have "(push_bit bits 1 :: u32) = of_nat (2 ^ bits)" by simp
  ultimately show ?thesis by (simp add: unat_of_nat take_bit_nat_eq_self_iff del: of_nat_power)
qed

lemma checks:
  "checkShardBits bits otlp c = Inr c' \<Longrightarrow>
     c' = c\<lparr>cf_ShardBits := bits, cf_NumGroups := push_bit bits 1, cf_OTLPInterval := otlp\<rparr> \<and> 1 \<le> bits \<and> bits \<le> 12"
  "checkBEEFBits bb c = Inr c' \<Longrightarrow> c' = c\<lparr>cf_BEEFShardBits := bb\<rparr> \<and> bb \<le> 12 \<and> 1 \<le> cf_BEEFMaxObjectBytes c"
  "checkPorts c = Inr c' \<Longrightarrow> c' = c \<and> distinct (filter (\<lambda>p. p \<noteq> 0) (tcpPorts c))"
  "checkMinPoW v c = Inr c' \<Longrightarrow> \<exists>n. c' = c\<lparr>cf_MinPoWBits := n\<rparr>"
  "checkSource L c = Inr c' \<Longrightarrow> source_ok L c' \<and> (\<exists>m p. c' = c\<lparr>cf_SourceMode := m, cf_MCPrefix := p\<rparr>)"
  "checkGroupID v c = Inr c' \<Longrightarrow> \<exists>g. c' = c\<lparr>cf_MCGroupID := g\<rparr>"
  by (auto simp: checkShardBits_def checkBEEFBits_def checkPorts_def portLoop_distinct checkMinPoW_def checkSource_def
      source_ok_def checkGroupID_def Let_def split: if_splits option.splits sum.splits prod.splits)

lemma checks2:
  "clampWorkers L c = Inr c' \<Longrightarrow> 1 \<le> cl_NumCPU L \<Longrightarrow>
     (\<exists>w b. c' = c\<lparr>cf_NumWorkers := w, cf_RecvBatch := b\<rparr> \<and> 1 \<le> w \<and> 1 \<le> b)"
  "checkIfaces L v c = Inr c' \<Longrightarrow> cf_EgressIfaces c = [] \<Longrightarrow>
     (\<exists>ns. c' = c\<lparr>cf_EgressIfaces := ns\<rparr> \<and> ns \<noteq> [] \<and> (\<forall>n \<in> set ns. n \<noteq> [] \<and> cl_InterfaceByName L n))"
  "checkDedup hosts c = Inr c' \<Longrightarrow>
     dedup_ok c' \<and> (\<exists>hs b. c' = c\<lparr>cf_TxidDedupAeroHosts := hs, cf_TxidDedupBackend := b\<rparr>)"
  "checkAutoConfig c = Inr c' \<Longrightarrow>
     (\<exists>s. c' = c\<lparr>cf_AutoConfigBeaconScope := s\<rparr> \<and> Scopes s \<noteq> None) \<and>
     cf_AutoConfigBootstrap c \<in> {''optional'', ''required''} \<and> 1 \<le> cf_AutoConfigPilotQuorum c"
proof -
  show "clampWorkers L c = Inr c' \<Longrightarrow> 1 \<le> cl_NumCPU L \<Longrightarrow>
     (\<exists>w b. c' = c\<lparr>cf_NumWorkers := w, cf_RecvBatch := b\<rparr> \<and> 1 \<le> w \<and> 1 \<le> b)"
    by (rule exI [of _ "if cf_NumWorkers c \<le> 0 then cl_NumCPU L else cf_NumWorkers c"],
        rule exI [of _ "if cf_RecvBatch c < 1 then 1 else cf_RecvBatch c"]) (auto simp: clampWorkers_def)
  show "checkIfaces L v c = Inr c' \<Longrightarrow> cf_EgressIfaces c = [] \<Longrightarrow>
     (\<exists>ns. c' = c\<lparr>cf_EgressIfaces := ns\<rparr> \<and> ns \<noteq> [] \<and> (\<forall>n \<in> set ns. n \<noteq> [] \<and> cl_InterfaceByName L n))"
    by (rule exI [of _ "ifaceNames v"]) (auto simp: checkIfaces_def ifaceNames_def split: if_splits)
  show "checkDedup hosts c = Inr c' \<Longrightarrow>
     dedup_ok c' \<and> (\<exists>hs b. c' = c\<lparr>cf_TxidDedupAeroHosts := hs, cf_TxidDedupBackend := b\<rparr>)"
  proof -
    assume r: "checkDedup hosts c = Inr c'"
    define hs where "hs = cf_TxidDedupAeroHosts c @ ifaceNames hosts"
    define b where "b = (if cf_TxidDedupBackend c \<noteq> [] then cf_TxidDedupBackend c
                    else if cf_TxidDedupRedisAddr c \<noteq> [] then ''redis'' else ''none'')"
    define d where "d = c\<lparr>cf_TxidDedupAeroHosts := hs, cf_TxidDedupBackend := b\<rparr>"
    have "dedup_ok c' \<and> c' = d"
      using r unfolding checkDedup_def Let_def dedup_ok_def hs_def [symmetric] b_def [symmetric] d_def [symmetric]
      by (simp split: if_split_asm)
    then show ?thesis unfolding d_def by blast
  qed
  show "checkAutoConfig c = Inr c' \<Longrightarrow>
     (\<exists>s. c' = c\<lparr>cf_AutoConfigBeaconScope := s\<rparr> \<and> Scopes s \<noteq> None) \<and>
     cf_AutoConfigBootstrap c \<in> {''optional'', ''required''} \<and> 1 \<le> cf_AutoConfigPilotQuorum c"
  proof -
    assume r: "checkAutoConfig c = Inr c'"
    define s where "s = (if cf_AutoConfigBeaconScope c = [] then cf_MCScope c else cf_AutoConfigBeaconScope c)"
    have "c' = c\<lparr>cf_AutoConfigBeaconScope := s\<rparr> \<and> Scopes s \<noteq> None \<and>
        cf_AutoConfigBootstrap c \<in> {''optional'', ''required''} \<and> 1 \<le> cf_AutoConfigPilotQuorum c"
      using r unfolding checkAutoConfig_def Let_def s_def [symmetric] by (simp split: if_split_asm)
    then show ?thesis by blast
  qed
qed


lemma Load_stages:
  assumes "Load L env fl = Inr c" "1 \<le> cl_NumCPU L"
  shows "valid_config L c"
proof -
  let ?rf = "rawFlags L env fl" and ?c0 = "flagConfig L env fl"
  obtain c1 c2 c3 c4 c5 c6 c7 c8 c9 where st:
    "checkShardBits (rf_bits ?rf) (rf_otlpInterval ?rf) ?c0 = Inr c1" "checkBEEFBits (rf_beefBits ?rf) c1 = Inr c2"
    "checkPorts c2 = Inr c3" "checkMinPoW (rf_minPoWBits ?rf) c3 = Inr c4" "checkSource L c4 = Inr c5"
    "checkGroupID (rf_groupID ?rf) c5 = Inr c6" "clampWorkers L c6 = Inr c7" "checkIfaces L (rf_iface ?rf) c7 = Inr c8"
    "checkDedup (rf_aeroHosts ?rf) c8 = Inr c9" "checkAutoConfig c9 = Inr c"
    using assms(1) unfolding Load_def Let_def foldl.simps by (auto simp: andThen_Inr)
  have i0: "cf_EgressIfaces ?c0 = []" by (simp add: flagConfig_def)
  have s1: "c1 = ?c0\<lparr>cf_ShardBits := rf_bits ?rf, cf_NumGroups := push_bit (rf_bits ?rf) 1, cf_OTLPInterval := rf_otlpInterval ?rf\<rparr>"
    "1 \<le> rf_bits ?rf" "rf_bits ?rf \<le> 12" using checks(1) [OF st(1)] by auto
  have s2: "c2 = c1\<lparr>cf_BEEFShardBits := rf_beefBits ?rf\<rparr>" "rf_beefBits ?rf \<le> 12" "1 \<le> cf_BEEFMaxObjectBytes c1"
    using checks(2) [OF st(2)] by auto
  have s3: "c3 = c2" "distinct (filter (\<lambda>p. p \<noteq> 0) (tcpPorts c2))" using checks(3) [OF st(3)] by auto
  obtain n where s4: "c4 = c3\<lparr>cf_MinPoWBits := n\<rparr>" using checks(4) [OF st(4)] by blast
  obtain m p where s5: "c5 = c4\<lparr>cf_SourceMode := m, cf_MCPrefix := p\<rparr>" "source_ok L c5" using checks(5) [OF st(5)] by blast
  obtain g where s6: "c6 = c5\<lparr>cf_MCGroupID := g\<rparr>" using checks(6) [OF st(6)] by blast
  obtain w b where s7: "c7 = c6\<lparr>cf_NumWorkers := w, cf_RecvBatch := b\<rparr>" "1 \<le> w" "1 \<le> b"
    using checks2(1) [OF st(7) assms(2)] by blast
  have i7: "cf_EgressIfaces c7 = []" using i0 s1 s2 s3 s4 s5 s6 s7 by simp
  obtain ns where s8: "c8 = c7\<lparr>cf_EgressIfaces := ns\<rparr>" "ns \<noteq> []" "\<forall>n \<in> set ns. n \<noteq> [] \<and> cl_InterfaceByName L n"
    using checks2(2) [OF st(8) i7] by blast
  obtain hs bk where s9: "c9 = c8\<lparr>cf_TxidDedupAeroHosts := hs, cf_TxidDedupBackend := bk\<rparr>" "dedup_ok c9"
    using checks2(3) [OF st(9)] by blast
  obtain sc where s10: "c = c9\<lparr>cf_AutoConfigBeaconScope := sc\<rparr>" "Scopes sc \<noteq> None"
    "cf_AutoConfigBootstrap c9 \<in> {''optional'', ''required''}" "1 \<le> cf_AutoConfigPilotQuorum c9"
    using checks2(4) [OF st(10)] by blast
  have "source_ok L c" using s5(2) by (simp add: s10(1) s9(1) s8(1) s7(1) s6 source_ok_def)
  moreover have "dedup_ok c" using s9(2) by (simp add: s10(1) dedup_ok_def)
  moreover have "tcpPorts c = tcpPorts c2" by (simp add: s10(1) s9(1) s8(1) s7(1) s6 s5(1) s4 s3(1) tcpPorts_def)
  moreover have "cf_ShardBits c = rf_bits ?rf" "cf_NumGroups c = push_bit (rf_bits ?rf) 1" "cf_BEEFShardBits c = rf_beefBits ?rf"
    "cf_BEEFMaxObjectBytes c = cf_BEEFMaxObjectBytes c1" "cf_NumWorkers c = w" "cf_RecvBatch c = b" "cf_EgressIfaces c = ns"
    "cf_AutoConfigBeaconScope c = sc" "cf_AutoConfigBootstrap c = cf_AutoConfigBootstrap c9"
    "cf_AutoConfigPilotQuorum c = cf_AutoConfigPilotQuorum c9"
    by (simp_all add: s10(1) s9(1) s8(1) s7(1) s6 s5(1) s4 s3(1) s2(1) s1(1))
  ultimately show ?thesis unfolding valid_config_def
    using s1(2,3) groups_of_bits [OF s1(3)] s2(2,3) s3(2) s7(2,3) s8(2,3) s10(2-4) by simp
qed

lemma Scopes_Some: "Scopes s = Some p \<Longrightarrow> p \<in> {0xFF02, 0xFF05, 0xFF08, 0xFF0E}"
  by (auto simp: Scopes_def split: if_splits)

subsection \<open>Numbers round trip\<close>

text \<open>The digits of a number in a base up to 16, in lower case.\<close>

definition digitChar :: "nat \<Rightarrow> char" where
  "digitChar d = char_of (if d < 10 then d + 48 else d + 87)"

fun digits :: "nat \<Rightarrow> nat \<Rightarrow> nat \<Rightarrow> string" where
  "digits base 0 n = []"
| "digits base (Suc k) n = digits base k (n div base) @ [digitChar (n mod base)]"

lemma digitVal_digitChar: "d < 16 \<Longrightarrow> digitVal (digitChar d) = Some d"
  by (cases "d < 10") (simp_all add: digitVal_def digitChar_def lowerChar_def Let_def of_char_of)

lemma parse_digits:
  assumes "1 < base" "base \<le> 16"
  shows "n < base ^ k \<Longrightarrow> fold_opt (parseDigit base) (digits base k n) 0 = Some n"
proof (induction k arbitrary: n)
  case (Suc k)
  have "n div base < base ^ k" using Suc.prems assms(1) by (simp add: less_mult_imp_div_less mult.commute)
  moreover have "n mod base < base" using assms(1) by simp
  ultimately show ?case using Suc.IH assms(2)
    by (simp add: fold_opt_append parseDigit_def digitVal_digitChar)
qed simp

lemma ParseUint_digits:
  "1 < base \<Longrightarrow> base \<le> 16 \<Longrightarrow> n < base ^ Suc k \<Longrightarrow> n < 2 ^ bits \<Longrightarrow> ParseUint (digits base (Suc k) n) base bits = Some n"
  using parse_digits [of base n "Suc k"] by (simp add: ParseUint_def)


lemma dropWhile_none: "\<forall>c \<in> set s. \<not> P c \<Longrightarrow> dropWhile P s = s"
  by (cases s) auto

lemma TrimSpace_none: "\<forall>c \<in> set s. \<not> isSpace c \<Longrightarrow> TrimSpace s = s"
  by (simp add: TrimSpace_def dropWhile_none)

lemma digitChar_plain: "d < 16 \<Longrightarrow> \<not> isSpace (digitChar d) \<and> lowerChar (digitChar d) \<noteq> CHR ''x''"
proof -
  assume d: "d < 16"
  then have "(of_char (digitChar d) :: nat) = (if d < 10 then d + 48 else d + 87)" by (simp add: digitChar_def of_char_of)
  moreover have "lowerChar (digitChar d) = digitChar d" using calculation d by (simp add: lowerChar_def Let_def split: if_splits)
  moreover have "(of_char (CHR ''x'') :: nat) = 120" by simp
  ultimately show ?thesis using d by (auto simp: isSpace_def split: if_splits)
qed

lemma digits_plain: "0 < base \<Longrightarrow> base \<le> 16 \<Longrightarrow> \<forall>c \<in> set (digits base k n). \<not> isSpace c \<and> lowerChar c \<noteq> CHR ''x''"
proof (induction k arbitrary: n)
  case (Suc k)
  have "n mod base < base" using Suc.prems by simp
  then have "n mod base < 16" using Suc.prems by linarith
  then show ?case using Suc digitChar_plain by auto
qed simp

lemma length_digits [simp]: "length (digits base k n) = k"
  by (induction k arbitrary: n) simp_all

lemma parseGroupID_hex: "parseGroupID (''0x'' @ digits 16 4 (unat n)) = Inr n"
proof -
  let ?d = "digits 16 4 (unat n)"
  have t: "TrimSpace (''0x'' @ ?d) = ''0x'' @ ?d"
    by (rule TrimSpace_none) (use digits_plain [of 16 4 "unat n"] in \<open>auto simp: isSpace_def\<close>)
  have u: "unat n < 65536" using unsigned_less [of n] by simp
  have p: "ParseUint ?d 16 16 = Some (unat n)" using ParseUint_digits [of 16 "unat n" 3 16] u by (simp del: digits.simps)
  have "take 2 (ToLower (''0x'' @ ?d)) = ''0x''" by (simp add: ToLower_def lowerChar_def Let_def)
  then show ?thesis using p unfolding parseGroupID_def t Let_def by simp
qed

lemma parseGroupID_dec: "parseGroupID (digits 10 5 (unat n)) = Inr n"
proof -
  let ?d = "digits 10 5 (unat n)"
  have t: "TrimSpace ?d = ?d" by (rule TrimSpace_none) (use digits_plain [of 10 5 "unat n"] in auto)
  have u: "unat n < 65536" using unsigned_less [of n] by simp
  have p: "ParseUint ?d 10 16 = Some (unat n)" using ParseUint_digits [of 10 "unat n" 4 16] u by (simp del: digits.simps)
  have ne: "?d \<noteq> []" by (metis length_digits list.size(3) numeral_eq_Suc nat.distinct(1))
  have "take 2 (ToLower ?d) \<noteq> ''0x''"
  proof
    assume h: "take 2 (ToLower ?d) = ''0x''"
    have "lowerChar (?d ! 1) = take 2 (ToLower ?d) ! 1" by (simp add: ToLower_def)
    also have "\<dots> = CHR ''x''" unfolding h by simp
    finally have "lowerChar (?d ! 1) = CHR ''x''" .
    moreover have "?d ! 1 \<in> set ?d" by (rule nth_mem) simp
    ultimately show False using digits_plain [of 10 5 "unat n"] by auto
  qed
  then show ?thesis using p ne unfolding parseGroupID_def t Let_def by simp
qed

subsection \<open>Properties\<close>

text \<open>C29.  What \<^verbatim>\<open>Load\<close> returns is a valid configuration.  Whatever the environment and the command line hold, either
  an error is reported or every field is in the range the rest of the program relies on: shard bits between 1
  and 12 with the number of groups they give, distinct TCP ports, an addressing prefix that is the one of the
  source mode and scope, at least one worker, one receive slot and one existing egress interface, a complete dedup
  backend, and a known beacon scope.\<close>

theorem Load_valid:
  assumes "1 \<le> cl_NumCPU L"
  shows "case Load L env fl of Inl e \<Rightarrow> True | Inr c \<Rightarrow> valid_config L c"
  using Load_stages [of L env fl] assms by (auto split: sum.split)

text \<open>C32.  The default of a receiver strands no sender.  At every known scope and in every source mode \<^verbatim>\<open>both\<close> gives
  a list of prefixes, and a sender with the same scope and mode, whatever its own compatibility setting, sends only to
  prefixes of that list.\<close>

theorem both_hears_all:
  assumes "Scopes scope = Some asm" "\<forall>sc. cl_ParseScope L scope = Some sc \<longrightarrow> cl_PrefixSSM L sc \<noteq> None"
  shows "\<exists>ps. ControlGroupPrefixes L ControlGroupBoth mode scope = Inr ps \<and>
     (\<forall>sender qs. ControlGroupPrefixes L sender mode scope = Inr qs \<longrightarrow> qs \<noteq> [] \<and> set qs \<subseteq> set ps)"
proof -
  define d where "d = (if ToLower mode = ''ssm'' then
      (case cl_ParseScope L scope of None \<Rightarrow> asm | Some sc \<Rightarrow> the (cl_PrefixSSM L sc)) else asm)"
  have n: "ControlGroupBoth \<noteq> ControlGroupASMOnly" "ControlGroupBoth \<noteq> ControlGroupDerived"
    by (simp_all add: ControlGroupBoth_def ControlGroupASMOnly_def ControlGroupDerived_def)
  have b: "ControlGroupPrefixes L ControlGroupBoth mode scope = Inr (if d = asm then [d] else [asm, d])"
    using assms n by (auto simp: ControlGroupPrefixes_def d_def Let_def split: option.splits)
  have "qs \<noteq> [] \<and> set qs \<subseteq> {asm, d}" if "ControlGroupPrefixes L sender mode scope = Inr qs" for sender qs
    using that assms by (auto simp: ControlGroupPrefixes_def d_def Let_def split: if_splits option.splits)
  moreover have "{asm, d} = set (if d = asm then [d] else [asm, d])" by auto
  ultimately show ?thesis using b by (intro exI conjI) (assumption, blast)
qed

text \<open>The group identifier round trips: written with four hexadecimal digits after \<^verbatim>\<open>0x\<close>, or with five decimal
  digits, every 16-bit identifier is read back.\<close>

lemma groupID_roundtrip:
  "parseGroupID (''0x'' @ digits 16 4 (unat n)) = Inr n \<and> parseGroupID (digits 10 5 (unat n)) = Inr n"
  by (simp only: parseGroupID_hex parseGroupID_dec)

text \<open>A host with one interface and the table of scopes, at which the properties are evaluated.\<close>

definition sampleHost :: cfg_lib where
  "sampleHost = \<lparr>cl_ParseScope = (\<lambda>s. if s = ''site'' then Some 5 else if s = ''global'' then Some 14 else None),
     cl_PrefixSSM = (\<lambda>n. Some (0xFF30 + of_nat n)), cl_InterfaceByName = (\<lambda>n. n = ''eth0''),
     cl_ParseIP = (\<lambda>s. []), cl_ParseDuration = (\<lambda>s. None), cl_ParseFloat = (\<lambda>s. None), cl_NumCPU = 4\<rparr>"

definition noFlags :: cmdline where
  "noFlags = \<lparr>fl_str = (\<lambda>_. None), fl_int = (\<lambda>_. None), fl_uint = (\<lambda>_. None), fl_bool = (\<lambda>_. None),
     fl_dur = (\<lambda>_. None), fl_float = (\<lambda>_. None)\<rparr>"

lemma sample_Load:
  "\<exists>c. Load sampleHost (\<lambda>_. []) noFlags = Inr c \<and> cf_EgressIfaces c = [''eth0''] \<and> cf_BindSource c = [] \<and>
     \<not> cf_AutoConfigEnabled c \<and> cf_NumWorkers c = cl_NumCPU sampleHost"
proof -
  note str = TrimSpace_def isSpace_def ToLower_def lowerChar_def Let_def ParseUint_def parseDigit_def digitVal_def
  have p: "TrimSpace ''0'' = ''0''" "ParseUint ''0'' 10 32 = Some 0" "take 2 (ToLower ''0'') \<noteq> ''0x''" by (simp_all add: str)
  have g: "parseGroupID ''0x000B'' = Inr 11" by (simp add: parseGroupID_def str)
  have i: "ifaceNames ''eth0'' = [''eth0'']" "ifaceNames [] = []" by (simp_all add: ifaceNames_def str)
  have l: "ToLower ''asm'' = ''asm''" "Scopes ''site'' = Some 0xFF05" by (simp_all add: str Scopes_def)
  have u: "toUint 0 = 0" "toUint 2 = 2" by (simp_all add: toUint_def)
  note fl = given_def envInt_def envStr_def envBool_def envFloat_def envDuration_def envParsed_def noFlags_def
  note ck = checkShardBits_def checkBEEFBits_def checkPorts_def tcpPorts_def checkMinPoW_def checkSource_def
    checkGroupID_def clampWorkers_def checkIfaces_def checkDedup_def checkAutoConfig_def
  show ?thesis
    by (simp add: Load_def Let_def andThen_def rawFlags_def flagConfig_def fl ck p g i l u sampleHost_def)
qed

theorem Load_valid_witness:
  "\<exists>c. Load sampleHost (\<lambda>_. []) noFlags = Inr c \<and> valid_config sampleHost c"
proof -
  obtain c where "Load sampleHost (\<lambda>_. []) noFlags = Inr c" using sample_Load by blast
  moreover have "1 \<le> cl_NumCPU sampleHost" by (simp add: sampleHost_def)
  ultimately show ?thesis using Load_valid [of sampleHost "\<lambda>_. []" noFlags] by simp
qed

theorem both_hears_all_witness:
  "\<exists>ps. ControlGroupPrefixes sampleHost ControlGroupBoth ''SSM'' ''site'' = Inr ps \<and>
     (\<forall>sender qs. ControlGroupPrefixes sampleHost sender ''SSM'' ''site'' = Inr qs \<longrightarrow> qs \<noteq> [] \<and> set qs \<subseteq> set ps)"
  by (rule both_hears_all [of _ "0xFF05"]) (simp_all add: Scopes_def sampleHost_def)

end
