(* ===== verification/Metrics.thy ===== *)
theory Metrics
  imports Manifest
begin

text \<open>
  \<^verbatim>\<open>metrics/metrics.go\<close>: the recorder.  The instruments of the Prometheus and OpenTelemetry clients are outside
  the program, so a call of one is an entry of the log \<open>rc_calls\<close>, with the labels or attributes it was made with.
  What the recorder itself keeps is its state: the per-interface caches of counter handles, the sharded flow
  counters, the cached coalescing options, the readiness flags and the manifest gauges.  A \<^verbatim>\<open>groupShard\<close> is reached
  through a pointer that copies of the flow table share, so the shards of an interface are a store indexed by
  address.
\<close>

subsection \<open>Instruments\<close>

datatype attr = AInt int | AStr string

type_synonym handle = "string \<times> string list"

datatype inst_call =
    CounterAdd handle nat
  | Observe handle nat
  | OtelAdd string int "(string \<times> attr) list"
  | OtelRecord string int "(string \<times> attr) list"

text \<open>\<^verbatim>\<open>strconv.Itoa\<close> and the verb \<^verbatim>\<open>%04x\<close>.\<close>

fun baseDigits :: "nat \<Rightarrow> nat \<Rightarrow> string" where
  "baseDigits b n =
     (let d = n mod b; c = char_of (if d < 10 then d + 48 else d + 87)
      in if n < b \<or> b < 2 then [c] else baseDigits b (n div b) @ [c])"

declare baseDigits.simps [simp del]

definition Itoa :: "int \<Rightarrow> string" where
  "Itoa n = (if n < 0 then CHR ''-'' # baseDigits 10 (nat (- n)) else baseDigits 10 (nat n))"

definition hex4 :: "nat \<Rightarrow> string" where
  "hex4 n = (let s = baseDigits 16 n in replicate (4 - length s) CHR ''0'' @ s)"

subsection \<open>State of the recorder\<close>

record hotPathCounters =
  hp_rxPackets :: handle
  hp_rxBytes :: handle
  hp_txPackets :: handle
  hp_txBytes :: handle
  hp_rxSize :: handle

record flowCell =
  fc_packets :: u64
  fc_bytes :: u64

record ifaceState =
  is_iface :: string
  is_numWorkers :: nat
  is_workers :: "hotPathCounters option list"
  is_flows :: "nat option list"
  is_shards :: "flowCell list list"

record coalesceKey =
  ck_iface :: string
  ck_worker :: int
  ck_reason :: string

record coalesceOpts =
  co_flush :: "(string \<times> attr) list"
  co_bundle :: "(string \<times> attr) list"

record Recorder =
  rc_numWorkers :: int
  rc_readyCount :: "32 word"
  rc_ifaceStates :: "(string \<times> ifaceState) list"
  rc_coalesceSeries :: "(coalesceKey \<times> coalesceOpts) list"
  rc_draining :: bool
  rc_tcpIngressRequired :: bool
  rc_tcpIngressReady :: bool
  rc_manifestReceived :: int
  rc_manifestPilotsKnown :: int
  rc_manifestQuorumMetBits :: int
  rc_manifestReshardState :: int
  rc_manifestReshardWindow :: int
  rc_lastDivergence :: "(string \<times> int) list"
  rc_calls :: "inst_call list"

definition newRecorder :: "int \<Rightarrow> Recorder" where
  "newRecorder numWorkers =
     \<lparr>rc_numWorkers = numWorkers, rc_readyCount = 0, rc_ifaceStates = [], rc_coalesceSeries = [],
      rc_draining = False, rc_tcpIngressRequired = False, rc_tcpIngressReady = False,
      rc_manifestReceived = 0, rc_manifestPilotsKnown = 0, rc_manifestQuorumMetBits = 0,
      rc_manifestReshardState = 0, rc_manifestReshardWindow = 0, rc_lastDivergence = [], rc_calls = []\<rparr>"

definition calls :: "inst_call list \<Rightarrow> Recorder \<Rightarrow> Recorder" where
  "calls cs r = r\<lparr>rc_calls := rc_calls r @ cs\<rparr>"

subsection \<open>Per-interface state\<close>

definition newIfaceState :: "string \<Rightarrow> int \<Rightarrow> ifaceState" where
  "newIfaceState iface numWorkers =
     (let nw = (if numWorkers < 1 then 1 else nat numWorkers)
      in \<lparr>is_iface = iface, is_numWorkers = nw, is_workers = replicate nw None, is_flows = [], is_shards = []\<rparr>)"

definition getIfaceState :: "string \<Rightarrow> Recorder \<Rightarrow> ifaceState \<times> Recorder" where
  "getIfaceState iface r =
     (case map_of (rc_ifaceStates r) iface of
        Some st \<Rightarrow> (st, r)
      | None \<Rightarrow> let st = newIfaceState iface (rc_numWorkers r)
                in (st, r\<lparr>rc_ifaceStates := al_put iface st (rc_ifaceStates r)\<rparr>))"

text \<open>The effect of an update through the pointer.\<close>

definition putIfaceState :: "string \<Rightarrow> ifaceState \<Rightarrow> Recorder \<Rightarrow> Recorder" where
  "putIfaceState iface st r = r\<lparr>rc_ifaceStates := al_put iface st (rc_ifaceStates r)\<rparr>"

text \<open>The handles the counter vectors give for a worker and an interface.\<close>

definition withLabels :: "string \<Rightarrow> int \<Rightarrow> hotPathCounters" where
  "withLabels iface workerID =
     \<lparr>hp_rxPackets = (''bsp_packets_received_total'', [Itoa workerID, iface]),
      hp_rxBytes = (''bsp_bytes_received_total'', [Itoa workerID, iface]),
      hp_txPackets = (''bsp_packets_forwarded_total'', [Itoa workerID, iface]),
      hp_txBytes = (''bsp_bytes_forwarded_total'', [Itoa workerID, iface]),
      hp_rxSize = (''bsp_packet_size_bytes'', [Itoa workerID, iface])\<rparr>"

definition iface_worker :: "int \<Rightarrow> ifaceState \<Rightarrow> hotPathCounters \<times> ifaceState" where
  "iface_worker workerID st =
     (let inRange = (0 \<le> workerID \<and> workerID < int (length (is_workers st)));
          slot = (if inRange then is_workers st ! nat workerID else None)
      in case slot of
           Some hp \<Rightarrow> (hp, st)
         | None \<Rightarrow>
             let hp = withLabels (is_iface st) workerID
             in (hp, if inRange then st\<lparr>is_workers := (is_workers st)[nat workerID := Some hp]\<rparr> else st))"

subsection \<open>Flow counters\<close>

text \<open>The steps of \<^verbatim>\<open>addFlow\<close>: the lock-free look-up, the binding under the mutex, the two atomic adds.\<close>

definition loadShard :: "nat \<Rightarrow> ifaceState \<Rightarrow> nat option" where
  "loadShard g st = (if g < length (is_flows st) then is_flows st ! g else None)"

definition bindFlow :: "nat \<Rightarrow> ifaceState \<Rightarrow> nat \<times> ifaceState" where
  "bindFlow g st =
     (case loadShard g st of
        Some p \<Rightarrow> (p, st)
      | None \<Rightarrow>
          let n = (if g + 1 > length (is_flows st) then g + 1 else length (is_flows st));
              ng = is_flows st @ replicate (n - length (is_flows st)) None;
              p = length (is_shards st)
          in (p, st\<lparr>is_flows := ng[g := Some p],
                    is_shards := is_shards st @ [replicate (is_numWorkers st) \<lparr>fc_packets = 0, fc_bytes = 0\<rparr>]\<rparr>))"

definition onCell :: "int \<Rightarrow> nat \<Rightarrow> (flowCell \<Rightarrow> flowCell) \<Rightarrow> ifaceState \<Rightarrow> ifaceState" where
  "onCell workerID p f st =
     (let gs = is_shards st ! p
      in if 0 \<le> workerID \<and> workerID < int (length gs)
         then st\<lparr>is_shards := (is_shards st)[p := gs[nat workerID := f (gs ! nat workerID)]]\<rparr> else st)"

definition addPacket :: "int \<Rightarrow> nat \<Rightarrow> ifaceState \<Rightarrow> ifaceState" where
  "addPacket workerID p st = onCell workerID p (\<lambda>c. c\<lparr>fc_packets := fc_packets c + 1\<rparr>) st"

definition addBytes :: "int \<Rightarrow> nat \<Rightarrow> u64 \<Rightarrow> ifaceState \<Rightarrow> ifaceState" where
  "addBytes workerID p n st = onCell workerID p (\<lambda>c. c\<lparr>fc_bytes := fc_bytes c + n\<rparr>) st"

definition addFlow :: "int \<Rightarrow> u32 \<Rightarrow> u64 \<Rightarrow> ifaceState \<Rightarrow> ifaceState" where
  "addFlow workerID groupIdx n st =
     (let (p, st1) = (case loadShard (unat groupIdx) st of Some p \<Rightarrow> (p, st) | None \<Rightarrow> bindFlow (unat groupIdx) st)
      in addBytes workerID p n (addPacket workerID p st1))"

text \<open>What a scrape reads of a group, and the series it exposes.\<close>

definition flowTotals :: "nat \<Rightarrow> ifaceState \<Rightarrow> (u64 \<times> u64) option" where
  "flowTotals g st =
     (case loadShard g st of
        None \<Rightarrow> None
      | Some p \<Rightarrow> Some (sum_list (map fc_packets (is_shards st ! p)), sum_list (map fc_bytes (is_shards st ! p))))"

definition Collect :: "Recorder \<Rightarrow> (handle \<times> u64) list" where
  "Collect r =
     concat (map (\<lambda>(iface, st). concat (map (\<lambda>g.
         case flowTotals g st of
           None \<Rightarrow> []
         | Some (pkts, byts) \<Rightarrow> [((''bsp_flow_packets_total'', [iface, hex4 g]), pkts),
                                (( ''bsp_flow_bytes_total'', [iface, hex4 g]), byts)])
       [0..<length (is_flows st)])) (rc_ifaceStates r))"

definition activeGroups :: "ifaceState \<Rightarrow> nat" where
  "activeGroups st = length (filter (\<lambda>gs. gs \<noteq> None) (is_flows st))"

subsection \<open>Record methods\<close>

definition rec_PacketReceived :: "string \<Rightarrow> int \<Rightarrow> nat \<Rightarrow> Recorder \<Rightarrow> Recorder" where
  "rec_PacketReceived iface workerID n r =
     (let (st, r1) = getIfaceState iface r;
          (c, st1) = iface_worker workerID st
      in calls [CounterAdd (hp_rxPackets c) 1, CounterAdd (hp_rxBytes c) n, Observe (hp_rxSize c) n]
           (putIfaceState iface st1 r1))"

definition rec_PacketDropped :: "string \<Rightarrow> int \<Rightarrow> string \<Rightarrow> Recorder \<Rightarrow> Recorder" where
  "rec_PacketDropped iface workerID reason r =
     calls [CounterAdd (''bsp_packets_dropped_total'', [Itoa workerID, iface, reason]) 1] r"

definition rec_PacketForwarded :: "string \<Rightarrow> int \<Rightarrow> u32 \<Rightarrow> nat \<Rightarrow> Recorder \<Rightarrow> Recorder" where
  "rec_PacketForwarded iface workerID groupIdx n r =
     (let (st, r1) = getIfaceState iface r;
          (c, st1) = iface_worker workerID st
      in calls [CounterAdd (hp_txPackets c) 1, CounterAdd (hp_txBytes c) n]
           (putIfaceState iface (addFlow workerID groupIdx (of_nat n) st1) r1))"

definition ifaceAttr :: "string \<Rightarrow> string \<times> attr" where
  "ifaceAttr iface = (''network.interface.name'', AStr iface)"

definition rec_FrameFragmented :: "int \<Rightarrow> nat \<Rightarrow> Recorder \<Rightarrow> Recorder" where
  "rec_FrameFragmented workerID k r =
     (let opt = [(''worker'', AInt workerID), ifaceAttr []]
      in calls [OtelAdd ''bsp_frames_fragmented_total'' 1 opt, OtelAdd ''bsp_fragments_emitted_total'' (int k) opt] r)"

definition buildOpts :: "coalesceKey \<Rightarrow> coalesceOpts" where
  "buildOpts k =
     \<lparr>co_flush = [(''worker'', AInt (ck_worker k)), ifaceAttr (ck_iface k), (''reason'', AStr (ck_reason k))],
      co_bundle = [(''worker'', AInt (ck_worker k)), ifaceAttr (ck_iface k)]\<rparr>"

definition coalesceOptions :: "coalesceKey \<Rightarrow> Recorder \<Rightarrow> coalesceOpts \<times> Recorder" where
  "coalesceOptions k r =
     (case map_of (rc_coalesceSeries r) k of
        Some opts \<Rightarrow> (opts, r)
      | None \<Rightarrow> let opts = buildOpts k in (opts, r\<lparr>rc_coalesceSeries := al_put k opts (rc_coalesceSeries r)\<rparr>))"

definition bundleCalls :: "nat \<Rightarrow> coalesceOpts \<Rightarrow> inst_call list" where
  "bundleCalls n opts =
     OtelAdd ''bsp_coalesce_flush_total'' 1 (co_flush opts) #
       (if n > 0 then [OtelAdd ''bsp_coalesce_bundles_total'' 1 (co_bundle opts),
                       OtelAdd ''bsp_coalesce_members_total'' (int n) (co_bundle opts),
                       OtelRecord ''bsp_coalesce_members_per_bundle'' (int n) (co_bundle opts)] else [])"

definition rec_CoalesceFlushed :: "string \<Rightarrow> int \<Rightarrow> nat \<Rightarrow> string \<Rightarrow> Recorder \<Rightarrow> Recorder" where
  "rec_CoalesceFlushed iface workerID n reason r =
     (let (opts, r1) = coalesceOptions \<lparr>ck_iface = iface, ck_worker = workerID, ck_reason = reason\<rparr> r
      in calls (bundleCalls n opts) r1)"

definition rec_TeeFailed :: "string \<Rightarrow> int \<Rightarrow> Recorder \<Rightarrow> Recorder" where
  "rec_TeeFailed kind n r = (if n \<le> 0 then r else calls [OtelAdd ''bsp_tee_failed_total'' n [(''kind'', AStr kind)]] r)"

definition rec_ControlFrameForwarded :: "string \<Rightarrow> Recorder \<Rightarrow> Recorder" where
  "rec_ControlFrameForwarded ctrlGroup r =
     calls [OtelAdd ''bsp_control_frames_forwarded_total'' 1 [(''ctrl_group'', AStr ctrlGroup)]] r"

definition rec_IngressDeduped :: "string \<Rightarrow> int \<Rightarrow> string \<Rightarrow> Recorder \<Rightarrow> Recorder" where
  "rec_IngressDeduped iface workerID frameType r =
     calls [OtelAdd ''bsp_ingress_deduped_total'' 1
              [(''worker'', AInt workerID), ifaceAttr iface, (''frame_type'', AStr frameType)]] r"

fun class_String :: "ingress_class_label \<Rightarrow> string" where
  "class_String IngressClassBlock = ''block''"
| "class_String IngressClassCoinbase = ''coinbase''"
| "class_String IngressClassSubtree = ''subtree''"
| "class_String IngressClassAnchor = ''anchor''"
| "class_String IngressClassBEEF = ''beef''"
| "class_String IngressClassTx = ''tx''"

definition rec_IngressMetered :: "ingress_class_label \<Rightarrow> bool \<Rightarrow> nat \<Rightarrow> Recorder \<Rightarrow> Recorder" where
  "rec_IngressMetered cls privileged n r =
     (let lbl = [class_String cls, if privileged then ''privileged'' else ''transaction'']
      in calls [CounterAdd (''bsp_ingress_class_bytes_total'', lbl) n,
                CounterAdd (''bsp_ingress_class_packets_total'', lbl) 1] r)"

definition rec_PrivilegedFrameRejected :: "string \<Rightarrow> Recorder \<Rightarrow> Recorder" where
  "rec_PrivilegedFrameRejected frameType r =
     calls [OtelAdd ''bsp_privileged_frame_rejected_total'' 1 [(''frame_type'', AStr frameType)]] r"

definition rec_BlockPoWRejected :: "Recorder \<Rightarrow> Recorder" where
  "rec_BlockPoWRejected r = calls [OtelAdd ''bsp_block_pow_rejected_total'' 1 []] r"

definition rec_SubtreeRootCheck :: "string \<Rightarrow> Recorder \<Rightarrow> Recorder" where
  "rec_SubtreeRootCheck result r = calls [OtelAdd ''bsp_subtree_root_checks_total'' 1 [(''result'', AStr result)]] r"

definition rec_BEEFSubmission :: "string \<Rightarrow> Recorder \<Rightarrow> Recorder" where
  "rec_BEEFSubmission result r = calls [OtelAdd ''bsp_beef_submissions_total'' 1 [(''result'', AStr result)]] r"

definition rec_BEEFTopics :: "int \<Rightarrow> int \<Rightarrow> Recorder \<Rightarrow> Recorder" where
  "rec_BEEFTopics named deliverable r =
     calls (OtelAdd ''bsp_beef_topics_total'' deliverable [(''topic_role'', AStr ''deliverable'')] #
       (if named - deliverable > 0
        then [OtelAdd ''bsp_beef_topics_total'' (named - deliverable) [(''topic_role'', AStr ''label'')]] else [])) r"

definition rec_TCPConnectionAccepted :: "Recorder \<Rightarrow> Recorder" where
  "rec_TCPConnectionAccepted r = calls [OtelAdd ''bsp_tcp_connections_total'' 1 []] r"

definition rec_TCPBytesReceived :: "int \<Rightarrow> Recorder \<Rightarrow> Recorder" where
  "rec_TCPBytesReceived n r = calls [OtelAdd ''bsp_tcp_bytes_received_total'' n []] r"

definition rec_IngressError :: "string \<Rightarrow> int \<Rightarrow> Recorder \<Rightarrow> Recorder" where
  "rec_IngressError iface workerID r = calls [CounterAdd (''bsp_ingress_errors_total'', [Itoa workerID, iface]) 1] r"

definition rec_EgressError :: "string \<Rightarrow> int \<Rightarrow> Recorder \<Rightarrow> Recorder" where
  "rec_EgressError iface workerID r = calls [CounterAdd (''bsp_egress_errors_total'', [Itoa workerID, iface]) 1] r"

definition rec_WorkerReady :: "Recorder \<Rightarrow> Recorder" where
  "rec_WorkerReady r = r\<lparr>rc_readyCount := rc_readyCount r + 1\<rparr>"

definition rec_WorkerDone :: "Recorder \<Rightarrow> Recorder" where
  "rec_WorkerDone r = r\<lparr>rc_readyCount := rc_readyCount r - 1\<rparr>"

definition rec_TCPIngressReady :: "Recorder \<Rightarrow> Recorder" where
  "rec_TCPIngressReady r = r\<lparr>rc_tcpIngressReady := True\<rparr>"

definition RequireTCPIngress :: "Recorder \<Rightarrow> Recorder" where
  "RequireTCPIngress r = r\<lparr>rc_tcpIngressRequired := True\<rparr>"

definition SetDraining :: "Recorder \<Rightarrow> Recorder" where
  "SetDraining r = r\<lparr>rc_draining := True\<rparr>"

text \<open>The event of a handler as the call of its method.\<close>

definition recordEvent :: "event \<Rightarrow> Recorder \<Rightarrow> Recorder" where
  "recordEvent ev =
     (case ev of
        PacketReceived i w n \<Rightarrow> rec_PacketReceived i w n
      | PacketDropped i w rs \<Rightarrow> rec_PacketDropped i w rs
      | PacketForwarded i w g n \<Rightarrow> rec_PacketForwarded i w g n
      | FrameFragmented w k \<Rightarrow> rec_FrameFragmented w k
      | CoalesceFlushed i w n rs \<Rightarrow> rec_CoalesceFlushed i w n rs
      | TeeFailed k n \<Rightarrow> rec_TeeFailed k (int n)
      | ControlFrameForwarded g \<Rightarrow> rec_ControlFrameForwarded g
      | IngressDeduped i w t \<Rightarrow> rec_IngressDeduped i w t
      | IngressMetered c p n \<Rightarrow> rec_IngressMetered c p n
      | PrivilegedFrameRejected t \<Rightarrow> rec_PrivilegedFrameRejected t
      | BlockPoWRejected \<Rightarrow> rec_BlockPoWRejected
      | SubtreeRootCheck t \<Rightarrow> rec_SubtreeRootCheck t
      | BEEFSubmission t \<Rightarrow> rec_BEEFSubmission t
      | BEEFTopics n d \<Rightarrow> rec_BEEFTopics (int n) (int d)
      | TCPConnectionAccepted \<Rightarrow> rec_TCPConnectionAccepted
      | TCPBytesReceived n \<Rightarrow> rec_TCPBytesReceived (int n)
      | IngressError i w \<Rightarrow> rec_IngressError i w
      | EgressError i w \<Rightarrow> rec_EgressError i w
      | WorkerReady \<Rightarrow> rec_WorkerReady
      | WorkerDone \<Rightarrow> rec_WorkerDone
      | TCPIngressReady \<Rightarrow> rec_TCPIngressReady)"

text \<open>The methods of the manifest consumer; \<open>now\<close> is \<^verbatim>\<open>time.Now().Unix()\<close>.\<close>

definition recordManifest :: "int \<Rightarrow> mf_event \<Rightarrow> Recorder \<Rightarrow> Recorder" where
  "recordManifest now ev r =
     (case ev of
        ManifestReceived \<Rightarrow> r\<lparr>rc_manifestReceived := rc_manifestReceived r + 1\<rparr>
      | ManifestSetPilotsKnown n \<Rightarrow> r\<lparr>rc_manifestPilotsKnown := n\<rparr>
      | ManifestSetQuorumMetBits b \<Rightarrow> r\<lparr>rc_manifestQuorumMetBits := int b\<rparr>
      | ManifestSetReshardState s \<Rightarrow> r\<lparr>rc_manifestReshardState := int s\<rparr>
      | ManifestSetReshardWindowSeconds s \<Rightarrow> r\<lparr>rc_manifestReshardWindow := s\<rparr>
      | ManifestDivergence f k \<Rightarrow>
          (calls [OtelAdd ''multicast_manifest_divergence_total'' 1 [(''field'', AStr f), (''kind'', AStr k)]] r)
            \<lparr>rc_lastDivergence := al_put f now (rc_lastDivergence r)\<rparr>
      | ManifestAdoption f rs \<Rightarrow>
          calls [OtelAdd ''multicast_manifest_adoption_total'' 1 [(''field'', AStr f), (''reason'', AStr rs)]] r)"

datatype rec_op =
    OpEvent event
  | OpManifest int mf_event
  | OpRequireTCP
  | OpDrain

fun recOp :: "rec_op \<Rightarrow> Recorder \<Rightarrow> Recorder" where
  "recOp (OpEvent ev) = recordEvent ev"
| "recOp (OpManifest now ev) = recordManifest now ev"
| "recOp OpRequireTCP = RequireTCPIngress"
| "recOp OpDrain = SetDraining"

subsection \<open>Readiness\<close>

record readyz =
  rz_code :: nat
  rz_status :: string
  rz_ready :: int
  rz_total :: int
  rz_tcpRequired :: bool
  rz_tcpReady :: bool

definition handleReadyz :: "Recorder \<Rightarrow> readyz" where
  "handleReadyz r =
     (let ready = sint (rc_readyCount r); total = rc_numWorkers r;
          tcpReq = rc_tcpIngressRequired r; tcpRdy = rc_tcpIngressReady r;
          reply = (\<lambda>code status. \<lparr>rz_code = code, rz_status = status, rz_ready = ready, rz_total = total,
                                  rz_tcpRequired = tcpReq, rz_tcpReady = tcpRdy\<rparr>)
      in if rc_draining r then reply 503 ''draining''
         else if ready \<ge> total \<and> total > 0 \<and> (\<not> tcpReq \<or> tcpRdy) then reply 200 ''ready''
         else reply 503 ''starting'')"

subsection \<open>The caches are invisible\<close>

text \<open>The instrument calls of an operation when every handle and option set is looked up afresh.\<close>

definition directCalls :: "rec_op \<Rightarrow> inst_call list" where
  "directCalls op =
     (case op of
        OpEvent (PacketReceived i w n) \<Rightarrow>
          [CounterAdd (''bsp_packets_received_total'', [Itoa w, i]) 1, CounterAdd (''bsp_bytes_received_total'', [Itoa w, i]) n,
           Observe (''bsp_packet_size_bytes'', [Itoa w, i]) n]
      | OpEvent (PacketForwarded i w g n) \<Rightarrow>
          [CounterAdd (''bsp_packets_forwarded_total'', [Itoa w, i]) 1, CounterAdd (''bsp_bytes_forwarded_total'', [Itoa w, i]) n]
      | OpEvent (CoalesceFlushed i w n rs) \<Rightarrow> bundleCalls n (buildOpts \<lparr>ck_iface = i, ck_worker = w, ck_reason = rs\<rparr>)
      | _ \<Rightarrow> rc_calls (recOp op (newRecorder 0)))"

definition iface_ok :: "string \<Rightarrow> ifaceState \<Rightarrow> bool" where
  "iface_ok iface st \<longleftrightarrow> is_iface st = iface \<and>
     (\<forall>i < length (is_workers st). \<forall>hp. is_workers st ! i = Some hp \<longrightarrow> hp = withLabels iface (int i))"

definition caches_ok :: "Recorder \<Rightarrow> bool" where
  "caches_ok r \<longleftrightarrow> (\<forall>iface st. map_of (rc_ifaceStates r) iface = Some st \<longrightarrow> iface_ok iface st) \<and>
     (\<forall>k opts. map_of (rc_coalesceSeries r) k = Some opts \<longrightarrow> opts = buildOpts k)"

lemma calls_simps [simp]:
  "rc_calls (calls cs r) = rc_calls r @ cs" "rc_ifaceStates (calls cs r) = rc_ifaceStates r"
  "rc_coalesceSeries (calls cs r) = rc_coalesceSeries r" "caches_ok (calls cs r) = caches_ok r"
  by (simp_all add: calls_def caches_ok_def)

lemma newIfaceState_ok: "iface_ok iface (newIfaceState iface n)"
  by (simp add: iface_ok_def newIfaceState_def Let_def)

lemma getIfaceState_ok:
  assumes "caches_ok r" "getIfaceState iface r = (st, r1)"
  shows "iface_ok iface st \<and> caches_ok r1 \<and> rc_calls r1 = rc_calls r"
  using assms newIfaceState_ok by (auto simp: getIfaceState_def caches_ok_def Let_def split: option.splits if_splits)

lemma putIfaceState_ok: "caches_ok r \<Longrightarrow> iface_ok iface st \<Longrightarrow> caches_ok (putIfaceState iface st r)"
  by (auto simp: putIfaceState_def caches_ok_def)

lemma putIfaceState_calls [simp]: "rc_calls (putIfaceState iface st r) = rc_calls r"
  by (simp add: putIfaceState_def)

lemma iface_worker_ok:
  assumes "iface_ok iface st" "iface_worker w st = (hp, st1)"
  shows "hp = withLabels iface w \<and> iface_ok iface st1"
proof (cases "0 \<le> w \<and> w < int (length (is_workers st))")
  case True
  then obtain k where "w = int k" "k < length (is_workers st)" by (metis nonneg_int_cases of_nat_less_iff)
  then show ?thesis using assms
    by (cases "is_workers st ! k") (auto simp: iface_worker_def iface_ok_def Let_def nth_list_update split: if_splits)
qed (use assms in \<open>auto simp: iface_worker_def iface_ok_def Let_def\<close>)

lemma addFlow_ok [simp]: "iface_ok iface (addFlow w g n st) = iface_ok iface st"
  by (auto simp: addFlow_def addPacket_def addBytes_def onCell_def bindFlow_def iface_ok_def Let_def split: prod.split option.split)

lemma recOp_direct:
  assumes "caches_ok r"
  shows "rc_calls (recOp op r) = rc_calls r @ directCalls op \<and> caches_ok (recOp op r)"
proof (cases op)
  case (OpEvent ev)
  show ?thesis
  proof (cases ev)
    case (PacketReceived i w n)
    obtain st r1 where g: "getIfaceState i r = (st, r1)" by fastforce
    obtain c st1 where c: "iface_worker w st = (c, st1)" by fastforce
    show ?thesis using getIfaceState_ok [OF assms g] iface_worker_ok [OF _ c, of i] PacketReceived OpEvent g c
      by (simp add: recordEvent_def rec_PacketReceived_def directCalls_def withLabels_def putIfaceState_ok)
  next
    case (PacketForwarded i w g n)
    obtain st r1 where s: "getIfaceState i r = (st, r1)" by fastforce
    obtain c st1 where c: "iface_worker w st = (c, st1)" by fastforce
    show ?thesis using getIfaceState_ok [OF assms s] iface_worker_ok [OF _ c, of i] PacketForwarded OpEvent s c
      by (simp add: recordEvent_def rec_PacketForwarded_def directCalls_def withLabels_def putIfaceState_ok)
  next
    case (CoalesceFlushed i w n rs)
    then show ?thesis using assms OpEvent
      by (auto simp: recordEvent_def rec_CoalesceFlushed_def directCalls_def coalesceOptions_def caches_ok_def Let_def split: option.split)
  qed (use assms OpEvent in \<open>simp_all add: recordEvent_def directCalls_def newRecorder_def caches_ok_def Let_def
       rec_PacketDropped_def rec_FrameFragmented_def rec_TeeFailed_def rec_ControlFrameForwarded_def rec_IngressDeduped_def
       rec_IngressMetered_def rec_PrivilegedFrameRejected_def rec_BlockPoWRejected_def rec_SubtreeRootCheck_def
       rec_BEEFSubmission_def rec_BEEFTopics_def rec_TCPConnectionAccepted_def rec_TCPBytesReceived_def rec_IngressError_def
       rec_EgressError_def rec_WorkerReady_def rec_WorkerDone_def rec_TCPIngressReady_def\<close>)
next
  case (OpManifest now ev)
  then show ?thesis using assms by (cases ev) (simp_all add: recordManifest_def directCalls_def newRecorder_def caches_ok_def)
qed (use assms in \<open>simp_all add: directCalls_def newRecorder_def caches_ok_def RequireTCPIngress_def SetDraining_def\<close>)

text \<open>The caches of the hot path are invisible.  Whatever methods are called, in whatever order and for
  whatever interfaces and workers (a worker id outside the configured range included), the instruments get exactly
  the calls they would get if every handle were looked up by its labels and every option set built afresh, in the
  order of the method calls.\<close>

lemma cached_handles_are_direct:
  "rc_calls (fold recOp ops (newRecorder numWorkers)) = concat (map directCalls ops)"
proof -
  have "caches_ok r \<Longrightarrow> rc_calls (fold recOp ops r) = rc_calls r @ concat (map directCalls ops)" for r
    by (induction ops arbitrary: r) (simp_all add: recOp_direct)
  from this [of "newRecorder numWorkers"] show ?thesis by (simp add: caches_ok_def newRecorder_def)
qed

subsection \<open>Readiness follows the life cycle\<close>

definition lifeOf :: "Recorder \<Rightarrow> int \<times> 32 word \<times> bool \<times> bool \<times> bool" where
  "lifeOf r = (rc_numWorkers r, rc_readyCount r, rc_draining r, rc_tcpIngressRequired r, rc_tcpIngressReady r)"

lemma life_frame [frame_simps]:
  "lifeOf (calls cs r) = lifeOf r" "lifeOf (putIfaceState i st r) = lifeOf r"
  "lifeOf (snd (getIfaceState i r)) = lifeOf r" "lifeOf (snd (coalesceOptions k r)) = lifeOf r"
  by (simp_all add: lifeOf_def calls_def putIfaceState_def getIfaceState_def coalesceOptions_def Let_def split: option.split)

lemma life_hot [frame_simps]:
  "lifeOf (rec_PacketReceived i w n r) = lifeOf r" "lifeOf (rec_PacketForwarded i w g n r) = lifeOf r"
  "lifeOf (rec_CoalesceFlushed i w n rs r) = lifeOf r"
  unfolding rec_PacketReceived_def rec_PacketForwarded_def rec_CoalesceFlushed_def Let_def case_prod_beta
  by (simp_all only: frame_simps)

definition upBy :: "rec_op \<Rightarrow> int" where
  "upBy op = (if op = OpEvent WorkerReady then 1 else if op = OpEvent WorkerDone then - 1 else 0)"

lemma recOp_life:
  "lifeOf (recOp op r) =
     (rc_numWorkers r, rc_readyCount r + of_int (upBy op), rc_draining r \<or> op = OpDrain,
      rc_tcpIngressRequired r \<or> op = OpRequireTCP, rc_tcpIngressReady r \<or> op = OpEvent TCPIngressReady)"
proof (cases op)
  case (OpEvent ev)
  then show ?thesis
    by (cases ev) (simp_all add: recordEvent_def upBy_def frame_simps Let_def rec_PacketDropped_def rec_FrameFragmented_def
        rec_TeeFailed_def rec_ControlFrameForwarded_def rec_IngressDeduped_def rec_IngressMetered_def
        rec_PrivilegedFrameRejected_def rec_BlockPoWRejected_def rec_SubtreeRootCheck_def rec_BEEFSubmission_def
        rec_BEEFTopics_def rec_TCPConnectionAccepted_def rec_TCPBytesReceived_def rec_IngressError_def rec_EgressError_def,
        simp_all add: lifeOf_def rec_WorkerReady_def rec_WorkerDone_def rec_TCPIngressReady_def)
next
  case (OpManifest now ev)
  then show ?thesis by (cases ev) (simp_all add: recordManifest_def upBy_def lifeOf_def calls_def)
qed (simp_all add: lifeOf_def RequireTCPIngress_def SetDraining_def upBy_def)

lemma fold_life:
  "lifeOf (fold recOp ops r) =
     (rc_numWorkers r, rc_readyCount r + of_int (sum_list (map upBy ops)), rc_draining r \<or> OpDrain \<in> set ops,
      rc_tcpIngressRequired r \<or> OpRequireTCP \<in> set ops, rc_tcpIngressReady r \<or> OpEvent TCPIngressReady \<in> set ops)"
proof (induction ops arbitrary: r)
  case (Cons op ops)
  then show ?case using recOp_life [of op r] by (auto simp: lifeOf_def algebra_simps)
qed (simp add: lifeOf_def)

lemma upBy_counts:
  "sum_list (map upBy ops) = int (count_list ops (OpEvent WorkerReady)) - int (count_list ops (OpEvent WorkerDone))"
  by (induction ops) (auto simp: upBy_def)

lemma sint_small: "- (2 ^ 31) \<le> k \<Longrightarrow> k < 2 ^ 31 \<Longrightarrow> sint (of_int k :: 32 word) = k"
  by (simp add: signed_of_int signed_take_bit_int_eq_self)

text \<open>The readiness answer is the life cycle of the process.  After any calls (fewer than \<open>2\<^sup>3\<^sup>1\<close>) of the methods of
  a new recorder, \<^verbatim>\<open>/readyz\<close> answers 200 exactly when there are workers to wait for, at least that many have
  started and not ended, the TCP listener has bound if it was required, and the process is not draining, whatever
  was recorded in between and in whatever order; every other answer is 503, and the answer reports the number of
  running workers.\<close>

lemma readyz_reflects_life_cycle:
  assumes "length ops < 2 ^ 31"
  shows "let z = handleReadyz (fold recOp ops (newRecorder numWorkers));
             running = int (count_list ops (OpEvent WorkerReady)) - int (count_list ops (OpEvent WorkerDone)) in
     (rz_code z = 200 \<longleftrightarrow> 0 < numWorkers \<and> numWorkers \<le> running \<and> OpDrain \<notin> set ops \<and>
        (OpRequireTCP \<in> set ops \<longrightarrow> OpEvent TCPIngressReady \<in> set ops)) \<and>
     rz_code z \<in> {200, 503} \<and> rz_ready z = running"
proof -
  let ?r = "fold recOp ops (newRecorder numWorkers)" and ?k = "sum_list (map upBy ops)"
  have "int (count_list ops x) < 2 ^ 31" for x
    using assms count_le_length [of ops x] by (simp add: order_le_less_trans)
  from this [of "OpEvent WorkerReady"] this [of "OpEvent WorkerDone"]
  have s: "sint (of_int ?k :: 32 word) = ?k" unfolding upBy_counts by (intro sint_small) linarith+
  have l: "rc_numWorkers ?r = numWorkers" "rc_readyCount ?r = of_int ?k" "rc_draining ?r = (OpDrain \<in> set ops)"
    "rc_tcpIngressRequired ?r = (OpRequireTCP \<in> set ops)" "rc_tcpIngressReady ?r = (OpEvent TCPIngressReady \<in> set ops)"
    using fold_life [of ops "newRecorder numWorkers"] by (simp_all add: lifeOf_def newRecorder_def)
  show ?thesis unfolding handleReadyz_def Let_def l s unfolding upBy_counts by auto
qed

subsection \<open>No count of a flow is lost\<close>

text \<open>The calls of \<^verbatim>\<open>addFlow\<close> on one interface by any number of goroutines, interleaved step by step.\<close>

record flow_call =
  fa_worker :: int
  fa_group :: u32
  fa_size :: u64

datatype flow_pc = FLoad | FBind | FPackets nat | FBytes nat | FDone

type_synonym flow_state = "(flow_call \<times> flow_pc) list \<times> ifaceState"

inductive flow_step :: "flow_state \<Rightarrow> flow_state \<Rightarrow> bool" where
  load: "i < length cs \<Longrightarrow> cs ! i = (c, FLoad) \<Longrightarrow>
     flow_step (cs, st) (cs[i := (c, case loadShard (unat (fa_group c)) st of Some p \<Rightarrow> FPackets p | None \<Rightarrow> FBind)], st)"
| bnd: "i < length cs \<Longrightarrow> cs ! i = (c, FBind) \<Longrightarrow> bindFlow (unat (fa_group c)) st = (p, st') \<Longrightarrow>
     flow_step (cs, st) (cs[i := (c, FPackets p)], st')"
| packets: "i < length cs \<Longrightarrow> cs ! i = (c, FPackets p) \<Longrightarrow>
     flow_step (cs, st) (cs[i := (c, FBytes p)], addPacket (fa_worker c) p st)"
| bytes: "i < length cs \<Longrightarrow> cs ! i = (c, FBytes p) \<Longrightarrow>
     flow_step (cs, st) (cs[i := (c, FDone)], addBytes (fa_worker c) p (fa_size c) st)"

text \<open>\<^verbatim>\<open>addFlow\<close> is one call run to its end.\<close>

lemma addFlow_is_run:
  "flow_step\<^sup>*\<^sup>* ([(c, FLoad)], st) ([(c, FDone)], addFlow (fa_worker c) (fa_group c) (fa_size c) st)"
proof -
  have fin: "flow_step\<^sup>*\<^sup>* ([(c, FPackets p)], st1) ([(c, FDone)], addBytes (fa_worker c) p (fa_size c) (addPacket (fa_worker c) p st1))" for p st1
    using flow_step.packets [of 0 "[(c, FPackets p)]" c p st1]
      flow_step.bytes [of 0 "[(c, FBytes p)]" c p "addPacket (fa_worker c) p st1"] by (simp add: converse_rtranclp_into_rtranclp)
  obtain p st1 where b: "bindFlow (unat (fa_group c)) st = (p, st1)" by fastforce
  show ?thesis
  proof (cases "loadShard (unat (fa_group c)) st")
    case None
    then show ?thesis using flow_step.load [of 0 "[(c, FLoad)]" c st] flow_step.bnd [of 0 "[(c, FBind)]" c st p st1] b fin [of p st1]
      by (simp add: addFlow_def converse_rtranclp_into_rtranclp)
  next
    case (Some q)
    then show ?thesis using flow_step.load [of 0 "[(c, FLoad)]" c st] fin [of q st]
      by (simp add: addFlow_def converse_rtranclp_into_rtranclp)
  qed
qed

text \<open>What a call has added so far to the cell of a group and worker.\<close>

definition pktOf :: "nat \<Rightarrow> int \<Rightarrow> flow_call \<times> flow_pc \<Rightarrow> u64" where
  "pktOf g w x = (if unat (fa_group (fst x)) = g \<and> fa_worker (fst x) = w \<and> (snd x = FDone \<or> (\<exists>p. snd x = FBytes p)) then 1 else 0)"

definition bytOf :: "nat \<Rightarrow> int \<Rightarrow> flow_call \<times> flow_pc \<Rightarrow> u64" where
  "bytOf g w x = (if unat (fa_group (fst x)) = g \<and> fa_worker (fst x) = w \<and> snd x = FDone then fa_size (fst x) else 0)"

definition bound :: "flow_pc \<Rightarrow> bool" where
  "bound pc \<longleftrightarrow> pc \<noteq> FLoad \<and> pc \<noteq> FBind"

definition boundGroups :: "(flow_call \<times> flow_pc) list \<Rightarrow> nat set" where
  "boundGroups cs = set (map (\<lambda>x. unat (fa_group (fst x))) (filter (\<lambda>x. bound (snd x)) cs))"

definition shards_ok :: "ifaceState \<Rightarrow> bool" where
  "shards_ok st \<longleftrightarrow>
     (\<forall>g p. loadShard g st = Some p \<longrightarrow> p < length (is_shards st) \<and> length (is_shards st ! p) = is_numWorkers st) \<and>
     (\<forall>g h p. loadShard g st = Some p \<longrightarrow> loadShard h st = Some p \<longrightarrow> g = h)"

definition finv :: "flow_state \<Rightarrow> bool" where
  "finv s \<longleftrightarrow> (case s of (cs, st) \<Rightarrow>
     shards_ok st \<and>
     (\<forall>i < length cs. \<forall>p. snd (cs ! i) = FPackets p \<or> snd (cs ! i) = FBytes p \<longrightarrow>
        loadShard (unat (fa_group (fst (cs ! i)))) st = Some p) \<and>
     (\<forall>g. loadShard g st \<noteq> None \<longleftrightarrow> g \<in> boundGroups cs) \<and>
     (\<forall>g p w. loadShard g st = Some p \<longrightarrow> w < is_numWorkers st \<longrightarrow>
        is_shards st ! p ! w = \<lparr>fc_packets = sum_list (map (pktOf g (int w)) cs), fc_bytes = sum_list (map (bytOf g (int w)) cs)\<rparr>))"

lemma sum_list_upd:
  fixes f :: "'a \<Rightarrow> 'b::ab_group_add"
  shows "i < length xs \<Longrightarrow> sum_list (map f (xs[i := y])) = sum_list (map f xs) - f (xs ! i) + f y"
proof (induction xs arbitrary: i)
  case (Cons x xs)
  then show ?case by (cases i) (simp_all add: algebra_simps)
qed simp

lemma bindFlow_load:
  "bindFlow g st = (p, st') \<Longrightarrow> loadShard h st' = (if h = g then Some p else loadShard h st)"
  by (auto simp: bindFlow_def loadShard_def Let_def nth_append nth_list_update split: option.splits if_splits)

lemma bindFlow_new:
  assumes "loadShard g st = None" "bindFlow g st = (p, st')"
  shows "p = length (is_shards st) \<and> is_numWorkers st' = is_numWorkers st \<and>
    is_shards st' = is_shards st @ [replicate (is_numWorkers st) \<lparr>fc_packets = 0, fc_bytes = 0\<rparr>]"
  using assms by (auto simp: bindFlow_def Let_def)

lemma bindFlow_old: "loadShard g st = Some q \<Longrightarrow> bindFlow g st = (q, st)"
  by (simp add: bindFlow_def)

lemma onCell_frame [simp]: "loadShard g (onCell w p f st) = loadShard g st" "is_numWorkers (onCell w p f st) = is_numWorkers st"
  "length (is_shards (onCell w p f st)) = length (is_shards st)"
  by (simp_all add: onCell_def loadShard_def Let_def)

lemma onCell_cell:
  assumes "shards_ok st" "loadShard g st = Some p" "loadShard h st = Some q" "v < is_numWorkers st"
  shows "length (is_shards (onCell w p f st) ! q) = is_numWorkers st \<and>
    is_shards (onCell w p f st) ! q ! v = (if h = g \<and> w = int v then f (is_shards st ! q ! v) else is_shards st ! q ! v)"
proof -
  have l: "p < length (is_shards st)" "length (is_shards st ! p) = is_numWorkers st" "length (is_shards st ! q) = is_numWorkers st"
    "q = p \<longleftrightarrow> h = g" using assms by (auto simp: shards_ok_def)
  show ?thesis using l assms(4)
    by (cases "0 \<le> w \<and> w < int (is_numWorkers st)") (auto simp: onCell_def Let_def nth_list_update)
qed

lemma onCell_length: "q < length (is_shards st) \<Longrightarrow> length (is_shards (onCell w p f st) ! q) = length (is_shards st ! q)"
  by (cases "p = q") (simp_all add: onCell_def Let_def)

lemma onCell_shards_ok: "shards_ok st \<Longrightarrow> shards_ok (onCell w p f st)"
  unfolding shards_ok_def onCell_frame by (simp add: onCell_length)

lemma boundGroups_upd:
  assumes "i < length cs" "cs ! i = (c, pc)" "bound pc \<longrightarrow> bound pc'"
  shows "boundGroups (cs[i := (c, pc')]) = boundGroups cs \<union> (if bound pc' then {unat (fa_group c)} else {})"
proof -
  have cs: "cs = take i cs @ (c, pc) # drop (Suc i) cs" using assms(1,2) by (metis id_take_nth_drop)
  have up: "cs[i := (c, pc')] = take i cs @ (c, pc') # drop (Suc i) cs" using assms(1) by (rule upd_conv_take_nth_drop)
  show ?thesis unfolding up using assms(3) by (subst (3) cs) (auto simp: boundGroups_def simp del: set_map)
qed

lemma unbound_sums:
  assumes "g \<notin> boundGroups cs"
  shows "sum_list (map (pktOf g w) cs) = 0" "sum_list (map (bytOf g w) cs) = 0"
proof -
  have "pktOf g w x = 0" "bytOf g w x = 0" if "x \<in> set cs" for x
    using assms that by (auto simp: boundGroups_def pktOf_def bytOf_def bound_def)
  then show "sum_list (map (pktOf g w) cs) = 0" "sum_list (map (bytOf g w) cs) = 0"
    by (simp_all cong: map_cong add: sum_list_0)
qed

lemma idle_upd:
  assumes "i < length cs" "cs ! i = (c, pc)" "pc = FLoad \<or> pc = FBind" "pc' = FBind \<or> pc' = FPackets p"
  shows "sum_list (map (pktOf g w) (cs[i := (c, pc')])) = sum_list (map (pktOf g w) cs)"
    "sum_list (map (bytOf g w) (cs[i := (c, pc')])) = sum_list (map (bytOf g w) cs)"
  using assms by (auto simp: sum_list_upd pktOf_def bytOf_def)

lemma finvD:
  assumes "finv (cs, st)"
  shows "shards_ok st" "loadShard g st \<noteq> None \<longleftrightarrow> g \<in> boundGroups cs"
    "i < length cs \<Longrightarrow> cs ! i = (c, pc) \<Longrightarrow> pc = FPackets p \<or> pc = FBytes p \<Longrightarrow> loadShard (unat (fa_group c)) st = Some p"
    "loadShard g st = Some p \<Longrightarrow> w < is_numWorkers st \<Longrightarrow>
       is_shards st ! p ! w = \<lparr>fc_packets = sum_list (map (pktOf g (int w)) cs), fc_bytes = sum_list (map (bytOf g (int w)) cs)\<rparr>"
  using assms unfolding finv_def by auto

lemma finvI:
  assumes "finv (cs, st)" "i < length cs" "cs ! i = (c, pc)" "bound pc \<longrightarrow> bound pc'" "shards_ok st'"
    and "\<And>q. pc' = FPackets q \<or> pc' = FBytes q \<Longrightarrow> loadShard (unat (fa_group c)) st' = Some q"
    and "\<And>g q. loadShard g st = Some q \<Longrightarrow> loadShard g st' = Some q"
    and "\<And>g. loadShard g st' \<noteq> None \<longleftrightarrow> loadShard g st \<noteq> None \<or> g = unat (fa_group c) \<and> bound pc'"
    and "\<And>g q w. loadShard g st' = Some q \<Longrightarrow> w < is_numWorkers st' \<Longrightarrow> is_shards st' ! q ! w =
       \<lparr>fc_packets = sum_list (map (pktOf g (int w)) (cs[i := (c, pc')])), fc_bytes = sum_list (map (bytOf g (int w)) (cs[i := (c, pc')]))\<rparr>"
  shows "finv (cs[i := (c, pc')], st')"
proof -
  have b: "boundGroups (cs[i := (c, pc')]) = boundGroups cs \<union> (if bound pc' then {unat (fa_group c)} else {})"
    by (rule boundGroups_upd [OF assms(2-4)])
  have "loadShard (unat (fa_group (fst (cs[i := (c, pc')] ! j)))) st' = Some q"
    if "j < length cs" "snd (cs[i := (c, pc')] ! j) = FPackets q \<or> snd (cs[i := (c, pc')] ! j) = FBytes q" for j q
  proof (cases "j = i")
    case True
    then show ?thesis using assms(2) assms(6) [of q] that by simp
  next
    case False
    then have l: "loadShard (unat (fa_group (fst (cs ! j)))) st = Some q"
      using that finvD(3) [OF assms(1) that(1), of "fst (cs ! j)" "snd (cs ! j)" q] by simp
    then show ?thesis using False assms(7) by simp
  qed
  moreover have "loadShard g st' \<noteq> None \<longleftrightarrow> g \<in> boundGroups (cs[i := (c, pc')])" for g
    unfolding b assms(8) using finvD(2) [OF assms(1), of g] by auto
  ultimately show ?thesis using assms(5,9) unfolding finv_def by simp
qed

lemma finv_bind:
  assumes bnd: "i < length cs" "cs ! i = (c, FBind)" "bindFlow (unat (fa_group c)) st = (p, st')" "finv (cs, st)"
  shows "finv (cs[i := (c, FPackets p)], st')"
proof -
  let ?g = "unat (fa_group c)"
  have upd: "sum_list (map (pktOf g w) (cs[i := (c, FPackets r)])) = sum_list (map (pktOf g w) cs)"
    "sum_list (map (bytOf g w) (cs[i := (c, FPackets r)])) = sum_list (map (bytOf g w) cs)" for g w r
    using idle_upd [OF bnd(1,2), of "FPackets r" r] by simp_all
  show ?thesis
  proof (cases "loadShard ?g st")
    case None
    note new = bindFlow_new [OF None bnd(3)] and ld = bindFlow_load [OF bnd(3)]
    have old: "q < length (is_shards st)" if "loadShard g st = Some q" for g q
      using finvD(1) [OF bnd(4)] that by (auto simp: shards_ok_def)
    have "shards_ok st'" unfolding shards_ok_def ld
      using finvD(1) [OF bnd(4)] new by (auto simp: shards_ok_def nth_append less_Suc_eq dest!: old split: if_splits)
    moreover have "is_shards st' ! q ! w = \<lparr>fc_packets = sum_list (map (pktOf g (int w)) cs), fc_bytes = sum_list (map (bytOf g (int w)) cs)\<rparr>"
      if "loadShard g st' = Some q" "w < is_numWorkers st'" for g q w
    proof (cases "g = ?g")
      case True
      then have "g \<notin> boundGroups cs" using None finvD(2) [OF bnd(4)] by metis
      then show ?thesis using True that new by (simp add: ld unbound_sums nth_append)
    next
      case False
      then show ?thesis using that new finvD(4) [OF bnd(4), of g q w] old [of g q] by (simp add: ld nth_append)
    qed
    ultimately show ?thesis using None
      by (intro finvI [OF bnd(4,1,2)]) (auto simp: ld upd bound_def)
  next
    case (Some q)
    then have "p = q" "st' = st" using bnd(3) bindFlow_old [OF Some] by simp_all
    then show ?thesis using finvD [OF bnd(4)] Some by (intro finvI [OF bnd(4,1,2)]) (auto simp: upd bound_def)
  qed
qed

lemma finv_step: "flow_step s s' \<Longrightarrow> finv s \<Longrightarrow> finv s'"
proof (induction rule: flow_step.induct)
  case (load i cs c st)
  show ?case
  proof (cases "loadShard (unat (fa_group c)) st")
    case None
    have "finv (cs[i := (c, FBind)], st)"
      using finvD [OF load(3)] load(1,2) by (intro finvI [OF load(3,1,2)]) (auto simp: bound_def idle_upd)
    then show ?thesis using None by simp
  next
    case (Some p)
    have "finv (cs[i := (c, FPackets p)], st)"
      using finvD [OF load(3)] load(1,2) Some by (intro finvI [OF load(3,1,2)]) (auto simp: bound_def idle_upd [where p = p])
    then show ?thesis using Some by simp
  qed
next
  case (bnd i cs c st p st')
  then show ?case by (rule finv_bind)
next
  case (packets i cs c p st)
  have l: "loadShard (unat (fa_group c)) st = Some p" using finvD(3) [OF packets(3,1,2)] by simp
  note cell = onCell_cell [OF finvD(1) [OF packets(3)] l]
  show ?case unfolding addPacket_def
  proof (rule finvI [OF packets(3,1,2)])
    show "shards_ok (onCell (fa_worker c) p (\<lambda>c. c\<lparr>fc_packets := fc_packets c + 1\<rparr>) st)"
      by (intro onCell_shards_ok finvD(1) [OF packets(3)])
  qed (use l finvD(4) [OF packets(3)] packets(1,2) in \<open>auto simp: bound_def cell sum_list_upd pktOf_def bytOf_def\<close>)
next
  case (bytes i cs c p st)
  have l: "loadShard (unat (fa_group c)) st = Some p" using finvD(3) [OF bytes(3,1,2)] by simp
  note cell = onCell_cell [OF finvD(1) [OF bytes(3)] l]
  show ?case unfolding addBytes_def
  proof (rule finvI [OF bytes(3,1,2)])
    show "shards_ok (onCell (fa_worker c) p (\<lambda>x. x\<lparr>fc_bytes := fc_bytes x + fa_size c\<rparr>) st)"
      by (intro onCell_shards_ok finvD(1) [OF bytes(3)])
  qed (use l finvD(4) [OF bytes(3)] bytes(1,2) in \<open>auto simp: bound_def cell sum_list_upd pktOf_def bytOf_def\<close>)
qed

lemma map_fst_upd: "i < length cs \<Longrightarrow> cs ! i = (c, pc) \<Longrightarrow> map fst (cs[i := (c, pc')]) = map fst cs"
  by (metis fst_conv list_update_id map_update)

lemma flow_frame:
  "flow_step s s' \<Longrightarrow> map fst (fst s') = map fst (fst s) \<and> is_numWorkers (snd s') = is_numWorkers (snd s)"
proof (induction rule: flow_step.induct)
  case (bnd i cs c st p st')
  then show ?case using bindFlow_new [of "unat (fa_group c)" st p st']
    by (cases "loadShard (unat (fa_group c)) st") (auto simp: map_fst_upd bindFlow_old)
qed (auto simp: map_fst_upd addPacket_def addBytes_def)

lemma flow_reach:
  assumes "flow_step\<^sup>*\<^sup>* (map (\<lambda>c. (c, FLoad)) cs, newIfaceState name n) s"
  shows "finv s \<and> map fst (fst s) = cs \<and> is_numWorkers (snd s) = is_numWorkers (newIfaceState name n)"
  using assms
proof (induction rule: rtranclp_induct)
  case base
  have "boundGroups (map (\<lambda>c. (c, FLoad)) cs) = {}" by (auto simp: boundGroups_def bound_def)
  then show ?case by (auto simp: finv_def shards_ok_def loadShard_def newIfaceState_def Let_def comp_def)
next
  case (step s s')
  then show ?case using flow_frame [OF step(2)] finv_step [OF step(2)] by simp
qed

text \<open>Every schedule can be completed: a call has at most four steps left.\<close>

fun stepsLeft :: "flow_pc \<Rightarrow> nat" where
  "stepsLeft FLoad = 4" | "stepsLeft FBind = 3" | "stepsLeft (FPackets p) = 2" | "stepsLeft (FBytes p) = 1" | "stepsLeft FDone = 0"

lemma flow_progress:
  assumes "i < length cs" "snd (cs ! i) \<noteq> FDone"
  shows "\<exists>s'. flow_step (cs, st) s' \<and> sum_list (map (stepsLeft \<circ> snd) (fst s')) < sum_list (map (stepsLeft \<circ> snd) cs)"
proof -
  obtain c pc where ci: "cs ! i = (c, pc)" by fastforce
  obtain p st1 where b: "bindFlow (unat (fa_group c)) st = (p, st1)" by fastforce
  have "\<exists>pc' st'. flow_step (cs, st) (cs[i := (c, pc')], st') \<and> stepsLeft pc' < stepsLeft pc"
  proof (cases pc)
    case FLoad
    then show ?thesis using flow_step.load [OF assms(1), of c st] ci
      by (cases "loadShard (unat (fa_group c)) st") fastforce+
  qed (use flow_step.bnd [OF assms(1) _ b] flow_step.packets [OF assms(1)] flow_step.bytes [OF assms(1)] ci assms(2) in fastforce)+
  then obtain pc' st' where s: "flow_step (cs, st) (cs[i := (c, pc')], st')" "stepsLeft pc' < stepsLeft pc" by blast
  have "sum_list (map (stepsLeft \<circ> snd) (cs[i := (c, pc')])) < sum_list (map (stepsLeft \<circ> snd) cs)"
    using s(2) ci assms(1) elem_le_sum_list [of i "map (stepsLeft \<circ> snd) cs"]
    by (simp add: map_update sum_list_update)
  then show ?thesis using s(1) by force
qed

lemma flow_finishes: "\<exists>s'. flow_step\<^sup>*\<^sup>* s s' \<and> (\<forall>x \<in> set (fst s'). snd x = FDone)"
proof (induction "sum_list (map (stepsLeft \<circ> snd) (fst s))" arbitrary: s rule: less_induct)
  case less
  show ?case
  proof (cases "\<forall>x \<in> set (fst s). snd x = FDone")
    case False
    then obtain i where "i < length (fst s)" "snd (fst s ! i) \<noteq> FDone" by (metis in_set_conv_nth)
    from flow_progress [OF this, of "snd s"] obtain s1 where s1: "flow_step s s1"
      "sum_list (map (stepsLeft \<circ> snd) (fst s1)) < sum_list (map (stepsLeft \<circ> snd) (fst s))" by auto
    then show ?thesis using less [of s1] by (meson converse_rtranclp_into_rtranclp)
  qed (blast intro: rtranclp.rtrancl_refl)
qed

text \<open>The calls that count: those of the group by a worker of the configured range.\<close>

definition counted :: "nat \<Rightarrow> nat \<Rightarrow> flow_call \<Rightarrow> bool" where
  "counted nw g c \<longleftrightarrow> unat (fa_group c) = g \<and> 0 \<le> fa_worker c \<and> fa_worker c < int nw"

lemma sum_workers:
  fixes x :: u64
  shows "sum_list (map (\<lambda>w. if v = int w then x else 0) [0..<nw]) = (if 0 \<le> v \<and> v < int nw then x else 0)"
  by (induction nw) auto

lemma totals_done:
  assumes "\<forall>x \<in> set cs. snd x = FDone"
  shows "sum_list (map (\<lambda>w. sum_list (map (pktOf g (int w)) cs)) [0..<nw]) = of_nat (length (filter (counted nw g) (map fst cs))) \<and>
    sum_list (map (\<lambda>w. sum_list (map (bytOf g (int w)) cs)) [0..<nw]) = sum_list (map fa_size (filter (counted nw g) (map fst cs)))"
  using assms
proof (induction cs)
  case (Cons x cs)
  obtain c where x: "x = (c, FDone)" using Cons.prems by (cases x) auto
  have "(\<lambda>w. pktOf g (int w) x) = (\<lambda>w. if fa_worker c = int w then (if unat (fa_group c) = g then 1 else 0) else 0)"
    "(\<lambda>w. bytOf g (int w) x) = (\<lambda>w. if fa_worker c = int w then (if unat (fa_group c) = g then fa_size c else 0) else 0)"
    by (auto simp: x pktOf_def bytOf_def)
  then have "sum_list (map (\<lambda>w. pktOf g (int w) x) [0..<nw]) = (if counted nw g c then 1 else 0)"
    "sum_list (map (\<lambda>w. bytOf g (int w) x) [0..<nw]) = (if counted nw g c then fa_size c else 0)"
    by (simp_all only: sum_workers) (simp_all add: counted_def)
  with Cons show ?case by (simp add: sum_list_addf x)
qed (simp add: sum_list_0)

text \<open>C33.  No count of a flow is lost.  However the calls of \<^verbatim>\<open>addFlow\<close> on an interface interleave, step by step and with
  any number of goroutines binding new groups through copies of the table, they can all complete, and once they
  have, a scrape of a group reads exactly the number of its packets and the sum of its bytes (in 64 bits) over the
  calls made with a worker id of the configured range; a group nobody named has no series.  Calls with an id outside
  that range, such as the -1 of the TCP lanes, only create the series: they are not counted in it.\<close>

theorem flow_counts_exact:
  assumes "flow_step\<^sup>*\<^sup>* (map (\<lambda>c. (c, FLoad)) cs, newIfaceState iface numWorkers) s"
  shows "(\<exists>s'. flow_step\<^sup>*\<^sup>* s s' \<and> (\<forall>x \<in> set (fst s'). snd x = FDone)) \<and>
    ((\<forall>x \<in> set (fst s). snd x = FDone) \<longrightarrow>
     flowTotals g (snd s) =
       (if g \<in> (\<lambda>c. unat (fa_group c)) ` set cs
        then Some (of_nat (length (filter (counted (nat (max 1 numWorkers)) g) cs)),
                   sum_list (map fa_size (filter (counted (nat (max 1 numWorkers)) g) cs)))
        else None))"
proof (intro conjI impI flow_finishes)
  assume fin: "\<forall>x \<in> set (fst s). snd x = FDone"
  obtain ds st where s: "s = (ds, st)" by fastforce
  note r = flow_reach [OF assms, unfolded s]
  have nw: "is_numWorkers st = nat (max 1 numWorkers)" using r by (auto simp: newIfaceState_def Let_def)
  have bg: "boundGroups ds = (\<lambda>c. unat (fa_group c)) ` set cs"
  proof -
    have "filter (\<lambda>x. bound (snd x)) ds = ds" using fin s by (auto simp: filter_id_conv bound_def)
    then have "boundGroups ds = (\<lambda>c. unat (fa_group c)) ` set (map fst ds)" by (simp add: boundGroups_def image_image)
    moreover have "map fst ds = cs" using r by simp
    ultimately show ?thesis by (simp only:)
  qed
  have fi: "finv (ds, st)" using r by simp
  show "flowTotals g (snd s) = (if g \<in> (\<lambda>c. unat (fa_group c)) ` set cs
        then Some (of_nat (length (filter (counted (nat (max 1 numWorkers)) g) cs)),
                   sum_list (map fa_size (filter (counted (nat (max 1 numWorkers)) g) cs))) else None)"
  proof (cases "loadShard g st")
    case None
    then show ?thesis using finvD(2) [OF fi, of g] bg s by (simp add: flowTotals_def)
  next
    case (Some p)
    have len: "length (is_shards st ! p) = is_numWorkers st" using finvD(1) [OF fi] Some by (auto simp: shards_ok_def)
    have sh: "is_shards st ! p = map (\<lambda>w. \<lparr>fc_packets = sum_list (map (pktOf g (int w)) ds), fc_bytes = sum_list (map (bytOf g (int w)) ds)\<rparr>)
        [0..<is_numWorkers st]"
      using len finvD(4) [OF fi Some] by (intro nth_equalityI) simp_all
    have "g \<in> (\<lambda>c. unat (fa_group c)) ` set cs" using finvD(2) [OF fi, of g] Some bg by simp
    moreover have "map fst ds = cs" "\<forall>x \<in> set ds. snd x = FDone" using r fin s by simp_all
    ultimately show ?thesis using totals_done [of ds g "is_numWorkers st", unfolded nw] s Some
      by (simp add: flowTotals_def sh comp_def nw del: filter_map)
  qed
qed

theorem flow_counts_exact_witness:
  "let cs = [\<lparr>fa_worker = 0, fa_group = 5, fa_size = 100\<rparr>, \<lparr>fa_worker = 1, fa_group = 5, fa_size = 20\<rparr>,
             \<lparr>fa_worker = - 1, fa_group = 5, fa_size = 7\<rparr>, \<lparr>fa_worker = - 1, fa_group = 6, fa_size = 7\<rparr>] in
   \<exists>s. flow_step\<^sup>*\<^sup>* (map (\<lambda>c. (c, FLoad)) cs, newIfaceState ''eth0'' 2) s \<and>
     flowTotals 5 (snd s) = Some (2, 120) \<and> flowTotals 6 (snd s) = Some (0, 0) \<and> flowTotals 7 (snd s) = None"
proof -
  let ?cs = "[\<lparr>fa_worker = 0, fa_group = 5, fa_size = 100\<rparr>, \<lparr>fa_worker = 1, fa_group = 5, fa_size = 20\<rparr>,
             \<lparr>fa_worker = - 1, fa_group = 5, fa_size = 7\<rparr>, \<lparr>fa_worker = - 1, fa_group = 6, fa_size = 7\<rparr>]"
  let ?s0 = "(map (\<lambda>c. (c, FLoad)) ?cs, newIfaceState ''eth0'' 2)"
  have "flow_step\<^sup>*\<^sup>* ?s0 ?s0" by simp
  then obtain s where r: "flow_step\<^sup>*\<^sup>* ?s0 s" and d: "\<forall>x \<in> set (fst s). snd x = FDone"
    using flow_counts_exact [of ?cs "''eth0''" 2 ?s0] by blast
  have t: "flowTotals g (snd s) =
       (if g \<in> (\<lambda>c. unat (fa_group c)) ` set ?cs
        then Some (of_nat (length (filter (counted (nat (max 1 2)) g) ?cs)), sum_list (map fa_size (filter (counted (nat (max 1 2)) g) ?cs)))
        else None)" for g
    using flow_counts_exact [OF r, of g] d by blast
  have "flowTotals 5 (snd s) = Some (2, 120)" "flowTotals 6 (snd s) = Some (0, 0)" "flowTotals 7 (snd s) = None"
    unfolding t by (simp_all add: counted_def)
  then show ?thesis unfolding Let_def using r by blast
qed

end
