(* ===== verification/Registration.thy ===== *)
theory Registration
  imports Metrics
begin

text \<open>
  \<^verbatim>\<open>metrics.New\<close>: what the recorder registers, in the order it registers it, and what it gives back when a step
  fails; the calls of the recorder that no frame handler makes; the observable gauges; the shutdown functions; the
  routes of the HTTP server and the host-info gauge of \<^verbatim>\<open>metrics/hostinfo.go\<close>.  The Prometheus registry, the
  OpenTelemetry meter and the exporters are outside the program: their answers are the fields of \<open>telemetry\<close>.
\<close>

subsection \<open>Instruments and the libraries that create them\<close>

datatype instrument =
    CounterVec string "string list"
  | HistogramVec string "string list"
  | GaugeVec string "string list"
  | FlowDescs "(string \<times> string list) list"
  | Int64Counter string
  | Int64Histogram string
  | ObservableGauge string

fun namesOf :: "instrument \<Rightarrow> string list" where
  "namesOf (CounterVec n ls) = [n]"
| "namesOf (HistogramVec n ls) = [n]"
| "namesOf (GaugeVec n ls) = [n]"
| "namesOf (FlowDescs ds) = map fst ds"
| "namesOf (Int64Counter n) = [n]"
| "namesOf (Int64Histogram n) = [n]"
| "namesOf (ObservableGauge n) = [n]"

text \<open>An answer is the error, or \<^const>\<open>None\<close>.  The registry and the meter are asked with what they hold already.\<close>

record telemetry =
  te_Hostname :: "string option"
  te_resource :: "(string \<times> string) list \<Rightarrow> string option"
  te_promExporter :: "string option"
  te_otlpExporter :: "string \<Rightarrow> string option"
  te_Register :: "instrument list \<Rightarrow> instrument \<Rightarrow> string option"
  te_instrument :: "instrument list \<Rightarrow> instrument \<Rightarrow> string option"

fun addAll :: "('a list \<Rightarrow> 'a \<Rightarrow> string option) \<Rightarrow> string \<Rightarrow> 'a list \<Rightarrow> 'a list \<Rightarrow> string + 'a list" where
  "addAll accept msg [] held = Inr held"
| "addAll accept msg (c # cs) held =
     (case accept held c of Some e \<Rightarrow> Inl (msg @ e) | None \<Rightarrow> addAll accept msg cs (held @ [c]))"

subsection \<open>What is registered\<close>

definition ServiceName :: string where "ServiceName = ''shard-proxy''"

definition workerLabels :: "string list" where "workerLabels = [''worker'', ''network_interface_name'']"

definition hotPathVecs :: "instrument list" where
  "hotPathVecs =
     [CounterVec ''bsp_packets_received_total'' workerLabels,
      CounterVec ''bsp_bytes_received_total'' workerLabels,
      CounterVec ''bsp_packets_dropped_total'' (workerLabels @ [''reason'']),
      HistogramVec ''bsp_packet_size_bytes'' workerLabels,
      CounterVec ''bsp_packets_forwarded_total'' workerLabels,
      CounterVec ''bsp_bytes_forwarded_total'' workerLabels,
      CounterVec ''bsp_egress_errors_total'' workerLabels,
      CounterVec ''bsp_ingress_errors_total'' workerLabels,
      CounterVec ''bsp_ingress_class_bytes_total'' [''class'', ''tier''],
      CounterVec ''bsp_ingress_class_packets_total'' [''class'', ''tier'']]"

definition flowDescs :: "(string \<times> string list) list" where
  "flowDescs = [(''bsp_flow_packets_total'', [''network_interface_name'', ''group'']),
                (''bsp_flow_bytes_total'', [''network_interface_name'', ''group''])]"

text \<open>\<^verbatim>\<open>Describe\<close> of the flow collector.\<close>

definition Describe :: "string list" where "Describe = map fst flowDescs"

definition processGauges :: "instrument list" where
  "processGauges = [ObservableGauge ''bsp_active_groups'', ObservableGauge ''bsp_workers_active'', ObservableGauge ''bsp_uptime_seconds'']"

definition manifestInstruments :: "instrument list" where
  "manifestInstruments =
     [Int64Counter ''multicast_manifest_divergence_total'',
      Int64Counter ''multicast_manifest_adoption_total'',
      Int64Counter ''multicast_manifest_resharding_emit_duplicates_total'',
      ObservableGauge ''multicast_manifest_received_total'',
      ObservableGauge ''multicast_manifest_pilots_known'',
      ObservableGauge ''multicast_manifest_quorum_met_bits'',
      ObservableGauge ''multicast_manifest_last_divergence_epoch'',
      ObservableGauge ''multicast_manifest_resharding_state'',
      ObservableGauge ''multicast_manifest_resharding_window_seconds'']"

definition coalesceInstruments :: "instrument list" where
  "coalesceInstruments =
     [Int64Counter ''bsp_frames_fragmented_total'',
      Int64Counter ''bsp_fragments_emitted_total'',
      Int64Counter ''bsp_coalesce_bundles_total'',
      Int64Counter ''bsp_coalesce_members_total'',
      Int64Counter ''bsp_coalesce_flush_total'',
      Int64Histogram ''bsp_coalesce_members_per_bundle'']"

definition planeInstruments :: "instrument list" where
  "planeInstruments =
     [Int64Counter ''bsp_tee_failed_total'',
      Int64Counter ''bsp_control_frames_forwarded_total'',
      Int64Counter ''bsp_tcp_connections_total'',
      Int64Counter ''bsp_tcp_bytes_received_total'',
      Int64Counter ''bsp_ingress_deduped_total'',
      Int64Counter ''bsp_privileged_frame_rejected_total'',
      Int64Counter ''bsp_block_pow_rejected_total'',
      Int64Counter ''bsp_subtree_root_checks_total'',
      Int64Counter ''bsp_beef_submissions_total'',
      Int64Counter ''bsp_beef_topics_total'']"

definition txidVecs :: "instrument list" where
  "txidVecs =
     [CounterVec ''bsp_txid_claim_local_hit_total'' [''prefix''],
      CounterVec ''bsp_txid_claim_won_total'' [''prefix''],
      CounterVec ''bsp_txid_claim_lost_total'' [''prefix''],
      CounterVec ''bsp_txid_claim_errors_total'' [''prefix'']]"

subsection \<open>The constructor\<close>

datatype shutdown_fn = ExporterShutdown | ProviderShutdown

record metrics_rt =
  mt_rec :: Recorder
  mt_instance :: string
  mt_prom :: "instrument list"
  mt_otel :: "instrument list"
  mt_shutdown :: "shutdown_fn list"

definition instanceName :: "telemetry \<Rightarrow> string \<Rightarrow> string" where
  "instanceName te instanceID =
     (if instanceID = [] then (case te_Hostname te of None \<Rightarrow> ''unknown'' | Some h \<Rightarrow> h) else instanceID)"

definition metrics_New :: "telemetry \<Rightarrow> string \<Rightarrow> string \<Rightarrow> int \<Rightarrow> string \<Rightarrow> string + metrics_rt" where
  "metrics_New te version instanceID numWorkers otlpEndpoint =
     (let inst = instanceName te instanceID in
      case te_resource te [(''service.name'', ServiceName), (''service.instance.id'', inst), (''service.version'', version)] of
        Some e \<Rightarrow> Inl (''metrics: build resource: '' @ e)
      | None \<Rightarrow>
      case te_promExporter te of
        Some e \<Rightarrow> Inl (''metrics: prometheus exporter: '' @ e)
      | None \<Rightarrow>
      case (if otlpEndpoint = [] then None else te_otlpExporter te otlpEndpoint) of
        Some e \<Rightarrow> Inl (''metrics: OTLP exporter: '' @ e)
      | None \<Rightarrow>
      case addAll (te_Register te) ''metrics: register hot-path counter: '' (hotPathVecs @ [FlowDescs flowDescs]) [] of
        Inl e \<Rightarrow> Inl e
      | Inr prom \<Rightarrow>
      case addAll (te_instrument te) [] (processGauges @ manifestInstruments @ coalesceInstruments @ planeInstruments) [] of
        Inl e \<Rightarrow> Inl e
      | Inr otel \<Rightarrow>
      case addAll (te_Register te) ''metrics: register txid-claim counter: '' txidVecs prom of
        Inl e \<Rightarrow> Inl e
      | Inr prom2 \<Rightarrow>
          Inr \<lparr>mt_rec = newRecorder numWorkers, mt_instance = inst, mt_prom = prom2, mt_otel = otel,
               mt_shutdown = (if otlpEndpoint = [] then [] else [ExporterShutdown]) @ [ProviderShutdown]\<rparr>)"

subsection \<open>Calls outside the frame handlers\<close>

definition rec_TxidClaimLocalHit :: "string \<Rightarrow> Recorder \<Rightarrow> Recorder" where
  "rec_TxidClaimLocalHit pfx r = calls [CounterAdd (''bsp_txid_claim_local_hit_total'', [pfx]) 1] r"

definition rec_TxidClaimWon :: "string \<Rightarrow> Recorder \<Rightarrow> Recorder" where
  "rec_TxidClaimWon pfx r = calls [CounterAdd (''bsp_txid_claim_won_total'', [pfx]) 1] r"

definition rec_TxidClaimLost :: "string \<Rightarrow> Recorder \<Rightarrow> Recorder" where
  "rec_TxidClaimLost pfx r = calls [CounterAdd (''bsp_txid_claim_lost_total'', [pfx]) 1] r"

definition rec_TxidClaimError :: "string \<Rightarrow> Recorder \<Rightarrow> Recorder" where
  "rec_TxidClaimError pfx r = calls [CounterAdd (''bsp_txid_claim_errors_total'', [pfx]) 1] r"

definition rec_ManifestReshardEmitDuplicate :: "Recorder \<Rightarrow> Recorder" where
  "rec_ManifestReshardEmitDuplicate r = calls [OtelAdd ''multicast_manifest_resharding_emit_duplicates_total'' 1 []] r"

text \<open>\<^verbatim>\<open>txidsetRecorder\<close> of \<^verbatim>\<open>main.go\<close>: the store's callbacks, of which those for marks do nothing.\<close>

datatype txid_callback =
    ClaimLocalHit string | ClaimWon string | ClaimLost string | ClaimError string
  | MarkSet string | MarkExisted string | MarkError string | MarkDropped string

fun txidsetRecorder :: "txid_callback \<Rightarrow> Recorder \<Rightarrow> Recorder" where
  "txidsetRecorder (ClaimLocalHit p) = rec_TxidClaimLocalHit p"
| "txidsetRecorder (ClaimWon p) = rec_TxidClaimWon p"
| "txidsetRecorder (ClaimLost p) = rec_TxidClaimLost p"
| "txidsetRecorder (ClaimError p) = rec_TxidClaimError p"
| "txidsetRecorder (MarkSet p) = id"
| "txidsetRecorder (MarkExisted p) = id"
| "txidsetRecorder (MarkError p) = id"
| "txidsetRecorder (MarkDropped p) = id"

datatype any_op = Method rec_op | Callback txid_callback | ReshardDuplicate

fun anyOp :: "any_op \<Rightarrow> Recorder \<Rightarrow> Recorder" where
  "anyOp (Method op) = recOp op"
| "anyOp (Callback c) = txidsetRecorder c"
| "anyOp ReshardDuplicate = rec_ManifestReshardEmitDuplicate"

subsection \<open>Observable gauges\<close>

text \<open>What a collection observes.  The uptime is given as it is read.\<close>

definition gaugeValues :: "int \<Rightarrow> Recorder \<Rightarrow> (string \<times> int \<times> (string \<times> attr) list) list" where
  "gaugeValues uptime r =
     map (\<lambda>(iface, st). (''bsp_active_groups'', int (activeGroups st), [ifaceAttr iface])) (rc_ifaceStates r) @
     [(''bsp_workers_active'', sint (rc_readyCount r), []),
      (''bsp_uptime_seconds'', uptime, []),
      (''multicast_manifest_received_total'', rc_manifestReceived r, []),
      (''multicast_manifest_pilots_known'', rc_manifestPilotsKnown r, []),
      (''multicast_manifest_quorum_met_bits'', rc_manifestQuorumMetBits r, [])] @
     map (\<lambda>(f, ts). (''multicast_manifest_last_divergence_epoch'', ts, [(''field'', AStr f)])) (rc_lastDivergence r) @
     [(''multicast_manifest_resharding_state'', rc_manifestReshardState r, []),
      (''multicast_manifest_resharding_window_seconds'', rc_manifestReshardWindow r, [])]"

subsection \<open>Shutdown\<close>

text \<open>Every function runs, also after one has failed, and the last error is the result.  What a function does to the
  exporter and the provider is an argument.\<close>

definition shutdownFn :: "(shutdown_fn \<Rightarrow> 's \<Rightarrow> string option \<times> 's) \<Rightarrow> shutdown_fn list \<Rightarrow> 's \<Rightarrow> string option \<times> 's" where
  "shutdownFn run fns s0 =
     fold (\<lambda>fn (lst, s). case run fn s of (None, s') \<Rightarrow> (lst, s') | (Some e, s') \<Rightarrow> (Some e, s')) fns (None, s0)"

lemma shutdown_result:
  "shutdownFn run (fns @ [fn]) s =
     (case shutdownFn run fns s of (lst, s1) \<Rightarrow> case run fn s1 of (None, s2) \<Rightarrow> (lst, s2) | (Some e, s2) \<Rightarrow> (Some e, s2))"
  by (simp add: shutdownFn_def)

subsection \<open>The HTTP server\<close>

datatype route = MetricsPage | HealthzPage | ReadyzPage | LogLevelPage | PprofPage | PprofRedirect | NotFound

text \<open>The route of a request for a clean path.  A pattern that ends in a slash stands for the whole subtree, and the
  path without the slash is redirected to it.\<close>

definition muxRoute :: "bool \<Rightarrow> bool \<Rightarrow> string \<Rightarrow> route" where
  "muxRoute hasLevel pprof path =
     (if path = ''/metrics'' then MetricsPage
      else if path = ''/healthz'' then HealthzPage
      else if path = ''/readyz'' then ReadyzPage
      else if hasLevel \<and> path = ''/loglevel'' then LogLevelPage
      else if pprof \<and> take 13 path = ''/debug/pprof/'' then PprofPage
      else if pprof \<and> path = ''/debug/pprof'' then PprofRedirect
      else NotFound)"

lemma pprof_gated: "muxRoute hasLevel False path \<notin> {PprofPage, PprofRedirect}"
  by (simp add: muxRoute_def)

definition handleHealthz :: "string \<Rightarrow> nat \<times> string" where
  "handleHealthz uptime = (200, ''{\"status\":\"ok\",\"uptime_seconds\":'' @ uptime @ ''}'')"

subsection \<open>Host information\<close>

record host_iface =
  hi_Name :: string
  hi_OperState :: string
  hi_IPv4 :: "string list"
  hi_IPv6 :: "string list"
  hi_SpeedMbps :: int

record inventory =
  iv_Hostname :: string
  iv_KernelVersion :: string
  iv_CPULogical :: int
  iv_MemTotalBytes :: u64
  iv_rmem_max :: string
  iv_Version :: string
  iv_Interfaces :: "host_iface list"

definition primaryNIC :: "host_iface list \<Rightarrow> string \<times> string" where
  "primaryNIC ifs =
     (case filter (\<lambda>i. hi_OperState i = ''up'' \<and> (hi_IPv4 i \<noteq> [] \<or> hi_IPv6 i \<noteq> [])) ifs of
        [] \<Rightarrow> ([], [])
      | i # is \<Rightarrow> (hi_Name i, if hi_SpeedMbps i > 0 then Itoa (hi_SpeedMbps i) else []))"

definition hostInfoLabels :: "string list" where
  "hostInfoLabels = [''hostname'', ''kernel_version'', ''cpu_logical'', ''mem_bytes'', ''rmem_max'', ''nic'', ''speed_mbps'', ''version'']"

text \<open>The one series it sets to 1, unless the registry refuses the gauge.\<close>

definition SetHostInfo :: "telemetry \<Rightarrow> inventory \<Rightarrow> metrics_rt \<Rightarrow> handle option \<times> metrics_rt" where
  "SetHostInfo te hw m =
     (let g = GaugeVec ''bsp_host_info'' hostInfoLabels; (nic, speed) = primaryNIC (iv_Interfaces hw)
      in case te_Register te (mt_prom m) g of
           Some e \<Rightarrow> (None, m)
         | None \<Rightarrow> (Some (''bsp_host_info'', [iv_Hostname hw, iv_KernelVersion hw, Itoa (iv_CPULogical hw),
                                            baseDigits 10 (unat (iv_MemTotalBytes hw)), iv_rmem_max hw, nic, speed, iv_Version hw]),
                    m\<lparr>mt_prom := mt_prom m @ [g]\<rparr>))"

subsection \<open>Every call finds its instrument\<close>

text \<open>The grammar of names: that of Prometheus, and that of OpenTelemetry, which allows no colon and no leading
  underscore.\<close>

definition nameChar :: "char \<Rightarrow> bool" where
  "nameChar c \<longleftrightarrow> (let n = of_char c :: nat in 97 \<le> n \<and> n \<le> 122 \<or> 65 \<le> n \<and> n \<le> 90 \<or> 48 \<le> n \<and> n \<le> 57 \<or> c = CHR ''_'')"

definition validName :: "string \<Rightarrow> bool" where
  "validName s \<longleftrightarrow> s \<noteq> [] \<and> list_all nameChar s \<and> (let n = of_char (hd s) :: nat in 97 \<le> n \<and> n \<le> 122) \<and> length s \<le> 255"

fun labelsOf :: "instrument \<Rightarrow> string list" where
  "labelsOf (CounterVec n ls) = ls"
| "labelsOf (HistogramVec n ls) = ls"
| "labelsOf (GaugeVec n ls) = ls"
| "labelsOf (FlowDescs ds) = concat (map snd ds)"
| "labelsOf _ = []"

definition validInstrument :: "instrument \<Rightarrow> bool" where
  "validInstrument c \<longleftrightarrow> list_all validName (namesOf c) \<and> list_all validName (labelsOf c) \<and> distinct (namesOf c)"

text \<open>What the libraries document: exporters that can be built, a registry and a meter that refuse no valid instrument
  whose names they do not hold.\<close>

definition accepts :: "(instrument list \<Rightarrow> instrument \<Rightarrow> string option) \<Rightarrow> bool" where
  "accepts ask \<longleftrightarrow> (\<forall>held c. validInstrument c \<longrightarrow> set (namesOf c) \<inter> set (concat (map namesOf held)) = {} \<longrightarrow> ask held c = None)"

definition telemetry_ok :: "telemetry \<Rightarrow> bool" where
  "telemetry_ok te \<longleftrightarrow> (\<forall>attrs. te_resource te attrs = None) \<and> te_promExporter te = None \<and> (\<forall>ep. te_otlpExporter te ep = None) \<and>
     accepts (te_Register te) \<and> accepts (te_instrument te)"

text \<open>A call on a vector must give as many values as the vector has labels (\<^verbatim>\<open>WithLabelValues\<close> panics otherwise).\<close>

fun declared :: "metrics_rt \<Rightarrow> inst_call \<Rightarrow> bool" where
  "declared m (CounterAdd h n) \<longleftrightarrow> (\<exists>ls. CounterVec (fst h) ls \<in> set (mt_prom m) \<and> length (snd h) = length ls)"
| "declared m (Observe h n) \<longleftrightarrow> (\<exists>ls. HistogramVec (fst h) ls \<in> set (mt_prom m) \<and> length (snd h) = length ls)"
| "declared m (OtelAdd name k ats) \<longleftrightarrow> Int64Counter name \<in> set (mt_otel m)"
| "declared m (OtelRecord name k ats) \<longleftrightarrow> Int64Histogram name \<in> set (mt_otel m)"

definition flowDeclared :: "metrics_rt \<Rightarrow> handle \<Rightarrow> bool" where
  "flowDeclared m h \<longleftrightarrow> (\<exists>ds ls. FlowDescs ds \<in> set (mt_prom m) \<and> (fst h, ls) \<in> set ds \<and> length (snd h) = length ls)"

lemma addAll_accepts:
  assumes "accepts ask" "list_all validInstrument cs" "distinct (concat (map namesOf (held @ cs)))"
  shows "addAll ask msg cs held = Inr (held @ cs)"
  using assms(2,3)
proof (induction cs arbitrary: held)
  case (Cons c cs)
  have "set (namesOf c) \<inter> set (concat (map namesOf held)) = {}" "validInstrument c" using Cons.prems by auto
  then have "ask held c = None" using assms(1) unfolding accepts_def by blast
  then show ?case using Cons.IH [of "held @ [c]"] Cons.prems by simp
qed simp

lemma instruments_valid:
  "list_all validInstrument (hotPathVecs @ [FlowDescs flowDescs] @ txidVecs)"
  "list_all validInstrument (processGauges @ manifestInstruments @ coalesceInstruments @ planeInstruments)"
  by code_simp+

lemma instruments_distinct:
  "distinct (concat (map namesOf (hotPathVecs @ [FlowDescs flowDescs] @ txidVecs)))"
  "distinct (concat (map namesOf (processGauges @ manifestInstruments @ coalesceInstruments @ planeInstruments)))"
  by code_simp+

lemma New_succeeds:
  assumes "telemetry_ok te"
  shows "\<exists>m. metrics_New te version inst n otlp = Inr m \<and> mt_rec m = newRecorder n \<and>
    mt_prom m = hotPathVecs @ [FlowDescs flowDescs] @ txidVecs \<and>
    mt_otel m = processGauges @ manifestInstruments @ coalesceInstruments @ planeInstruments"
proof -
  have a: "accepts (te_Register te)" "accepts (te_instrument te)" using assms by (simp_all add: telemetry_ok_def)
  note v = instruments_valid instruments_distinct
  have "list_all validInstrument (hotPathVecs @ [FlowDescs flowDescs])" "list_all validInstrument txidVecs"
    "distinct (concat (map namesOf ([] @ hotPathVecs @ [FlowDescs flowDescs])))"
    "distinct (concat (map namesOf ((hotPathVecs @ [FlowDescs flowDescs]) @ txidVecs)))"
    "distinct (concat (map namesOf ([] @ processGauges @ manifestInstruments @ coalesceInstruments @ planeInstruments)))"
    using v by (auto simp del: namesOf.simps)
  note r = this
  show ?thesis using assms addAll_accepts [OF a(1) r(1,3)] addAll_accepts [OF a(1) r(2,4)] addAll_accepts [OF a(2) v(2) r(5)]
    by (simp add: metrics_New_def telemetry_ok_def Let_def del: addAll.simps)
qed

text \<open>The calls of an operation, and that each names an instrument.\<close>

definition opCalls :: "any_op \<Rightarrow> inst_call list" where
  "opCalls op = (case op of Method m \<Rightarrow> directCalls m | _ \<Rightarrow> rc_calls (anyOp op (newRecorder 0)))"

lemma anyOp_calls: "caches_ok r \<Longrightarrow> rc_calls (anyOp op r) = rc_calls r @ opCalls op \<and> caches_ok (anyOp op r)"
proof (cases op)
  case (Callback c)
  assume "caches_ok r"
  then show ?thesis using Callback
    by (cases c) (simp_all add: opCalls_def newRecorder_def rec_TxidClaimLocalHit_def rec_TxidClaimWon_def rec_TxidClaimLost_def rec_TxidClaimError_def)
qed (simp_all add: opCalls_def recOp_direct rec_ManifestReshardEmitDuplicate_def newRecorder_def)

lemma anyOps_calls:
  "caches_ok r \<Longrightarrow> rc_calls (fold anyOp ops r) = rc_calls r @ concat (map opCalls ops)"
proof (induction ops arbitrary: r)
  case (Cons op ops)
  then show ?case using anyOp_calls [of r op] by simp
qed simp

lemmas record_defs = rec_PacketDropped_def rec_FrameFragmented_def rec_TeeFailed_def rec_ControlFrameForwarded_def
  rec_IngressDeduped_def rec_IngressMetered_def rec_PrivilegedFrameRejected_def rec_BlockPoWRejected_def rec_SubtreeRootCheck_def
  rec_BEEFSubmission_def rec_BEEFTopics_def rec_TCPConnectionAccepted_def rec_TCPBytesReceived_def rec_IngressError_def
  rec_EgressError_def rec_WorkerReady_def rec_WorkerDone_def rec_TCPIngressReady_def

lemmas registered_defs = hotPathVecs_def txidVecs_def workerLabels_def processGauges_def manifestInstruments_def
  coalesceInstruments_def planeInstruments_def

lemma opCalls_declared:
  assumes "mt_prom m = hotPathVecs @ [FlowDescs flowDescs] @ txidVecs"
    "mt_otel m = processGauges @ manifestInstruments @ coalesceInstruments @ planeInstruments"
  shows "list_all (declared m) (opCalls op)"
proof (cases op)
  case (Method q)
  show ?thesis
  proof (cases q)
    case (OpEvent ev)
    then show ?thesis using Method assms
      by (cases ev) (simp_all add: opCalls_def directCalls_def recordEvent_def newRecorder_def calls_def record_defs
          registered_defs bundleCalls_def Let_def)
  next
    case (OpManifest now ev)
    then show ?thesis using Method assms
      by (cases ev) (simp_all add: opCalls_def directCalls_def recordManifest_def newRecorder_def calls_def registered_defs)
  qed (use Method in \<open>simp_all add: opCalls_def directCalls_def newRecorder_def RequireTCPIngress_def SetDraining_def\<close>)
next
  case (Callback c)
  then show ?thesis using assms
    by (cases c) (simp_all add: opCalls_def newRecorder_def calls_def registered_defs rec_TxidClaimLocalHit_def
        rec_TxidClaimWon_def rec_TxidClaimLost_def rec_TxidClaimError_def)
next
  case ReshardDuplicate
  then show ?thesis using assms by (simp add: opCalls_def newRecorder_def calls_def registered_defs rec_ManifestReshardEmitDuplicate_def)
qed

lemma Collect_declared:
  assumes "mt_prom m = hotPathVecs @ [FlowDescs flowDescs] @ txidVecs"
  shows "\<forall>(h, v) \<in> set (Collect r). flowDeclared m h"
  using assms by (auto simp: Collect_def flowDeclared_def flowDescs_def split: option.splits)


text \<open>A registry that refuses exactly the names it holds.\<close>

definition sampleRegistry :: "instrument list \<Rightarrow> instrument \<Rightarrow> string option" where
  "sampleRegistry held c =
     (if list_ex (\<lambda>n. n \<in> set (concat (map namesOf held))) (namesOf c) then Some ''duplicate metrics collector registration attempted''
      else None)"

definition sampleTelemetry :: telemetry where
  "sampleTelemetry = \<lparr>te_Hostname = Some ''node1'', te_resource = (\<lambda>_. None), te_promExporter = None, te_otlpExporter = (\<lambda>_. None),
     te_Register = sampleRegistry, te_instrument = sampleRegistry\<rparr>"

lemma sample_telemetry_ok: "telemetry_ok sampleTelemetry"
  by (auto simp: telemetry_ok_def sampleTelemetry_def accepts_def sampleRegistry_def list_ex_iff disjoint_iff)


text \<open>The exporter is shut down before the provider that would flush through it.\<close>

lemma exporter_closed_first:
  assumes "metrics_New te version inst n otlp = Inr m" "otlp \<noteq> []"
  shows "mt_shutdown m = [ExporterShutdown, ProviderShutdown]"
  using assms by (auto simp: metrics_New_def Let_def split: option.splits sum.splits)


lemma New_rec: "metrics_New te version inst n otlp = Inr m \<Longrightarrow> mt_rec m = newRecorder n"
  by (auto simp: metrics_New_def Let_def split: option.splits sum.splits)


lemma SetHostInfo_rec [simp]: "mt_rec (snd (SetHostInfo te hw m)) = mt_rec m"
  by (simp add: SetHostInfo_def Let_def split: prod.split option.split)

end
