(* ===== verification/Wiring.thy ===== *)
theory Wiring
  imports ObjIngress Config Registration
begin

text \<open>
  \<^verbatim>\<open>main.go\<close>: how the process puts its parts together.  Start-up is a function from the environment and the
  command line to the parts it starts, or to the message it exits with; the hooks the manifest applier gets are
  functions on the restart request, the restart channel (a flag: its buffer holds one value) and the state of
  the forwarder.  The constructors of shard-common, the telemetry libraries and the host inventory are arguments.
  Logging and tracing are not modelled.
\<close>

subsection \<open>Start-up\<close>

record main_lib =
  ml_cfg :: cfg_lib
  ml_InterfaceByName :: "string \<Rightarrow> iface option"
  ml_shardNew :: "u16 \<Rightarrow> u16 \<Rightarrow> nat \<Rightarrow> engine"
  ml_NewPlane :: "u16 \<Rightarrow> u16 \<Rightarrow> nat \<Rightarrow> (bytes \<Rightarrow> u32) option"
  ml_openStore :: "Config \<Rightarrow> claim_store option"
  ml_telemetry :: telemetry
  ml_version :: string
  ml_inventory :: inventory

fun resolveIfaces :: "main_lib \<Rightarrow> string list \<Rightarrow> string + iface list" where
  "resolveIfaces ml [] = Inr []"
| "resolveIfaces ml (name # names) =
     (case ml_InterfaceByName ml name of
        None \<Rightarrow> Inl ''multicast interface not found''
      | Some i \<Rightarrow> (case resolveIfaces ml names of Inl e \<Rightarrow> Inl e | Inr is \<Rightarrow> Inr (i # is)))"

definition setFlags :: "lib \<Rightarrow> Config \<Rightarrow> (bytes \<Rightarrow> u32) \<Rightarrow> Forwarder \<Rightarrow> Forwarder" where
  "setFlags L cfg plane fw0 =
     (let fw = SetBEEF plane (cf_BEEFMaxObjectBytes cfg)
                 (SetVerifySubtreeRoot (cf_VerifySubtreeRoot cfg)
                 (SetAllowStampedIngress (cf_AllowStampedIngress cfg)
                 (SetVerifyPayloadHash (cf_VerifyPayloadHash cfg)
                 (SetRequireEF (cf_RequireEF cfg)
                 (SetEgressLoop (cf_EgressLoop cfg)
                 (SetEgressHopLimit (cf_EgressHopLimit cfg) fw0))))));
          fw1 = (if cf_RequireBlockPoW cfg then SetBlockPoW L True (cf_MinPoWBits cfg) fw else fw);
          fw2 = (if cf_FragMTU cfg > 0 then SetFragMTU (cf_FragMTU cfg) fw1 else fw1)
      in if cf_Coalesce cfg
         then SetCoalesce True (cf_CoalesceMaxBytes cfg) (cf_CoalesceMaxMembers cfg) (cf_CoalesceCarryTxid cfg) fw2
         else fw2)"

definition setSource :: "main_lib \<Rightarrow> Config \<Rightarrow> Forwarder \<Rightarrow> string + Forwarder" where
  "setSource ml cfg fw =
     (if cf_BindSource cfg \<noteq> [] then
        (let ip = cl_ParseIP (ml_cfg ml) (cf_BindSource cfg)
         in if ip = [] \<or> To4 ip \<noteq> [] then Inl ''invalid bind-source (must be IPv6)''
            else Inr (SetStampSource (cf_StampSource cfg) (SetBindSource (Some ip) fw)))
      else Inr (SetStampSource (cf_StampSource cfg) fw))"

definition setDedup :: "main_lib \<Rightarrow> Config \<Rightarrow> Forwarder \<Rightarrow> string + Forwarder" where
  "setDedup ml cfg fw =
     (if cf_TxidDedupEnabled cfg \<and> cf_TxidDedupLocalCap cfg > 0 then
        (case ml_openStore ml cfg of
           None \<Rightarrow> Inl ''txid dedup init failed''
         | Some store \<Rightarrow> Inr (SetTxidDedup (Some store) (cf_TxidDedupPrefix cfg) fw))
      else Inr fw)"

definition newForwarder :: "lib \<Rightarrow> main_lib \<Rightarrow> Config \<Rightarrow> string + Forwarder" where
  "newForwarder L ml cfg =
     (case ml_NewPlane ml (cf_MCPrefix cfg) (cf_MCGroupID cfg) (cf_BEEFShardBits cfg) of
        None \<Rightarrow> Inl ''beef plane engine''
      | Some plane \<Rightarrow>
          let engine = ml_shardNew ml (cf_MCPrefix cfg) (cf_MCGroupID cfg) (cf_ShardBits cfg);
              fw = setFlags L cfg plane (New engine (cf_MCPrefix cfg) (cf_MCGroupID cfg) (cf_EgressPort cfg) (cf_Debug cfg) True)
          in andThen (setSource ml cfg fw) (setDedup ml cfg))"

definition userClass :: IngressClass where "userClass = IngressTransaction"

definition newWorkers :: "Config \<Rightarrow> iface list \<Rightarrow> Worker list" where
  "newWorkers cfg ifaces =
     map (\<lambda>i. worker_SetRetryTee (cf_RetryTee cfg) (worker_SetIngressClass userClass
            (SetRecvBufBytes (cf_RecvBufBytes cfg) (SetRecvBatch (cf_RecvBatch cfg) (worker_New (int i) ifaces True)))))
       [0..<nat (cf_NumWorkers cfg)]"

definition newTCP :: "Config \<Rightarrow> iface list \<Rightarrow> (int \<times> TCPIngress) list" where
  "newTCP cfg ifaces =
     (if cf_TCPListenPort cfg > 0
      then [(cf_TCPListenPort cfg, tcp_SetIngressClass userClass (tcp_SetRetryTee (cf_RetryTee cfg) (NewTCPIngress ifaces True)))]
      else [])"

definition pushLanes :: "Config \<Rightarrow> iface list \<Rightarrow> (int \<times> ObjectIngress) list" where
  "pushLanes cfg ifaces =
     (if cf_SubtreeListenPort cfg > 0
      then [(cf_SubtreeListenPort cfg, obj_SetRetryTee (cf_RetryTee cfg) (NewObjectIngress ifaces True ClassSubtree))] else []) @
     (if cf_BlockListenPort cfg > 0 then [(cf_BlockListenPort cfg, NewObjectIngress ifaces True ClassBlock)] else []) @
     (if cf_BEEFListenPort cfg > 0 then [(cf_BEEFListenPort cfg, NewObjectIngress ifaces True ClassBEEF)] else [])"

definition manifestListener :: "lib \<Rightarrow> main_lib \<Rightarrow> Config \<Rightarrow> iface list \<Rightarrow> string + Listener option" where
  "manifestListener L ml cfg ifaces =
     (if \<not> cf_AutoConfigEnabled cfg then Inr None
      else case ManifestBeaconGroupPrefixes (ml_cfg ml) cfg of
             Inl e \<Rightarrow> Inl ''manifest beacon group derivation failed''
           | Inr ps \<Rightarrow>
               let groups = map (\<lambda>p. \<lparr>ua_ip = shard_GroupAddr L p (cf_MCGroupID cfg) GroupBeacon,
                                       ua_port = cf_AutoConfigBeaconPort cfg, ua_zone = []\<rparr>) ps
               in Inr (Some \<lparr>l_Group = hd groups, l_Groups = groups,
                             l_Iface = (case ifaces of [] \<Rightarrow> None | i # is \<Rightarrow> Some i), l_Sources = []\<rparr>))"

record Proxy =
  px_cfg :: Config
  px_fwd :: Forwarder
  px_metrics :: metrics_rt
  px_rec :: Recorder
  px_workers :: "Worker list"
  px_tcp :: "(int \<times> TCPIngress) list"
  px_lanes :: "(int \<times> ObjectIngress) list"
  px_manifest :: "Listener option"

definition assemble :: "lib \<Rightarrow> main_lib \<Rightarrow> Config \<Rightarrow> string + Proxy" where
  "assemble L ml cfg =
     (case resolveIfaces ml (cf_EgressIfaces cfg) of
        Inl e \<Rightarrow> Inl e
      | Inr ifaces \<Rightarrow>
     (case metrics_New (ml_telemetry ml) (ml_version ml) (cf_InstanceID cfg) (cf_NumWorkers cfg) (cf_OTLPEndpoint cfg) of
        Inl e \<Rightarrow> Inl ''metrics init failed''
      | Inr mt0 \<Rightarrow>
          let mt = snd (SetHostInfo (ml_telemetry ml) (ml_inventory ml) mt0) in
     (case newForwarder L ml cfg of
        Inl e \<Rightarrow> Inl e
      | Inr fwd \<Rightarrow>
          let tcp = newTCP cfg ifaces;
              rec = (if tcp \<noteq> [] then RequireTCPIngress (mt_rec mt) else mt_rec mt) in
     (case manifestListener L ml cfg ifaces of
        Inl e \<Rightarrow> Inl e
      | Inr ml' \<Rightarrow>
          Inr \<lparr>px_cfg = cfg, px_fwd = fwd, px_metrics = mt, px_rec = rec, px_workers = newWorkers cfg ifaces, px_tcp = tcp,
               px_lanes = pushLanes cfg ifaces, px_manifest = ml'\<rparr>))))"

definition main_setup :: "lib \<Rightarrow> main_lib \<Rightarrow> environ \<Rightarrow> cmdline \<Rightarrow> string + Proxy" where
  "main_setup L ml env fl = andThen (Load (ml_cfg ml) env fl) (assemble L ml)"

subsection \<open>The hooks of the manifest applier\<close>

record main_state =
  ms_restart :: RestartRequest
  ms_sig :: bool
  ms_fwd :: fstate

definition requestRestart :: "string \<Rightarrow> main_state \<Rightarrow> main_state" where
  "requestRestart reason m = m\<lparr>ms_restart := Request reason (ms_restart m), ms_sig := True\<rparr>"

definition successorBridge :: "main_lib \<Rightarrow> Config \<Rightarrow> SuccessorView option \<Rightarrow> BridgingEngine option" where
  "successorBridge ml cfg after =
     (case after of
        None \<Rightarrow> None
      | Some sv \<Rightarrow> Some \<lparr>br_secondary = ml_shardNew ml (cf_MCPrefix cfg) (cf_MCGroupID cfg) (unat (sv_ShardBits sv)),
                         br_epoch = uint (sv_TransitionEpoch sv)\<rparr>)"

definition mainHooks :: "main_lib \<Rightarrow> Config \<Rightarrow> main_state Hooks" where
  "mainHooks ml cfg =
     \<lparr>OnShardBitsChange = Some (\<lambda>prev next m.
        if cf_AutoConfigLiveResharding cfg then m else requestRestart ''shard_bits change'' m),
      OnSourceModeChange = Some (\<lambda>prevSSM nextSSM m.
        if cf_AutoConfigLiveResharding cfg then m else requestRestart ''source_mode change'' m),
      OnSuccessorChange =
        (if cf_AutoConfigLiveResharding cfg
         then Some (\<lambda>before after m. m\<lparr>ms_fwd := SetBridging (successorBridge ml cfg after) (ms_fwd m)\<rparr>) else None),
      OnDomainShardBitsChange = Some (\<lambda>domain prev next m. requestRestart ''domain_shard_bits change'' m)\<rparr>"

text \<open>What the process has done after the applier's ticks: the state the hooks leave.\<close>

definition mainApplier :: "main_lib \<Rightarrow> Config \<Rightarrow> (int \<times> Adopted) list \<Rightarrow> fstate \<Rightarrow> main_state" where
  "mainApplier ml cfg ticks s =
     fst (applierRun (mainHooks ml cfg) ticks \<lparr>ms_restart = noRestart, ms_sig = False, ms_fwd = s\<rparr>)"

subsection \<open>What the hooks amount to\<close>

text \<open>The calls that ask for a restart in a mode, with the reason each gives.\<close>

definition restartReason :: "Config \<Rightarrow> hook_call \<Rightarrow> string option" where
  "restartReason cfg c =
     (case c of
        ShardBitsCall a b \<Rightarrow> if cf_AutoConfigLiveResharding cfg then None else Some ''shard_bits change''
      | SourceModeCall a b \<Rightarrow> if cf_AutoConfigLiveResharding cfg then None else Some ''source_mode change''
      | SuccessorCall a b \<Rightarrow> None
      | DomainCall d a b \<Rightarrow> Some ''domain_shard_bits change'')"

lemma runCall_main:
  "runCall (mainHooks ml cfg) c m =
     (case restartReason cfg c of
        Some reason \<Rightarrow> requestRestart reason m
      | None \<Rightarrow> (case c of
                   SuccessorCall a b \<Rightarrow> if cf_AutoConfigLiveResharding cfg
                     then m\<lparr>ms_fwd := SetBridging (successorBridge ml cfg b) (ms_fwd m)\<rparr> else m
                 | _ \<Rightarrow> m))"
  by (cases c) (simp_all add: runCall_def mainHooks_def restartReason_def)

lemma run_restarts:
  "let m' = fold (runCall (mainHooks ml cfg)) cs m; rs = List.map_filter (restartReason cfg) cs in
     ms_restart m' = (if Requested (ms_restart m) \<or> rs = [] then ms_restart m
                      else (ms_restart m)\<lparr>rr_requested := True, rr_reason := Some (hd rs)\<rparr>) \<and>
     (ms_sig m' \<longleftrightarrow> ms_sig m \<or> rs \<noteq> [])"
proof (induction cs arbitrary: m)
  case (Cons c cs)
  then show ?case
    by (cases "restartReason cfg c")
      (auto simp: runCall_main requestRestart_def Request_def Requested_def map_filter_simps Let_def split: hook_call.split)
qed (simp add: map_filter_simps)

lemma run_bridging:
  "ms_fwd (fold (runCall (mainHooks ml cfg)) cs m) =
     (if cf_AutoConfigLiveResharding cfg \<and> successorCalls cs \<noteq> []
      then SetBridging (successorBridge ml cfg (snd (last (successorCalls cs)))) (ms_fwd m) else ms_fwd m)"
proof (induction cs arbitrary: m)
  case (Cons c cs)
  have sc: "successorCalls (c # cs) = (case c of SuccessorCall a b \<Rightarrow> [(a, b)] | _ \<Rightarrow> []) @ successorCalls cs"
    by (cases c) (simp_all add: successorCalls_def)
  show ?case unfolding sc using Cons
    by (cases c) (simp_all add: runCall_main restartReason_def requestRestart_def SetBridging_def)
qed (simp add: successorCalls_def)

lemma transitions_some: "transitions (a # xs) \<noteq> [] \<longleftrightarrow> (\<exists>x \<in> set xs. x \<noteq> a)"
  by (induction xs arbitrary: a) auto

lemma transitions_none: "transitions (a # xs) = [] \<Longrightarrow> last (a # xs) = a"
  by (induction xs arbitrary: a) (auto split: if_splits)

lemma transitions_last: "transitions (a # xs) \<noteq> [] \<Longrightarrow> snd (last (transitions (a # xs))) = last (a # xs)"
proof (induction xs arbitrary: a)
  case (Cons x xs)
  show ?case
  proof (cases "transitions (x # xs) = []")
    case True
    then have "snd (last (transitions (a # x # xs))) = x" using Cons.prems by (simp split: if_splits)
    then show ?thesis using transitions_none [OF True] by simp
  next
    case False
    then show ?thesis using Cons.IH [of x] by simp
  qed
qed simp

lemma restart_calls:
  "List.map_filter (restartReason cfg) cs \<noteq> [] \<longleftrightarrow>
     \<not> cf_AutoConfigLiveResharding cfg \<and> (shardCalls cs \<noteq> [] \<or> sourceCalls cs \<noteq> []) \<or> (\<exists>d. domainCalls d cs \<noteq> [])"
proof (induction cs)
  case (Cons c cs)
  show ?case
    by (cases c) (use Cons in \<open>auto simp: map_filter_simps restartReason_def shardCalls_def sourceCalls_def domainCalls_def\<close>)
qed (simp add: map_filter_simps shardCalls_def sourceCalls_def domainCalls_def)

text \<open>C35.  What an adopted view does to the process.  A restart is asked for, and the restart channel signalled, exactly
  when some view of the ticks has an object plane of non-zero width or, without live resharding, a non-zero shard
  width or the source-specific mode: the comparison starts at the zero view and not at the configuration, so the
  first view is already a change.  With live resharding the forwarder bridges to the successor of the latest view
  and to nothing when it has none; without it, and in everything else, the forwarder is untouched.\<close>

theorem adopted_views_applied:
  assumes "Bridging s = None"
  shows "let m = mainApplier ml cfg ticks s; vs = map snd ticks in
    (ms_sig m \<longleftrightarrow> Requested (ms_restart m)) \<and>
    (Requested (ms_restart m) \<longleftrightarrow>
       \<not> cf_AutoConfigLiveResharding cfg \<and> (\<exists>v \<in> set vs. av_ShardBits v \<noteq> 0 \<or> av_SSM v) \<or>
       (\<exists>v \<in> set vs. \<exists>d. d \<le> 14 \<and> domainBits d v \<noteq> 0)) \<and>
    ms_fwd m = (if cf_AutoConfigLiveResharding cfg
                then SetBridging (successorBridge ml cfg (last (None # map av_Successor vs))) s else s)"
proof -
  let ?vs = "map snd ticks" and ?m0 = "\<lparr>ms_restart = noRestart, ms_sig = False, ms_fwd = s\<rparr>"
  let ?cs = "loopCalls zeroAdopted ?vs"
  have m: "mainApplier ml cfg ticks s = fold (runCall (mainHooks ml cfg)) ?cs ?m0"
    by (simp add: mainApplier_def applierRun_def loop_runs_calls)
  have z: "av_ShardBits zeroAdopted = 0" "av_SSM zeroAdopted = False" "av_Successor zeroAdopted = None" "domainBits d zeroAdopted = 0" for d
    by (simp_all add: zeroAdopted_def domainBits_def)
  have r: "List.map_filter (restartReason cfg) ?cs \<noteq> [] \<longleftrightarrow>
      \<not> cf_AutoConfigLiveResharding cfg \<and> (\<exists>v \<in> set ?vs. av_ShardBits v \<noteq> 0 \<or> av_SSM v) \<or>
      (\<exists>v \<in> set ?vs. \<exists>d. d \<le> 14 \<and> domainBits d v \<noteq> 0)"
    unfolding restart_calls loop_calls by (auto simp: z transitions_some split: if_splits)
  have req: "Requested (ms_restart (mainApplier ml cfg ticks s)) \<longleftrightarrow> List.map_filter (restartReason cfg) ?cs \<noteq> []"
    "ms_sig (mainApplier ml cfg ticks s) \<longleftrightarrow> List.map_filter (restartReason cfg) ?cs \<noteq> []"
    using run_restarts [of ml cfg ?cs ?m0] by (simp_all add: m noRestart_def Requested_def Let_def)
  have sc: "successorCalls ?cs = transitions (None # map av_Successor ?vs)" by (simp add: loop_calls z)
  have none: "SetBridging (successorBridge ml cfg None) s = s"
    using assms by (simp add: successorBridge_def SetBridging_def Bridging_def)
  have fwd: "ms_fwd (mainApplier ml cfg ticks s) = (if cf_AutoConfigLiveResharding cfg
      then SetBridging (successorBridge ml cfg (last (None # map av_Successor ?vs))) s else s)"
    unfolding m run_bridging sc using none transitions_last [of None "map av_Successor ?vs"] transitions_none [of None "map av_Successor ?vs"]
    by (auto simp del: last.simps)
  show ?thesis unfolding Let_def using req r fwd by blast
qed

definition sampleMain :: main_lib where
  "sampleMain = \<lparr>ml_cfg = sampleHost,
     ml_InterfaceByName = (\<lambda>n. if n = ''eth0'' then Some \<lparr>if_name = ''eth0'', if_index = 2\<rparr> else None),
     ml_shardNew = (\<lambda>p g b. sampleEngine), ml_NewPlane = (\<lambda>p g b. Some (\<lambda>t. 4096)),
     ml_openStore = (\<lambda>c. Some (\<lambda>claims pfx k. True)), ml_telemetry = sampleTelemetry, ml_version = ''dev'',
     ml_inventory = \<lparr>iv_Hostname = ''node1'', iv_KernelVersion = ''6.1'', iv_CPULogical = 4, iv_MemTotalBytes = 0, iv_rmem_max = [],
                     iv_Version = ''dev'', iv_Interfaces = []\<rparr>\<rparr>"

theorem adopted_views_applied_witness:
  "let cfg = flagConfig sampleHost (\<lambda>_. []) noFlags; s = newState 0 1 concat;
       v = zeroAdopted\<lparr>av_ShardBits := 2\<rparr> in
   Requested (ms_restart (mainApplier sampleMain cfg [(0, v)] s)) \<and> ms_fwd (mainApplier sampleMain cfg [(0, v)] s) = s"
proof -
  let ?cfg = "flagConfig sampleHost (\<lambda>_. []) noFlags" and ?s = "newState 0 1 concat"
  let ?v = "zeroAdopted\<lparr>av_ShardBits := 2\<rparr>"
  have "Bridging ?s = None" by (simp add: Bridging_def newState_def)
  from adopted_views_applied [OF this, of sampleMain ?cfg "[(0, ?v)]"]
  have "Requested (ms_restart (mainApplier sampleMain ?cfg [(0, ?v)] ?s)) \<longleftrightarrow>
      \<not> cf_AutoConfigLiveResharding ?cfg \<and> (\<exists>v \<in> set [?v]. av_ShardBits v \<noteq> 0 \<or> av_SSM v) \<or>
      (\<exists>v \<in> set [?v]. \<exists>d. d \<le> 14 \<and> domainBits d v \<noteq> 0)"
    "ms_fwd (mainApplier sampleMain ?cfg [(0, ?v)] ?s) = (if cf_AutoConfigLiveResharding ?cfg
       then SetBridging (successorBridge sampleMain ?cfg (last (None # map av_Successor [?v]))) ?s else ?s)"
    by (simp_all only: Let_def list.map snd_conv)
  moreover have "\<not> cf_AutoConfigLiveResharding ?cfg"
    by (simp add: flagConfig_def given_def noFlags_def envBool_def envParsed_def)
  ultimately show ?thesis by (simp add: Let_def)
qed


text \<open>The sample process starts.\<close>

lemma sample_cpus: "1 \<le> cl_NumCPU (ml_cfg sampleMain)"
  by (simp add: sampleMain_def sampleHost_def)

lemma sample_setup:
  "\<exists>px. main_setup sampleLib sampleMain (\<lambda>_. []) noFlags = Inr px \<and> length (px_workers px) < 2 ^ 31"
proof -
  obtain c where c: "Load sampleHost (\<lambda>_. []) noFlags = Inr c" "cf_EgressIfaces c = [''eth0'']" "cf_BindSource c = []"
    "\<not> cf_AutoConfigEnabled c" "cf_NumWorkers c = cl_NumCPU sampleHost" using sample_Load by blast
  obtain m where m: "metrics_New sampleTelemetry ''dev'' (cf_InstanceID c) (cf_NumWorkers c) (cf_OTLPEndpoint c) = Inr m"
    using New_succeeds [OF sample_telemetry_ok] by blast
  have "nat (cf_NumWorkers c) < 2 ^ 31" using c(5) by (simp add: sampleHost_def)
  then show ?thesis
    using c(1-4) m by (simp add: main_setup_def andThen_def assemble_def sampleMain_def newForwarder_def setSource_def setDedup_def
        manifestListener_def newWorkers_def Let_def)
qed

end
