(* ===== verification/LifeCycle.thy ===== *)
theory LifeCycle
  imports Wiring
begin

text \<open>
  The life of the process after start-up: the goroutines \<^verbatim>\<open>main\<close> launches, the signals, the drain and the shutdown
  (\<^verbatim>\<open>main.go\<close>), with the watchers that close a listener or a connection when \<^verbatim>\<open>done\<close> is closed and the wait groups of
  the listeners (\<^verbatim>\<open>worker/tcp.go\<close>, \<^verbatim>\<open>worker/objingress.go\<close>).  The goroutines interleave freely: a state is the program
  counter of \<^verbatim>\<open>main\<close>, the channels and the state of every goroutine, and a step moves one of them.  What a goroutine
  does between these points is the subject of the component theories.
\<close>

subsection \<open>Lanes\<close>

text \<open>A lane is a goroutine of the wait group of \<^verbatim>\<open>main\<close>.  \<open>Bound\<close>: its socket is open and its watcher runs, the egress
  sockets are not open yet.  \<open>Stopping\<close>: its loop has returned and the deferred calls wait for its connections.\<close>

datatype lane_kind = UDPLane | TCPLane | PushLane | ManifestLane | ApplierLane

datatype lane_pc = Starting | Bound | Serving | Stopping | Exited

text \<open>\<open>la_closed\<close> is what the watcher does: the socket closed, or the context cancelled.  A connection is the flag that
  its watcher has closed it; it leaves the list when its handler returns.\<close>

record lane =
  la_kind :: lane_kind
  la_pc :: lane_pc
  la_bound :: bool
  la_failed :: bool
  la_closed :: bool
  la_conns :: "bool list"

definition newLane :: "lane_kind \<Rightarrow> lane" where
  "newLane k = \<lparr>la_kind = k, la_pc = Starting, la_bound = False, la_failed = False, la_closed = False, la_conns = []\<rparr>"

definition watching :: "lane \<Rightarrow> bool" where
  "watching l \<longleftrightarrow> la_bound l \<or> la_kind l \<in> {ManifestLane, ApplierLane}"

definition bindEvents :: "lane_kind \<Rightarrow> event list" where
  "bindEvents k = (if k = TCPLane then [TCPIngressReady] else [])"

definition serveEvents :: "lane_kind \<Rightarrow> event list" where
  "serveEvents k = (if k = UDPLane then [WorkerReady] else [])"

definition returnEvents :: "lane_kind \<Rightarrow> event list" where
  "returnEvents k = (if k = UDPLane then [WorkerDone] else [])"

text \<open>The steps a lane takes by itself, given whether \<^verbatim>\<open>done\<close> is closed, with what it reports to the recorder.\<close>

inductive lane_step :: "bool \<Rightarrow> lane \<Rightarrow> event list \<Rightarrow> lane \<Rightarrow> bool" where
  opens: "la_pc l = Starting \<Longrightarrow> la_kind l \<noteq> ApplierLane \<Longrightarrow>
    lane_step dn l (bindEvents (la_kind l)) (l\<lparr>la_pc := Bound, la_bound := True\<rparr>)"
| open_fails: "la_pc l = Starting \<Longrightarrow> la_kind l \<noteq> ApplierLane \<Longrightarrow>
    lane_step dn l [] (l\<lparr>la_pc := Exited, la_failed := True\<rparr>)"
| targets_fail: "la_pc l = Bound \<Longrightarrow> lane_step dn l [] (l\<lparr>la_pc := Exited, la_failed := True\<rparr>)"
| serves: "la_pc l = Bound \<Longrightarrow> lane_step dn l (serveEvents (la_kind l)) (l\<lparr>la_pc := Serving\<rparr>)"
| ticks: "la_pc l = Starting \<Longrightarrow> la_kind l = ApplierLane \<Longrightarrow> lane_step dn l [] (l\<lparr>la_pc := Serving\<rparr>)"
| watch: "dn \<Longrightarrow> watching l \<Longrightarrow> \<not> la_closed l \<Longrightarrow> lane_step dn l [] (l\<lparr>la_closed := True\<rparr>)"
| loop_ends: "la_pc l = Serving \<Longrightarrow> la_closed l \<Longrightarrow> lane_step dn l [] (l\<lparr>la_pc := Stopping\<rparr>)"
| returns: "la_pc l = Stopping \<Longrightarrow> la_conns l = [] \<Longrightarrow>
    lane_step dn l (returnEvents (la_kind l)) (l\<lparr>la_pc := Exited\<rparr>)"
| conn_watch: "dn \<Longrightarrow> j < length (la_conns l) \<Longrightarrow> \<not> la_conns l ! j \<Longrightarrow>
    lane_step dn l [] (l\<lparr>la_conns := (la_conns l)[j := True]\<rparr>)"
| conn_ends: "j < length (la_conns l) \<Longrightarrow> la_conns l ! j \<Longrightarrow>
    lane_step dn l [] (l\<lparr>la_conns := take j (la_conns l) @ drop (Suc j) (la_conns l)\<rparr>)"

text \<open>What its environment does to a lane: a connection arrives, or ends before it is closed here.\<close>

inductive lane_env :: "lane \<Rightarrow> lane \<Rightarrow> bool" where
  connected: "la_pc l = Serving \<Longrightarrow> la_kind l \<in> {TCPLane, PushLane} \<Longrightarrow> \<not> la_closed l \<Longrightarrow>
    lane_env l (l\<lparr>la_conns := la_conns l @ [False]\<rparr>)"
| hung_up: "j < length (la_conns l) \<Longrightarrow>
    lane_env l (l\<lparr>la_conns := take j (la_conns l) @ drop (Suc j) (la_conns l)\<rparr>)"

subsection \<open>The process\<close>

datatype main_pc = MWait | MDrain | MSleep | MClose | MShutdown | MWgWait | MExit

record proc =
  pr_main :: main_pc
  pr_sig :: bool
  pr_restart :: bool
  pr_done :: bool
  pr_lanes :: "lane list"
  pr_rec :: Recorder
  pr_http :: bool

text \<open>The goroutines \<^verbatim>\<open>main\<close> starts for the parts it has put together.\<close>

definition lanesOf :: "Proxy \<Rightarrow> lane list" where
  "lanesOf px =
     map (\<lambda>_. newLane UDPLane) (px_workers px) @ map (\<lambda>_. newLane TCPLane) (px_tcp px) @
     map (\<lambda>_. newLane PushLane) (px_lanes px) @
     (case px_manifest px of None \<Rightarrow> [] | Some l \<Rightarrow> [newLane ManifestLane, newLane ApplierLane])"

definition launch :: "Proxy \<Rightarrow> proc" where
  "launch px = \<lparr>pr_main = MWait, pr_sig = False, pr_restart = False, pr_done = False, pr_lanes = lanesOf px,
                pr_rec = px_rec px, pr_http = True\<rparr>"

definition report :: "event list \<Rightarrow> Recorder \<Rightarrow> Recorder" where
  "report evs r = fold recOp (map OpEvent evs) r"

text \<open>The steps of the process itself.  \<open>pr_sig\<close> and \<open>pr_restart\<close> are the two channels of capacity one.  The HTTP
  server is shut down by its own goroutine, which is not in the wait group.\<close>

inductive own_step :: "proc \<Rightarrow> proc \<Rightarrow> bool" where
  signalled: "pr_main p = MWait \<Longrightarrow> pr_sig p \<Longrightarrow> own_step p (p\<lparr>pr_sig := False, pr_main := MDrain\<rparr>)"
| restarting: "pr_main p = MWait \<Longrightarrow> pr_restart p \<Longrightarrow> own_step p (p\<lparr>pr_restart := False, pr_main := MDrain\<rparr>)"
| drain: "pr_main p = MDrain \<Longrightarrow> own_step p (p\<lparr>pr_rec := recOp OpDrain (pr_rec p), pr_main := MSleep\<rparr>)"
| slept: "pr_main p = MSleep \<Longrightarrow> own_step p (p\<lparr>pr_main := MClose\<rparr>)"
| close_done: "pr_main p = MClose \<Longrightarrow> own_step p (p\<lparr>pr_done := True, pr_main := MShutdown\<rparr>)"
| flush_metrics: "pr_main p = MShutdown \<Longrightarrow> own_step p (p\<lparr>pr_main := MWgWait\<rparr>)"
| all_returned: "pr_main p = MWgWait \<Longrightarrow> \<forall>l \<in> set (pr_lanes p). la_pc l = Exited \<Longrightarrow> own_step p (p\<lparr>pr_main := MExit\<rparr>)"
| lane: "pr_main p \<noteq> MExit \<Longrightarrow> i < length (pr_lanes p) \<Longrightarrow> lane_step (pr_done p) (pr_lanes p ! i) evs l' \<Longrightarrow>
    own_step p (p\<lparr>pr_lanes := (pr_lanes p)[i := l'], pr_rec := report evs (pr_rec p)\<rparr>)"
| http_down: "pr_main p \<noteq> MExit \<Longrightarrow> pr_done p \<Longrightarrow> pr_http p \<Longrightarrow> own_step p (p\<lparr>pr_http := False\<rparr>)"

text \<open>The steps of its environment: a signal, a restart request of the applier, connections, and traffic, which
  records anything but a change of readiness.\<close>

inductive env_step :: "proc \<Rightarrow> proc \<Rightarrow> bool" where
  signal: "pr_main p \<noteq> MExit \<Longrightarrow> env_step p (p\<lparr>pr_sig := True\<rparr>)"
| adopts: "pr_main p \<noteq> MExit \<Longrightarrow> l \<in> set (pr_lanes p) \<Longrightarrow> la_kind l = ApplierLane \<Longrightarrow> la_pc l = Serving \<Longrightarrow>
    env_step p (p\<lparr>pr_restart := True\<rparr>)"
| peer: "pr_main p \<noteq> MExit \<Longrightarrow> i < length (pr_lanes p) \<Longrightarrow> lane_env (pr_lanes p ! i) l' \<Longrightarrow>
    env_step p (p\<lparr>pr_lanes := (pr_lanes p)[i := l']\<rparr>)"
| traffic: "pr_main p \<noteq> MExit \<Longrightarrow> l \<in> set (pr_lanes p) \<Longrightarrow> la_pc l = Serving \<Longrightarrow>
    ev \<notin> {WorkerReady, WorkerDone, TCPIngressReady} \<Longrightarrow> env_step p (p\<lparr>pr_rec := report [ev] (pr_rec p)\<rparr>)"

definition step :: "proc \<Rightarrow> proc \<Rightarrow> bool" where
  "step p q \<longleftrightarrow> own_step p q \<or> env_step p q"

inductive_cases lane_stepE: "lane_step dn l evs l'"
inductive_cases lane_envE: "lane_env l l'"

subsection \<open>Invariant\<close>

definition lane_ok :: "bool \<Rightarrow> lane \<Rightarrow> bool" where
  "lane_ok dn l \<longleftrightarrow>
     (la_pc l = Exited \<and> \<not> la_failed l \<longrightarrow> dn) \<and> (la_pc l \<in> {Starting, Bound, Exited} \<longrightarrow> la_conns l = []) \<and>
     (la_failed l \<longrightarrow> la_pc l = Exited) \<and> (la_closed l \<longrightarrow> dn) \<and> (la_pc l = Stopping \<longrightarrow> la_closed l) \<and>
     (True \<in> set (la_conns l) \<longrightarrow> dn) \<and> (la_pc l \<in> {Bound, Serving, Stopping} \<longrightarrow> la_kind l = ApplierLane \<or> la_bound l) \<and>
     (la_pc l = Starting \<longrightarrow> \<not> la_bound l)"

definition isUp :: "lane \<Rightarrow> bool" where
  "isUp l \<longleftrightarrow> la_kind l = UDPLane \<and> la_pc l \<in> {Serving, Stopping}"

definition tcpBound :: "lane \<Rightarrow> bool" where
  "tcpBound l \<longleftrightarrow> la_kind l = TCPLane \<and> la_bound l"

lemma lane_ok_done: "lane_ok dn l \<Longrightarrow> lane_ok True l"
  by (simp add: lane_ok_def)

lemma set_drop_one: "set (take j xs @ drop (Suc j) xs) \<subseteq> set xs"
  by (auto dest: in_set_takeD in_set_dropD)

lemma lane_ok_conns:
  "lane_ok dn l \<Longrightarrow> (True \<in> set cs \<Longrightarrow> dn) \<Longrightarrow> (la_conns l = [] \<Longrightarrow> cs = []) \<Longrightarrow> lane_ok dn (l\<lparr>la_conns := cs\<rparr>)"
  by (simp add: lane_ok_def)

lemma drop_one_ok:
  assumes "lane_ok dn l"
  shows "lane_ok dn (l\<lparr>la_conns := take j (la_conns l) @ drop (Suc j) (la_conns l)\<rparr>)"
proof (rule lane_ok_conns [OF assms])
  show "dn" if "True \<in> set (take j (la_conns l) @ drop (Suc j) (la_conns l))"
    using that set_drop_one [of j "la_conns l"] assms unfolding lane_ok_def by blast
qed simp

lemma lane_step_ok:
  assumes "lane_step dn l evs l'" "lane_ok dn l"
  shows "lane_ok dn l' \<and> la_kind l' = la_kind l"
  using assms(1)
proof cases
  case (conn_watch j)
  then show ?thesis using assms(2) lane_ok_conns [of dn l "(la_conns l)[j := True]"] by simp
next
  case (conn_ends j)
  then show ?thesis using assms(2) drop_one_ok by simp
qed (use assms(2) in \<open>simp_all add: lane_ok_def\<close>)

lemma lane_env_ok:
  assumes "lane_env l l'" "lane_ok dn l"
  shows "lane_ok dn l' \<and> la_kind l' = la_kind l \<and> isUp l' = isUp l \<and> tcpBound l' = tcpBound l"
  using assms(1)
proof cases
  case (hung_up j)
  then show ?thesis using assms(2) drop_one_ok by (simp add: isUp_def tcpBound_def)
qed (use assms(2) in \<open>simp add: lane_ok_def isUp_def tcpBound_def\<close>)

lemma lane_step_events:
  assumes "lane_step dn l evs l'" "lane_ok dn l"
  shows "sum_list (map upBy (map OpEvent evs)) = of_bool (isUp l') - of_bool (isUp l) \<and>
    (OpEvent TCPIngressReady \<in> OpEvent ` set evs \<longleftrightarrow> tcpBound l' \<and> \<not> tcpBound l) \<and> (tcpBound l \<longrightarrow> tcpBound l')"
  using assms(1)
proof cases
  case serves
  then show ?thesis by (auto simp: serveEvents_def upBy_def isUp_def tcpBound_def)
next
  case returns
  then show ?thesis by (auto simp: returnEvents_def upBy_def isUp_def tcpBound_def)
qed (use assms(2) in \<open>simp_all add: bindEvents_def isUp_def tcpBound_def lane_ok_def upBy_def\<close>)

definition upSum :: "lane list \<Rightarrow> int" where
  "upSum ls = sum_list (map (\<lambda>l. of_bool (isUp l)) ls)"

definition kinds :: "lane list \<Rightarrow> lane_kind list" where
  "kinds ls = map la_kind ls"

definition lifeNow :: "bool \<Rightarrow> lane list \<Rightarrow> int \<times> 32 word \<times> bool \<times> bool \<times> bool" where
  "lifeNow draining ls =
     (int (length (filter (\<lambda>k. k = UDPLane) (kinds ls))), of_int (upSum ls), draining, TCPLane \<in> set (kinds ls), \<exists>l \<in> set ls. tcpBound l)"

definition life_inv :: "proc \<Rightarrow> bool" where
  "life_inv p \<longleftrightarrow>
     list_all (lane_ok (pr_done p)) (pr_lanes p) \<and>
     (pr_done p \<longleftrightarrow> pr_main p \<in> {MShutdown, MWgWait, MExit}) \<and>
     (pr_main p = MExit \<longrightarrow> (\<forall>l \<in> set (pr_lanes p). la_pc l = Exited)) \<and>
     lifeOf (pr_rec p) = lifeNow (pr_main p \<notin> {MWait, MDrain}) (pr_lanes p)"

lemma life_invD:
  assumes "life_inv p"
  shows "list_all (lane_ok (pr_done p)) (pr_lanes p)" "pr_done p \<longleftrightarrow> pr_main p \<in> {MShutdown, MWgWait, MExit}"
    "lifeOf (pr_rec p) = lifeNow (pr_main p \<notin> {MWait, MDrain}) (pr_lanes p)"
    "i < length (pr_lanes p) \<Longrightarrow> lane_ok (pr_done p) (pr_lanes p ! i)"
  using assms unfolding life_inv_def by (blast, blast, blast, metis list_all_length)

lemma life_invI:
  "list_all (lane_ok (pr_done p)) (pr_lanes p) \<Longrightarrow> (pr_done p \<longleftrightarrow> pr_main p \<in> {MShutdown, MWgWait, MExit}) \<Longrightarrow>
   (pr_main p = MExit \<Longrightarrow> \<forall>l \<in> set (pr_lanes p). la_pc l = Exited) \<Longrightarrow>
   lifeOf (pr_rec p) = lifeNow (pr_main p \<notin> {MWait, MDrain}) (pr_lanes p) \<Longrightarrow> life_inv p"
  unfolding life_inv_def by blast

lemma kinds_upd: "i < length ls \<Longrightarrow> la_kind l' = la_kind (ls ! i) \<Longrightarrow> kinds (ls[i := l']) = kinds ls"
  unfolding kinds_def by (metis list_update_id map_update)

lemma upSum_upd: "i < length ls \<Longrightarrow> upSum (ls[i := l']) = upSum ls + (of_bool (isUp l') - of_bool (isUp (ls ! i)))"
  unfolding upSum_def by (simp add: sum_list_upd)

lemma tcp_upd:
  assumes "i < length ls" "tcpBound (ls ! i) \<Longrightarrow> tcpBound l'"
  shows "(\<exists>l \<in> set (ls[i := l']). tcpBound l) \<longleftrightarrow> (\<exists>l \<in> set ls. tcpBound l) \<or> tcpBound l' \<and> \<not> tcpBound (ls ! i)"
proof -
  have "set ls = insert (ls ! i) (set (take i ls) \<union> set (drop (Suc i) ls))"
    using assms(1) by (metis Un_insert_right id_take_nth_drop list.simps(15) set_append)
  moreover have "set (ls[i := l']) = insert l' (set (take i ls) \<union> set (drop (Suc i) ls))"
    using assms(1) by (simp add: upd_conv_take_nth_drop)
  ultimately show ?thesis using assms(2) by auto
qed

lemma ok_upd: "list_all P ls \<Longrightarrow> P l' \<Longrightarrow> list_all P (ls[i := l'])"
  using set_update_subset_insert [of ls i l'] by (auto simp: list_all_iff)

lemma report_life:
  "lifeOf (report evs r) =
     (rc_numWorkers r, rc_readyCount r + of_int (sum_list (map upBy (map OpEvent evs))), rc_draining r,
      rc_tcpIngressRequired r, rc_tcpIngressReady r \<or> OpEvent TCPIngressReady \<in> OpEvent ` set evs)"
  unfolding report_def fold_life by auto

lemma report_lifeNow:
  assumes "lifeOf r = lifeNow dr ls" "i < length ls" "lane_step dn (ls ! i) evs l'" "lane_ok dn (ls ! i)"
  shows "lifeOf (report evs r) = lifeNow dr (ls[i := l'])"
proof -
  have e: "sum_list (map upBy (map OpEvent evs)) = of_bool (isUp l') - of_bool (isUp (ls ! i))"
    "OpEvent TCPIngressReady \<in> OpEvent ` set evs \<longleftrightarrow> tcpBound l' \<and> \<not> tcpBound (ls ! i)" "tcpBound (ls ! i) \<Longrightarrow> tcpBound l'"
    using lane_step_events [OF assms(3,4)] by blast+
  have k: "kinds (ls[i := l']) = kinds ls" using kinds_upd [OF assms(2)] lane_step_ok [OF assms(3,4)] by blast
  have r: "rc_numWorkers r = int (length (filter (\<lambda>k. k = UDPLane) (kinds ls)))" "rc_readyCount r = of_int (upSum ls)"
    "rc_draining r = dr" "rc_tcpIngressRequired r = (TCPLane \<in> set (kinds ls))" "rc_tcpIngressReady r = (\<exists>l \<in> set ls. tcpBound l)"
    using assms(1) by (simp_all add: lifeOf_def lifeNow_def)
  show ?thesis unfolding report_life lifeNow_def k upSum_upd [OF assms(2)] e(1,2) r using tcp_upd [OF assms(2) e(3)] by simp
qed

lemma lane_inv:
  assumes "life_inv p" "pr_main p \<noteq> MExit" "i < length (pr_lanes p)" "lane_step (pr_done p) (pr_lanes p ! i) evs l'"
  shows "life_inv (p\<lparr>pr_lanes := (pr_lanes p)[i := l'], pr_rec := report evs (pr_rec p)\<rparr>)"
proof -
  note d = life_invD [OF assms(1)]
  have ok: "lane_ok (pr_done p) (pr_lanes p ! i)" using d(4) assms(3) .
  show ?thesis
  proof (rule life_invI)
    show "list_all (lane_ok (pr_done (p\<lparr>pr_lanes := (pr_lanes p)[i := l'], pr_rec := report evs (pr_rec p)\<rparr>)))
        (pr_lanes (p\<lparr>pr_lanes := (pr_lanes p)[i := l'], pr_rec := report evs (pr_rec p)\<rparr>))"
      using ok_upd [OF d(1)] lane_step_ok [OF assms(4) ok] by simp
  qed (use assms(2) d(2) report_lifeNow [OF d(3) assms(3,4) ok] in simp_all)
qed

lemma life_inv_chan: "life_inv (p\<lparr>pr_sig := b\<rparr>) = life_inv p" "life_inv (p\<lparr>pr_restart := b\<rparr>) = life_inv p"
  by (simp_all add: life_inv_def)

lemma own_inv: "own_step p q \<Longrightarrow> life_inv p \<Longrightarrow> life_inv q"
proof (induction rule: own_step.induct)
  case (drain p)
  have "lifeOf (recOp OpDrain (pr_rec p)) = lifeNow True (pr_lanes p)"
    using life_invD(3) [OF drain(2)] recOp_life [of OpDrain "pr_rec p"] by (simp add: upBy_def lifeOf_def lifeNow_def)
  then show ?case using drain life_invD [OF drain(2)] by (intro life_invI) simp_all
next
  case (close_done p)
  have "list_all (lane_ok True) (pr_lanes p)"
    using life_invD(1) [OF close_done(2)] lane_ok_done by (auto simp: list_all_iff)
  then show ?case using close_done life_invD [OF close_done(2)] by (intro life_invI) simp_all
next
  case (lane p i evs l')
  then show ?case by (intro lane_inv)
qed (auto simp: life_inv_def)

lemma env_inv: "env_step p q \<Longrightarrow> life_inv p \<Longrightarrow> life_inv q"
proof (induction rule: env_step.induct)
  case (peer p i l')
  note d = life_invD [OF peer(4)]
  note s = lane_env_ok [OF peer(3) d(4) [OF peer(2)]]
  have "lifeNow dr ((pr_lanes p)[i := l']) = lifeNow dr (pr_lanes p)" for dr
    unfolding lifeNow_def using s peer(2) by (simp add: kinds_upd upSum_upd tcp_upd)
  then show ?case using peer(1) d(2,3) ok_upd [OF d(1)] s by (intro life_invI) simp_all
next
  case (traffic p l ev)
  then have "upBy (OpEvent ev) = 0" "OpEvent TCPIngressReady \<noteq> OpEvent ev" by (auto simp: upBy_def)
  then have "lifeOf (report [ev] (pr_rec p)) = lifeOf (pr_rec p)"
    unfolding report_life by (auto simp: lifeOf_def)
  then show ?case using traffic(1) life_invD [OF traffic(5)] by (intro life_invI) simp_all
qed (simp_all add: life_inv_chan)

lemma reach_inv: "step\<^sup>*\<^sup>* p q \<Longrightarrow> life_inv p \<Longrightarrow> life_inv q"
  by (induction rule: rtranclp_induct) (auto simp: step_def own_inv env_inv)


subsection \<open>Own steps end\<close>

fun pcWeight :: "lane_pc \<Rightarrow> nat" where
  "pcWeight Starting = 4"
| "pcWeight Bound = 3"
| "pcWeight Serving = 2"
| "pcWeight Stopping = 1"
| "pcWeight Exited = 0"

definition laneWeight :: "lane \<Rightarrow> nat" where
  "laneWeight l = pcWeight (la_pc l) + (if la_closed l then 0 else 1) + sum_list (map (\<lambda>c. if c then 1 else 2) (la_conns l))"

fun mainWeight :: "main_pc \<Rightarrow> nat" where
  "mainWeight MWait = 6"
| "mainWeight MDrain = 5"
| "mainWeight MSleep = 4"
| "mainWeight MClose = 3"
| "mainWeight MShutdown = 2"
| "mainWeight MWgWait = 1"
| "mainWeight MExit = 0"

text \<open>The number of own steps a process can still take.\<close>

definition stepsBound :: "proc \<Rightarrow> nat" where
  "stepsBound p = mainWeight (pr_main p) + (if pr_http p then 1 else 0) + sum_list (map laneWeight (pr_lanes p))"

lemma sum_drop_one:
  "j < length xs \<Longrightarrow> sum_list (map f (take j xs @ drop (Suc j) xs)) + f (xs ! j) = (sum_list (map f xs) :: nat)"
proof (induction xs arbitrary: j)
  case (Cons x xs)
  then show ?case by (cases j) (simp_all add: add.assoc)
qed simp

lemma sum_upd_less:
  "j < length xs \<Longrightarrow> f y < f (xs ! j) \<Longrightarrow> sum_list (map f (xs[j := y])) < (sum_list (map f xs) :: nat)"
proof (induction xs arbitrary: j)
  case (Cons x xs)
  then show ?case by (cases j) simp_all
qed simp

lemma lane_less: "lane_step dn l evs l' \<Longrightarrow> laneWeight l' < laneWeight l"
proof (induction rule: lane_step.induct)
  case (conn_watch dn j l)
  then show ?case using sum_upd_less [of j "la_conns l" "\<lambda>c. if c then 1 else 2" True] by (simp add: laneWeight_def)
next
  case (conn_ends j l dn)
  then show ?case using sum_drop_one [of j "la_conns l" "\<lambda>c. if c then 1 else 2"] by (simp add: laneWeight_def)
qed (simp_all add: laneWeight_def)

lemma own_less: "own_step p q \<Longrightarrow> stepsBound q < stepsBound p"
proof (induction rule: own_step.induct)
  case (lane p i evs l')
  then show ?case using sum_upd_less [OF lane(2) lane_less [OF lane(3)]] by (simp add: stepsBound_def)
qed (simp_all add: stepsBound_def)

lemma own_bounded: "(own_step ^^ n) p q \<Longrightarrow> n + stepsBound q \<le> stepsBound p"
proof (induction n arbitrary: q)
  case (Suc n)
  then obtain r where "(own_step ^^ n) p r" "own_step r q" by auto
  then show ?case using Suc.IH [of r] own_less [of r q] by simp
qed simp

subsection \<open>A process that has been told to stop never blocks\<close>

definition toldToStop :: "proc \<Rightarrow> bool" where
  "toldToStop p \<longleftrightarrow> pr_main p \<noteq> MWait \<or> pr_sig p \<or> pr_restart p"

lemma told_own: "own_step p q \<Longrightarrow> toldToStop p \<Longrightarrow> toldToStop q"
  by (induction rule: own_step.induct) (auto simp: toldToStop_def)

lemma lane_progress:
  assumes "lane_ok True l" "la_pc l \<noteq> Exited"
  shows "\<exists>evs l'. lane_step True l evs l'"
proof (cases "la_pc l")
  case Starting
  then show ?thesis using lane_step.opens lane_step.ticks by blast
next
  case Bound
  then show ?thesis using lane_step.serves by blast
next
  case Serving
  have "watching l" using assms(1) Serving by (auto simp: lane_ok_def watching_def)
  then show ?thesis using lane_step.watch [of True l] lane_step.loop_ends [of l True] Serving by (cases "la_closed l") blast+
next
  case Stopping
  show ?thesis
  proof (cases "la_conns l")
    case Nil
    then show ?thesis using Stopping lane_step.returns by blast
  next
    case (Cons c cs)
    then have "0 < length (la_conns l)" by simp
    then show ?thesis using lane_step.conn_watch [of True 0 l] lane_step.conn_ends [of 0 l True] by (cases "la_conns l ! 0") blast+
  qed
qed (use assms(2) in simp)

lemma told_progress:
  assumes "life_inv p" "toldToStop p" "pr_main p \<noteq> MExit"
  shows "\<exists>q. own_step p q"
proof (cases "pr_main p = MWgWait \<and> \<not> (\<forall>l \<in> set (pr_lanes p). la_pc l = Exited)")
  case True
  then obtain i where i: "i < length (pr_lanes p)" "la_pc (pr_lanes p ! i) \<noteq> Exited" by (metis in_set_conv_nth)
  have "pr_done p" using True life_invD(2) [OF assms(1)] by simp
  then have "lane_ok True (pr_lanes p ! i)" using life_invD(4) [OF assms(1) i(1)] by simp
  then obtain evs l' where "lane_step (pr_done p) (pr_lanes p ! i) evs l'" using lane_progress [OF _ i(2)] \<open>pr_done p\<close> by auto
  then show ?thesis using own_step.lane [OF assms(3) i(1)] by blast
next
  case False
  then show ?thesis using assms(2,3) unfolding toldToStop_def
    by (cases "pr_main p") (auto intro: own_step.intros)
qed

lemma told_reach:
  assumes "own_step\<^sup>*\<^sup>* p q" "life_inv p" "toldToStop p"
  shows "life_inv q \<and> toldToStop q"
  using assms(1) by (induction rule: rtranclp_induct) (use assms(2,3) own_inv told_own in auto)

lemma told_exits: "life_inv p \<Longrightarrow> toldToStop p \<Longrightarrow> \<exists>q. own_step\<^sup>*\<^sup>* p q \<and> pr_main q = MExit"
proof (induction "stepsBound p" arbitrary: p rule: less_induct)
  case less
  show ?case
  proof (cases "pr_main p = MExit")
    case False
    then obtain q where q: "own_step p q" using told_progress less.prems by blast
    then show ?thesis using less.hyps [OF own_less [OF q]] own_inv [OF q] told_own [OF q] less.prems
      by (meson converse_rtranclp_into_rtranclp)
  qed blast
qed


subsection \<open>The process as it is launched\<close>

lemma kinds_lanesOf: "kinds (lanesOf px) =
    replicate (length (px_workers px)) UDPLane @ replicate (length (px_tcp px)) TCPLane @ replicate (length (px_lanes px)) PushLane @
    (case px_manifest px of None \<Rightarrow> [] | Some l \<Rightarrow> [ManifestLane, ApplierLane])"
  by (simp add: kinds_def lanesOf_def newLane_def map_replicate_const comp_def split: option.split)

lemma lanesOf_new: "l \<in> set (lanesOf px) \<Longrightarrow> \<exists>k. l = newLane k"
  by (auto simp: lanesOf_def split: option.splits)

lemma launch_inv:
  assumes "main_setup L ml env fl = Inr px" "1 \<le> cl_NumCPU (ml_cfg ml)"
  shows "life_inv (launch px)" "px_workers px \<noteq> []"
proof -
  obtain cfg where c: "Load (ml_cfg ml) env fl = Inr cfg" "assemble L ml cfg = Inr px"
    using assms(1) by (auto simp: main_setup_def andThen_Inr)
  have n: "1 \<le> cf_NumWorkers cfg" using Load_stages [OF c(1) assms(2)] by (simp add: valid_config_def)
  obtain ifs where px: "px_workers px = newWorkers cfg ifs" "px_tcp px = newTCP cfg ifs"
    and r: "px_rec px = (if px_tcp px \<noteq> [] then RequireTCPIngress (newRecorder (cf_NumWorkers cfg)) else newRecorder (cf_NumWorkers cfg))"
    using c(2) New_rec SetHostInfo_rec by (fastforce simp: assemble_def Let_def split: sum.splits)
  have len: "int (length (px_workers px)) = cf_NumWorkers cfg" using n by (simp add: px newWorkers_def)
  then show "px_workers px \<noteq> []" using n by auto
  have f: "filter (\<lambda>k. k = UDPLane) (kinds (lanesOf px)) = replicate (length (px_workers px)) UDPLane"
    unfolding kinds_lanesOf by (simp split: option.split)
  have t: "TCPLane \<in> set (kinds (lanesOf px)) \<longleftrightarrow> px_tcp px \<noteq> []" unfolding kinds_lanesOf by (auto split: option.split)
  have z: "\<not> isUp l" "\<not> tcpBound l" "lane_ok False l" if "l \<in> set (lanesOf px)" for l
    using lanesOf_new [OF that] by (auto simp: isUp_def tcpBound_def lane_ok_def newLane_def)
  have "map (\<lambda>l. of_bool (isUp l)) (lanesOf px) = map (\<lambda>_. 0 :: int) (lanesOf px)" using z(1) by simp
  then have u: "upSum (lanesOf px) = 0" unfolding upSum_def by (simp only: sum_list_0)
  have "lifeOf (px_rec px) = lifeNow False (lanesOf px)"
    unfolding lifeNow_def f u t using z(2) len by (auto simp: r lifeOf_def newRecorder_def RequireTCPIngress_def)
  then show "life_inv (launch px)" using z(3) by (intro life_invI) (simp_all add: launch_def list_all_iff)
qed

lemma own_kinds: "own_step p q \<Longrightarrow> kinds (pr_lanes q) = kinds (pr_lanes p)"
proof (induction rule: own_step.induct)
  case (lane p i evs l')
  have "la_kind l' = la_kind (pr_lanes p ! i)" using lane(3) by cases simp_all
  then show ?case using kinds_upd [OF lane(2)] by simp
qed simp_all

lemma env_kinds: "env_step p q \<Longrightarrow> kinds (pr_lanes q) = kinds (pr_lanes p)"
proof (induction rule: env_step.induct)
  case (peer p i l')
  have "la_kind l' = la_kind (pr_lanes p ! i)" using peer(3) by cases simp_all
  then show ?case using kinds_upd [OF peer(2)] by simp
qed simp_all

lemma reach_kinds: "step\<^sup>*\<^sup>* p q \<Longrightarrow> kinds (pr_lanes q) = kinds (pr_lanes p)"
  by (induction rule: rtranclp_induct) (auto simp: step_def own_kinds env_kinds)

lemma upSum_count:
  "0 \<le> upSum ls \<and> upSum ls \<le> int (length (filter (\<lambda>k. k = UDPLane) (kinds ls))) \<and>
   (upSum ls = int (length (filter (\<lambda>k. k = UDPLane) (kinds ls))) \<longleftrightarrow> (\<forall>l \<in> set ls. la_kind l = UDPLane \<longrightarrow> isUp l))"
proof (induction ls)
  case (Cons l ls)
  then show ?case by (auto simp: upSum_def kinds_def isUp_def)
qed (simp add: upSum_def kinds_def)

lemma readyz_lanes:
  assumes "life_inv p" "length (filter (\<lambda>k. k = UDPLane) (kinds (pr_lanes p))) = n" "0 < n" "n < 2 ^ 31"
  shows "rz_code (handleReadyz (pr_rec p)) = 200 \<longleftrightarrow>
    pr_main p \<in> {MWait, MDrain} \<and> (\<forall>l \<in> set (pr_lanes p). la_kind l = UDPLane \<longrightarrow> la_pc l = Serving) \<and>
    (TCPLane \<in> set (kinds (pr_lanes p)) \<longrightarrow> (\<exists>l \<in> set (pr_lanes p). tcpBound l))"
proof -
  have r: "rc_numWorkers (pr_rec p) = int n" "rc_readyCount (pr_rec p) = of_int (upSum (pr_lanes p))"
    "rc_draining (pr_rec p) = (pr_main p \<notin> {MWait, MDrain})" "rc_tcpIngressRequired (pr_rec p) = (TCPLane \<in> set (kinds (pr_lanes p)))"
    "rc_tcpIngressReady (pr_rec p) = (\<exists>l \<in> set (pr_lanes p). tcpBound l)"
    using life_invD(3) [OF assms(1)] assms(2) by (simp_all add: lifeOf_def lifeNow_def)
  note c = upSum_count [of "pr_lanes p", unfolded assms(2)]
  have s: "sint (of_int (upSum (pr_lanes p)) :: 32 word) = upSum (pr_lanes p)" using c assms(4) by (intro sint_small) simp_all
  have up: "(\<forall>l \<in> set (pr_lanes p). la_kind l = UDPLane \<longrightarrow> isUp l) \<longleftrightarrow> (\<forall>l \<in> set (pr_lanes p). la_kind l = UDPLane \<longrightarrow> la_pc l = Serving)"
    if "pr_main p \<in> {MWait, MDrain}"
  proof -
    have "\<not> pr_done p" using that life_invD(2) [OF assms(1)] by auto
    then have "la_pc l \<noteq> Stopping" if "l \<in> set (pr_lanes p)" for l
      using that life_invD(1) [OF assms(1)] by (auto simp: list_all_iff lane_ok_def)
    then show ?thesis by (auto simp: isUp_def)
  qed
  have "int n \<le> upSum (pr_lanes p) \<longleftrightarrow> (\<forall>l \<in> set (pr_lanes p). la_kind l = UDPLane \<longrightarrow> isUp l)" using c by (metis order_antisym order_refl)
  then show ?thesis using up assms(3) unfolding handleReadyz_def Let_def r s by auto
qed


text \<open>C9.  A process that is told to stop exits.  From any state it can reach with a signal or a restart request pending,
  or with the shutdown begun, and whatever its lanes and connections are doing, the steps of its own number at most
  \<^const>\<open>stepsBound\<close>, none of the states on the way is stuck, and so they lead to the return of \<^verbatim>\<open>main\<close>.\<close>

theorem stopped_process_exits:
  assumes "main_setup L ml env fl = Inr px" "1 \<le> cl_NumCPU (ml_cfg ml)" "step\<^sup>*\<^sup>* (launch px) p"
    and "pr_main p \<noteq> MWait \<or> pr_sig p \<or> pr_restart p"
  shows "(\<exists>q. own_step\<^sup>*\<^sup>* p q \<and> pr_main q = MExit) \<and> (\<forall>n q. (own_step ^^ n) p q \<longrightarrow> n \<le> stepsBound p) \<and>
    (\<forall>q. own_step\<^sup>*\<^sup>* p q \<longrightarrow> pr_main q = MExit \<or> (\<exists>r. own_step q r))"
proof -
  have inv: "life_inv p" by (rule reach_inv [OF assms(3) launch_inv(1) [OF assms(1,2)]])
  have told: "toldToStop p" using assms(4) by (simp add: toldToStop_def)
  show ?thesis using told_exits [OF inv told] own_bounded told_reach [OF _ inv told] told_progress
    by (meson add_leE)
qed


theorem stopped_process_exits_witness:
  "\<exists>px p q. main_setup sampleLib sampleMain (\<lambda>_. []) noFlags = Inr px \<and> step\<^sup>*\<^sup>* (launch px) p \<and> own_step\<^sup>*\<^sup>* p q \<and> pr_main q = MExit"
proof -
  obtain px where px: "main_setup sampleLib sampleMain (\<lambda>_. []) noFlags = Inr px" using sample_setup by blast
  let ?p = "(launch px)\<lparr>pr_sig := True\<rparr>"
  have "env_step (launch px) ?p" by (rule env_step.signal) (simp add: launch_def)
  then have s: "step\<^sup>*\<^sup>* (launch px) ?p" by (simp add: step_def r_into_rtranclp)
  have "pr_main ?p \<noteq> MWait \<or> pr_sig ?p \<or> pr_restart ?p" by simp
  from stopped_process_exits [OF px sample_cpus s this] show ?thesis using px s by blast
qed

end
