(* ===== verification/Tools.thy ===== *)
theory Tools
  imports Forwarder Config
begin

text \<open>
  The test tools under \<^verbatim>\<open>cmd/\<close>: the latency stamp, the latency sink, the frames \<^verbatim>\<open>send-test-frames\<close> builds, the receive
  loop of \<^verbatim>\<open>recv-test-frames\<close>, and from \<^verbatim>\<open>perf-test\<close> the line counter over the receiver's output and the arithmetic on
  interface counters.  Sockets, HTTP, child processes and the report are not modelled; percentiles are computed with
  exact rationals.
\<close>

subsection \<open>The latency stamp\<close>

definition Magic :: bytes where
  "Magic = map of_char ''1BSVLAT1''"

definition StampSize :: nat where "StampSize = 20"

text \<open>An \<^verbatim>\<open>int64\<close> of nanoseconds is its 64 bits.  \<^const>\<open>None\<close> is the result false, with the slice untouched.\<close>

definition latstamp_Put :: "bytes \<Rightarrow> u64 \<Rightarrow> u32 \<Rightarrow> bytes option" where
  "latstamp_Put p txNanos seq =
     (if length p < StampSize then None
      else do { p1 \<leftarrow> overwrite 0 Magic p;
                p2 \<leftarrow> BE_PutUint64 8 txNanos p1;
                overwrite 16 (be_bytes32 seq) p2 })"

definition latstamp_Get :: "bytes \<Rightarrow> (u64 \<times> u32) option" where
  "latstamp_Get p =
     (if length p < StampSize \<or> take 8 p \<noteq> Magic then None
      else do { t \<leftarrow> BE_Uint64 (drop 8 p); q \<leftarrow> BE_Uint32 (drop 16 p); Some (t, q) })"

text \<open>\<^verbatim>\<open>bytes.Index\<close>.\<close>

fun bytesIndex :: "bytes \<Rightarrow> bytes \<Rightarrow> nat option" where
  "bytesIndex [] sep = (if sep = [] then Some 0 else None)"
| "bytesIndex (b # bs) sep =
     (if take (length sep) (b # bs) = sep then Some 0 else map_option Suc (bytesIndex bs sep))"

definition latstamp_Scan :: "bytes \<Rightarrow> (u64 \<times> u32) option" where
  "latstamp_Scan b =
     (case bytesIndex b Magic of
        None \<Rightarrow> None
      | Some i \<Rightarrow> if i + StampSize > length b then None else latstamp_Get (drop i b))"

lemma Magic_length [simp]: "length Magic = 8"
  by (simp add: Magic_def)

lemma put_bytes:
  assumes "StampSize \<le> length p"
  shows "latstamp_Put p t q = Some (Magic @ be_bytes64 t @ be_bytes32 q @ drop 20 p)"
proof -
  have "overwrite 0 Magic p = Some (Magic @ drop 8 p)" using assms by (simp add: overwrite_def StampSize_def)
  moreover have "BE_PutUint64 8 t (Magic @ drop 8 p) = Some (Magic @ be_bytes64 t @ drop 16 p)"
    using assms by (simp add: BE_PutUint64_def overwrite_def StampSize_def)
  moreover have "overwrite 16 (be_bytes32 q) (Magic @ be_bytes64 t @ drop 16 p) = Some (Magic @ be_bytes64 t @ be_bytes32 q @ drop 20 p)"
    using assms by (simp add: overwrite_def StampSize_def)
  ultimately show ?thesis using assms by (simp add: latstamp_Put_def StampSize_def)
qed

lemma get_bytes: "latstamp_Get (Magic @ be_bytes64 t @ be_bytes32 q @ rest) = Some (t, q)"
  by (simp add: latstamp_Get_def StampSize_def)

lemma index_first:
  "(\<And>i. i < length pre \<Longrightarrow> take (length sep) (drop i (pre @ b)) \<noteq> sep) \<Longrightarrow> take (length sep) b = sep \<Longrightarrow> b \<noteq> [] \<Longrightarrow>
   bytesIndex (pre @ b) sep = Some (length pre)"
proof (induction pre)
  case Nil
  then show ?case by (cases b) simp_all
next
  case (Cons x pre)
  then have "take (length sep) (x # pre @ b) \<noteq> sep" by fastforce
  moreover have "bytesIndex (pre @ b) sep = Some (length pre)" using Cons by fastforce
  ultimately show ?case by simp
qed

subsection \<open>The sink\<close>

record probeState =
  pb_window :: int
  pb_ts :: "int list"
  pb_lat :: "int list"
  pb_total :: u64

definition newProbeState :: "int \<Rightarrow> probeState" where
  "newProbeState w = \<lparr>pb_window = w, pb_ts = [], pb_lat = [], pb_total = 0\<rparr>"

fun countBefore :: "int \<Rightarrow> int list \<Rightarrow> nat" where
  "countBefore limit [] = 0"
| "countBefore limit (t # ts) = (if t < limit then Suc (countBefore limit ts) else 0)"

definition probe_record :: "int \<Rightarrow> int \<Rightarrow> probeState \<Rightarrow> probeState" where
  "probe_record nowNs latNs p =
     (let ts = pb_ts p @ [nowNs]; lat = pb_lat p @ [latNs]; i = countBefore (nowNs - pb_window p) ts
      in p\<lparr>pb_total := pb_total p + 1, pb_ts := drop i ts, pb_lat := drop i lat\<rparr>)"

definition probe_snapshot :: "probeState \<Rightarrow> int list \<times> u64" where
  "probe_snapshot p = (sort (pb_lat p), pb_total p)"

text \<open>The percentile both reports take of a sorted list.\<close>

definition percentile :: "rat \<Rightarrow> int list \<Rightarrow> int" where
  "percentile q v =
     (if v = [] then 0
      else let i = nat \<lfloor>q * of_nat (length v)\<rfloor> in v ! (if i \<ge> length v then length v - 1 else i))"

record sink =
  sk_datagrams :: nat
  sk_stamped :: nat
  sk_dups :: nat
  sk_decodeErr :: nat
  sk_seen :: "u32 list"
  sk_lats :: "int list"
  sk_probe :: "probeState option"

definition newSink :: "probeState option \<Rightarrow> sink" where
  "newSink pb = \<lparr>sk_datagrams = 0, sk_stamped = 0, sk_dups = 0, sk_decodeErr = 0, sk_seen = [], sk_lats = [], sk_probe = pb\<rparr>"

text \<open>One datagram, received at \<open>now\<close>.\<close>

definition sinkStep :: "(bytes \<Rightarrow> Frame option) \<Rightarrow> int \<times> bytes \<Rightarrow> sink \<Rightarrow> sink" where
  "sinkStep dec m k0 =
     (let (now, raw) = m; k = k0\<lparr>sk_datagrams := sk_datagrams k0 + 1\<rparr>;
          (k1, st) = (case dec raw of
                        Some f \<Rightarrow> (k, latstamp_Get (f_payload f))
                      | None \<Rightarrow> (k\<lparr>sk_decodeErr := sk_decodeErr k + 1\<rparr>, latstamp_Scan raw))
      in case st of
           None \<Rightarrow> k1
         | Some (tx, seq) \<Rightarrow>
             let k2 = k1\<lparr>sk_stamped := sk_stamped k1 + 1\<rparr>; lat = now - sint tx
             in if seq \<in> set (sk_seen k2) then k2\<lparr>sk_dups := sk_dups k2 + 1\<rparr>
                else k2\<lparr>sk_seen := sk_seen k2 @ [seq], sk_lats := sk_lats k2 @ [lat],
                        sk_probe := map_option (probe_record now lat) (sk_probe k2)\<rparr>)"

definition sinkRun :: "(bytes \<Rightarrow> Frame option) \<Rightarrow> (int \<times> bytes) list \<Rightarrow> sink \<Rightarrow> sink" where
  "sinkRun dec ms k = fold (sinkStep dec) ms k"

definition sink_ok :: "sink \<Rightarrow> bool" where
  "sink_ok k \<longleftrightarrow> distinct (sk_seen k) \<and> length (sk_lats k) = length (sk_seen k) \<and>
     sk_stamped k = length (sk_seen k) + sk_dups k \<and> sk_stamped k \<le> sk_datagrams k \<and> sk_decodeErr k \<le> sk_datagrams k \<and>
     (case sk_probe k of None \<Rightarrow> True | Some p \<Rightarrow> length (pb_ts p) = length (pb_lat p) \<and> length (pb_lat p) \<le> length (sk_lats k))"

lemma sinkStep_ok: "sink_ok k \<Longrightarrow> sink_ok (sinkStep dec m k)"
  by (auto simp: sink_ok_def sinkStep_def probe_record_def Let_def split: prod.splits option.splits)

lemma sinkRun_ok: "pb = None \<or> pb = Some (newProbeState w) \<Longrightarrow> sink_ok (sinkRun dec ms (newSink pb))"
proof -
  assume "pb = None \<or> pb = Some (newProbeState w)"
  then have "sink_ok (newSink pb)" by (auto simp: sink_ok_def newSink_def newProbeState_def)
  then show ?thesis unfolding sinkRun_def by (induction ms arbitrary: pb rule: rev_induct) (simp_all add: sinkStep_ok)
qed

subsection \<open>Sender and receiver\<close>

definition sha256dOf :: "bytes \<Rightarrow> bytes" where
  "sha256dOf payload = sha256 (sha256 payload)"

definition fragDataSize :: "int \<Rightarrow> nat" where
  "fragDataSize fragMTU = (if fragMTU > int ipv6UDPOverhead then nat (fragMTU - int ipv6UDPOverhead) else 0)"

text \<open>The identifier of a test frame: the hash of the payload with its first four bytes replaced by the routing
  bits, those of group \<open>g\<close> with \<^verbatim>\<open>-spread\<close> and the frame number without.\<close>

definition testTxID :: "bytes \<Rightarrow> u32 \<Rightarrow> bytes" where
  "testTxID payload v = be_bytes32 v @ drop 4 (sha256dOf payload)"

definition spreadStep :: "nat \<Rightarrow> u32" where
  "spreadStep shardBits = push_bit (32 - shardBits) 1"

definition spreadTxID :: "bytes \<Rightarrow> nat \<Rightarrow> nat \<Rightarrow> bytes" where
  "spreadTxID payload shardBits g = testTxID payload (of_nat g * spreadStep shardBits)"

text \<open>The fragments sent, up to the first the encoder refuses (the tool then exits).\<close>

fun sendFragsFrom :: "lib \<Rightarrow> (nat \<Rightarrow> fragment_hdr) \<Rightarrow> nat \<Rightarrow> nat list \<Rightarrow> bytes list" where
  "sendFragsFrom L hdr n [] = []"
| "sendFragsFrom L hdr n (i # is) =
     (case frame_EncodeFragment L n (hdr i) of None \<Rightarrow> [] | Some d \<Rightarrow> d # sendFragsFrom L hdr n is)"

definition sendFragments :: "lib \<Rightarrow> bytes \<Rightarrow> bytes \<Rightarrow> nat \<Rightarrow> u64 \<Rightarrow> bytes list" where
  "sendFragments L txID payload dataSize seqBase =
     (let k = fragCount dataSize payload
      in sendFragsFrom L (\<lambda>i. fragHdr txID zero32 0 dataSize payload k i 0xDEADBEEF01020304 (seqBase + of_nat i))
           (HeaderSizeV3 + dataSize) [0..<k])"

text \<open>A spread cycle names every group once: under the rule of the fabric that the leading bits of the identifier are
  the group, frame \<open>g\<close> of a cycle goes to group \<open>g\<close>.\<close>

lemma spread_groups:
  assumes "1 \<le> shardBits" "shardBits \<le> 12" "g < 2 ^ shardBits"
  shows "drop_bit (32 - shardBits) (of_nat g * spreadStep shardBits) = of_nat g"
proof -
  have p: "(2 :: nat) ^ shardBits * 2 ^ (32 - shardBits) = 2 ^ 32" using assms by (simp flip: power_add)
  have "g * 2 ^ (32 - shardBits) < 2 ^ shardBits * 2 ^ (32 - shardBits)" using assms(3) by simp
  then have l: "g * 2 ^ (32 - shardBits) < 2 ^ 32" by (simp only: p)
  have "of_nat g * spreadStep shardBits = (of_nat (g * 2 ^ (32 - shardBits)) :: u32)"
    by (simp add: spreadStep_def push_bit_eq_mult)
  moreover have d: "drop_bit n (of_nat m :: u32) = of_nat (m div 2 ^ n)" if "m < 2 ^ 32" for n m
  proof -
    have "m div 2 ^ n < 2 ^ 32" using that div_le_dividend [of m "2 ^ n"] by linarith
    moreover have "unat (drop_bit n w) = unat w div 2 ^ n" for w :: u32
      unfolding unsigned_drop_bit_eq using unsigned_less [of w, where 'a = nat] by (simp add: drop_bit_eq_div take_bit_nat_eq_self)
    ultimately show ?thesis using that by (simp add: word_unat_eq_iff unat_of_nat take_bit_nat_eq_self)
  qed
  ultimately show ?thesis using d [OF l, of "32 - shardBits"] by (simp del: of_nat_mult of_nat_power)
qed

text \<open>The receive loop: counts decoded frames and, with a limit, ends when it is reached.\<close>

fun recvFrames :: "(bytes \<Rightarrow> Frame option) \<Rightarrow> nat \<Rightarrow> bytes list \<Rightarrow> nat \<Rightarrow> bool \<times> nat" where
  "recvFrames dec limit [] n = (False, n)"
| "recvFrames dec limit (raw # raws) n =
     (if dec raw = None then recvFrames dec limit raws n
      else if limit > 0 then (if n + 1 \<ge> limit then (True, n + 1) else recvFrames dec limit raws (n + 1))
      else recvFrames dec limit raws n)"

subsection \<open>Counting the receiver's output\<close>

fun splitOn :: "char \<Rightarrow> string \<Rightarrow> string list" where
  "splitOn d [] = [[]]"
| "splitOn d (c # cs) =
     (if c = d then [] # splitOn d cs
      else case splitOn d cs of [] \<Rightarrow> [[c]] | x # xs \<Rightarrow> (c # x) # xs)"

record recvProc =
  rp_count :: int
  rp_out :: string
  rp_partial :: string

definition isRecvLine :: "string \<Rightarrow> bool" where
  "isRecvLine line \<longleftrightarrow> take 5 (TrimSpace line) = ''recv ''"

definition recvWriter_Write :: "string \<Rightarrow> recvProc \<Rightarrow> recvProc" where
  "recvWriter_Write p rp =
     (let parts = splitOn (char_of (10 :: nat)) (rp_partial rp @ p)
      in rp\<lparr>rp_out := rp_out rp @ p, rp_partial := last parts,
            rp_count := rp_count rp + int (length (filter isRecvLine (butlast parts)))\<rparr>)"

lemma splitOn_ne [simp]: "splitOn d xs \<noteq> []"
  by (cases xs) (auto split: list.split)

lemma splitOn_append: "splitOn d (xs @ ys) = butlast (splitOn d xs) @ splitOn d (last (splitOn d xs) @ ys)"
proof (induction xs)
  case (Cons x xs)
  obtain a as where a: "splitOn d xs = a # as" by (cases "splitOn d xs") auto
  show ?case
  proof (cases "x = d")
    case True
    then show ?thesis using Cons a by simp
  next
    case False
    then show ?thesis using Cons a by (cases as) (auto split: list.splits)
  qed
qed simp

lemma write_twice: "recvWriter_Write q (recvWriter_Write p rp) = recvWriter_Write (p @ q) rp"
  using splitOn_append [of "char_of (10 :: nat)" "rp_partial rp @ p" q]
  by (simp add: recvWriter_Write_def Let_def butlast_append)

text \<open>However the output is cut into writes, the count is that of the whole output.\<close>

lemma writes_cut_free:
  "fold recvWriter_Write chunks \<lparr>rp_count = 0, rp_out = [], rp_partial = []\<rparr> =
     recvWriter_Write (concat chunks) \<lparr>rp_count = 0, rp_out = [], rp_partial = []\<rparr>"
  by (induction chunks rule: rev_induct) (simp_all add: write_twice, simp add: recvWriter_Write_def)

subsection \<open>Interface counters\<close>

definition saturatingSub :: "u64 \<Rightarrow> u64 \<Rightarrow> u64" where
  "saturatingSub a b = (if a < b then 0 else a - b)"

record ifaceStats =
  st_RXPackets :: u64
  st_RXBytes :: u64
  st_RXErrors :: u64
  st_RXDropped :: u64
  st_TXPackets :: u64
  st_TXBytes :: u64
  st_TXErrors :: u64
  st_TXDropped :: u64

definition ifaceStatsDelta :: "ifaceStats \<Rightarrow> ifaceStats \<Rightarrow> ifaceStats" where
  "ifaceStatsDelta before after =
     \<lparr>st_RXPackets = saturatingSub (st_RXPackets after) (st_RXPackets before),
      st_RXBytes = saturatingSub (st_RXBytes after) (st_RXBytes before),
      st_RXErrors = saturatingSub (st_RXErrors after) (st_RXErrors before),
      st_RXDropped = saturatingSub (st_RXDropped after) (st_RXDropped before),
      st_TXPackets = saturatingSub (st_TXPackets after) (st_TXPackets before),
      st_TXBytes = saturatingSub (st_TXBytes after) (st_TXBytes before),
      st_TXErrors = saturatingSub (st_TXErrors after) (st_TXErrors before),
      st_TXDropped = saturatingSub (st_TXDropped after) (st_TXDropped before)\<rparr>"

lemma saturatingSub_unat: "unat (saturatingSub a b) = unat a - unat b"
  by (simp add: saturatingSub_def unat_sub_if' word_less_nat_alt)

subsection \<open>Properties\<close>

text \<open>The latency stamp round trips.  Put at the head of a payload with room for it, it leaves the rest of the payload
  alone and is read back exactly: from the payload, and by the scan of a datagram that carries the payload behind
  any bytes in which the magic does not start earlier.\<close>

lemma stamp_roundtrip:
  assumes "StampSize \<le> length p" "latstamp_Put p t q = Some p'" "\<forall>i < length pre. take 8 (drop i (pre @ p')) \<noteq> Magic"
  shows "latstamp_Get p' = Some (t, q) \<and> latstamp_Scan (pre @ p') = Some (t, q) \<and> length p' = length p \<and> drop 20 p' = drop 20 p"
proof -
  have p': "p' = Magic @ be_bytes64 t @ be_bytes32 q @ drop 20 p" using put_bytes [OF assms(1), of t q] assms(2) by simp
  have "p' \<noteq> []" "take (length Magic) p' = Magic" by (auto simp: p' Magic_def)
  then have "bytesIndex (pre @ p') Magic = Some (length pre)" using assms(3) by (intro index_first) simp_all
  moreover have "length p' = length p" using assms(1) by (simp add: p' StampSize_def)
  ultimately show ?thesis using assms(1) get_bytes [of t q "drop 20 p"] by (simp add: latstamp_Scan_def p')
qed

end
