(* ===== verification/PerfTest.thy ===== *)
theory PerfTest
  imports Tools Metrics
begin

text \<open>
  \<^verbatim>\<open>cmd/perf-test\<close>: its configuration, the parser of the metrics page, the differences it reports, the parsers of the
  outputs it collects from the receivers, and the paced senders.  HTTP replies, the outputs of the commands it runs,
  the clock and the random numbers are arguments; float64 values are exact rationals.
\<close>

subsection \<open>Configuration\<close>

record perfConfig =
  pc_ProxyAddr :: string
  pc_MetricsURL :: string
  pc_ShardBits :: nat
  pc_PPS :: int
  pc_Duration :: int
  pc_PayloadMin :: int
  pc_PayloadMax :: int
  pc_LXD :: bool
  pc_Receivers :: "string list"
  pc_Output :: string
  pc_Senders :: int
  pc_LatencyStamp :: bool
  pc_StampEvery :: int

definition parseFlags :: "cmdline \<Rightarrow> perfConfig" where
  "parseFlags fl =
     \<lparr>pc_ProxyAddr = given (fl_str fl ''proxy-addr'') ''[::1]:8725'',
      pc_MetricsURL = given (fl_str fl ''metrics-url'') ''http://192.0.2.20:9100'',
      pc_ShardBits = given (fl_uint fl ''shard-bits'') 2,
      pc_PPS = given (fl_int fl ''pps'') 10000,
      pc_Duration = given (fl_dur fl ''duration'') (300 * 10 ^ 9),
      pc_PayloadMin = given (fl_int fl ''payload-min'') 256,
      pc_PayloadMax = given (fl_int fl ''payload-max'') 512,
      pc_LXD = given (fl_bool fl ''lxd'') False,
      pc_Receivers = filter (\<lambda>r. r \<noteq> []) (map TrimSpace (splitComma (given (fl_str fl ''receivers'') ''recv1,recv2,recv3''))),
      pc_Output = given (fl_str fl ''output'') ''report.md'',
      pc_Senders = given (fl_int fl ''senders'') 1,
      pc_LatencyStamp = given (fl_bool fl ''latency-stamp'') False,
      pc_StampEvery = given (fl_int fl ''stamp-every'') 1\<rparr>"

subsection \<open>The metrics page\<close>

text \<open>The regular expression of a sample line, \<^verbatim>\<open>name{labels} value\<close>.  Each of its repetitions is followed by a
  character outside its class, so that matching never backtracks.\<close>

definition reAlpha :: "char \<Rightarrow> bool" where
  "reAlpha c \<longleftrightarrow> (let n = of_char c :: nat in 97 \<le> n \<and> n \<le> 122 \<or> 65 \<le> n \<and> n \<le> 90 \<or> c = CHR ''_'' \<or> c = CHR '':'')"

definition reDigit :: "char \<Rightarrow> bool" where
  "reDigit c \<longleftrightarrow> (let n = of_char c :: nat in 48 \<le> n \<and> n \<le> 57)"

definition reSpace :: "char \<Rightarrow> bool" where
  "reSpace c \<longleftrightarrow> of_char c \<in> {0x20, 0x09, 0x0A, 0x0C, 0x0D :: nat}"

definition reName :: "char \<Rightarrow> bool" where
  "reName c \<longleftrightarrow> reAlpha c \<or> reDigit c"

definition reValue :: "char \<Rightarrow> bool" where
  "reValue c \<longleftrightarrow> reDigit c \<or> c \<in> {CHR ''e'', CHR ''E'', CHR ''.'', CHR ''+'', CHR ''-''}"

definition labelBlock :: "string \<Rightarrow> string \<times> string" where
  "labelBlock s =
     (if take 1 s = ''{'' \<and> CHR ''}'' \<in> set s
      then (takeWhile (\<lambda>c. c \<noteq> CHR ''}'') s @ ''}'', tl (dropWhile (\<lambda>c. c \<noteq> CHR ''}'') s))
      else ([], s))"

definition lineRe :: "string \<Rightarrow> (string \<times> string \<times> string) option" where
  "lineRe s =
     (if s = [] \<or> \<not> reAlpha (hd s) then None
      else let name = takeWhile reName s;
               (labels, rest) = labelBlock (dropWhile reName s);
               val = takeWhile reValue (dropWhile reSpace rest)
           in if takeWhile reSpace rest = [] \<or> val = [] then None else Some (name, labels, val))"

text \<open>\<^verbatim>\<open>strconv.ParseFloat\<close> on the characters the expression lets through.\<close>

definition decimals :: "string \<Rightarrow> nat" where
  "decimals ds = fold (\<lambda>c n. n * 10 + (of_char c - 48)) ds 0"

definition signOf :: "string \<Rightarrow> bool \<times> string" where
  "signOf s = (if take 1 s = ''-'' then (True, tl s) else if take 1 s = ''+'' then (False, tl s) else (False, s))"

definition exponentOf :: "string \<Rightarrow> int option" where
  "exponentOf s =
     (if s = [] then Some 0
      else if hd s \<noteq> CHR ''e'' \<and> hd s \<noteq> CHR ''E'' then None
      else let (neg, ds) = signOf (tl s)
           in if ds = [] \<or> \<not> list_all reDigit ds then None
              else Some (if neg then - int (decimals ds) else int (decimals ds)))"

definition ParseFloat :: "string \<Rightarrow> rat option" where
  "ParseFloat s =
     (let (neg, s1) = signOf s;
          whole = takeWhile reDigit s1; r1 = dropWhile reDigit s1;
          frac = (if take 1 r1 = ''.'' then takeWhile reDigit (tl r1) else []);
          r2 = (if take 1 r1 = ''.'' then dropWhile reDigit (tl r1) else r1)
      in if whole = [] \<and> frac = [] then None
         else case exponentOf r2 of
                None \<Rightarrow> None
              | Some e \<Rightarrow>
                  let k = e - int (length frac);
                      m = rat_of_nat (decimals (whole @ frac)) * (if k < 0 then 1 / 10 ^ nat (- k) else 10 ^ nat k)
                  in if m \<ge> 2 ^ 1024 - 2 ^ 970 then None else Some (if neg then - m else m))"

text \<open>\<^verbatim>\<open>bufio.Scanner\<close> over lines: it stops at a line that does not fit its buffer, without an error the caller looks at.\<close>

definition newline :: char where "newline = CHR 0x0A"

definition dropCR :: "string \<Rightarrow> string" where
  "dropCR l = (if l \<noteq> [] \<and> last l = CHR 0x0D then butlast l else l)"

definition MaxScanTokenSize :: nat where "MaxScanTokenSize = 65536"

definition scanLines :: "string \<Rightarrow> string list" where
  "scanLines s =
     (let ps = splitOn newline s; ls = (if last ps = [] then butlast ps else ps)
      in map dropCR (takeWhile (\<lambda>l. length l < MaxScanTokenSize) ls))"

record metricsSnapshot =
  sn_Counters :: "(string \<times> rat) list"
  sn_Labeled :: "(string \<times> (string \<times> rat) list) list"
  sn_Raw :: string

definition simpleMetrics :: "string list" where
  "simpleMetrics =
     [''bsp_packets_received_total'', ''bsp_packets_forwarded_total'', ''bsp_packets_dropped_total'', ''bsp_bytes_received_total'',
      ''bsp_bytes_forwarded_total'', ''bsp_egress_errors_total'', ''bsp_ingress_errors_total'', ''bsp_active_groups'']"

definition labeledMetrics :: "string list" where
  "labeledMetrics = [''bsp_flow_packets_total'', ''bsp_flow_bytes_total'']"

text \<open>\<^verbatim>\<open>m[k]\<close> of a map, zero when absent, and \<^verbatim>\<open>m[k] += v\<close>.\<close>

definition al_val :: "'k \<Rightarrow> ('k \<times> 'v::zero) list \<Rightarrow> 'v" where
  "al_val k m = (case map_of m k of None \<Rightarrow> 0 | Some v \<Rightarrow> v)"

definition al_add :: "'k \<Rightarrow> 'v::monoid_add \<Rightarrow> ('k \<times> 'v) list \<Rightarrow> ('k \<times> 'v) list" where
  "al_add k v m = al_put k (al_val k m + v) m"

definition labeledOf :: "string \<Rightarrow> metricsSnapshot \<Rightarrow> (string \<times> rat) list" where
  "labeledOf name sn = (case map_of (sn_Labeled sn) name of None \<Rightarrow> [] | Some m \<Rightarrow> m)"

definition addSample :: "string \<Rightarrow> string \<Rightarrow> rat \<Rightarrow> metricsSnapshot \<Rightarrow> metricsSnapshot" where
  "addSample name labels val sn =
     (let sn1 = (if name \<in> set simpleMetrics then sn\<lparr>sn_Counters := al_add name val (sn_Counters sn)\<rparr> else sn)
      in if name \<in> set labeledMetrics \<and> labels \<noteq> []
         then sn1\<lparr>sn_Labeled := al_put name (al_add labels val (labeledOf name sn1)) (sn_Labeled sn1)\<rparr> else sn1)"

definition scrapeLine :: "string \<Rightarrow> metricsSnapshot \<Rightarrow> metricsSnapshot" where
  "scrapeLine line sn =
     (if take 1 line = ''#'' then sn
      else case lineRe line of
             None \<Rightarrow> sn
           | Some (name, labels, txt) \<Rightarrow> (case ParseFloat txt of None \<Rightarrow> sn | Some val \<Rightarrow> addSample name labels val sn))"

definition scrapeBody :: "string \<Rightarrow> metricsSnapshot" where
  "scrapeBody body = fold scrapeLine (scanLines body) \<lparr>sn_Counters = [], sn_Labeled = [], sn_Raw = body\<rparr>"

text \<open>The reply to a GET: an error, or the status with the body or the error of reading it.\<close>

type_synonym http_reply = "string + (nat \<times> (string + string))"

definition scrapeMetrics :: "http_reply \<Rightarrow> string + metricsSnapshot" where
  "scrapeMetrics reply =
     (case reply of
        Inl e \<Rightarrow> Inl (''scrape: '' @ e)
      | Inr (status, Inl e) \<Rightarrow> Inl (''read metrics body: '' @ e)
      | Inr (status, Inr body) \<Rightarrow> if status \<noteq> 200 then Inl (''scrape: HTTP '' @ Itoa (int status)) else Inr (scrapeBody body))"

definition metricsDelta :: "metricsSnapshot \<Rightarrow> metricsSnapshot \<Rightarrow> (string \<times> rat) list" where
  "metricsDelta before after = map (\<lambda>(k, v). (k, v - al_val k (sn_Counters before))) (sn_Counters after)"

definition flowDelta :: "metricsSnapshot \<Rightarrow> metricsSnapshot \<Rightarrow> string \<Rightarrow> (string \<times> rat) list" where
  "flowDelta before after metric = map (\<lambda>(k, v). (k, v - al_val k (labeledOf metric before))) (labeledOf metric after)"

text \<open>The value of the label \<^verbatim>\<open>group\<close>: the first place where the label with a non-empty, closed value starts.\<close>

fun extractGroup :: "string \<Rightarrow> string option" where
  "extractGroup [] = None"
| "extractGroup (c # cs) =
     (let v = drop 6 cs; g = takeWhile (\<lambda>d. d \<noteq> CHR 0x22) v
      in if take 7 (c # cs) = ''group='' @ [CHR 0x22] \<and> g \<noteq> [] \<and> CHR 0x22 \<in> set v then Some g else extractGroup cs)"

definition extractGroupFromLabels :: "string \<Rightarrow> string" where
  "extractGroupFromLabels labels = (case extractGroup labels of Some g \<Rightarrow> g | None \<Rightarrow> labels)"

subsection \<open>Outputs of the receivers\<close>

text \<open>\<^verbatim>\<open>strconv.ParseUint(s, 10, 64)\<close> with its error ignored: zero for a syntax error, the largest value out of range.\<close>

definition parseStat :: "string \<Rightarrow> u64" where
  "parseStat s = (if s = [] \<or> \<not> list_all reDigit s then 0 else if decimals s < 2 ^ 64 then of_nat (decimals s) else - 1)"

function fields :: "string \<Rightarrow> string list" where
  "fields [] = []"
| "fields (c # cs) =
     (if isSpace c then fields cs
      else (c # takeWhile (\<lambda>d. \<not> isSpace d) cs) # fields (dropWhile (\<lambda>d. \<not> isSpace d) cs))"
  by pat_completeness auto
termination
  by (relation "measure length") (simp_all add: less_Suc_eq_le length_dropWhile_le)

definition statFields :: "string list \<Rightarrow> (u64 \<times> u64 \<times> u64 \<times> u64) option" where
  "statFields rest =
     (case rest of
        [] \<Rightarrow> None
      | l # ls \<Rightarrow> (case fields (TrimSpace l) of
                    a # b # c # d # xs \<Rightarrow> Some (parseStat a, parseStat b, parseStat c, parseStat d)
                  | _ \<Rightarrow> None))"

definition statLine :: "string \<Rightarrow> string list \<Rightarrow> ifaceStats \<Rightarrow> ifaceStats" where
  "statLine l rest s =
     (let s1 = (if take 3 (TrimSpace l) = ''RX:'' then
                  (case statFields rest of
                     None \<Rightarrow> s
                   | Some (b, p, e, d) \<Rightarrow> s\<lparr>st_RXBytes := b, st_RXPackets := p, st_RXErrors := e, st_RXDropped := d\<rparr>) else s)
      in if take 3 (TrimSpace l) = ''TX:'' then
           (case statFields rest of
              None \<Rightarrow> s1
            | Some (b, p, e, d) \<Rightarrow> s1\<lparr>st_TXBytes := b, st_TXPackets := p, st_TXErrors := e, st_TXDropped := d\<rparr>) else s1)"

fun statLines :: "string list \<Rightarrow> ifaceStats \<Rightarrow> ifaceStats" where
  "statLines [] s = s"
| "statLines (l # ls) s = statLines ls (statLine l ls s)"

definition zeroStats :: ifaceStats where
  "zeroStats = \<lparr>st_RXPackets = 0, st_RXBytes = 0, st_RXErrors = 0, st_RXDropped = 0,
                st_TXPackets = 0, st_TXBytes = 0, st_TXErrors = 0, st_TXDropped = 0\<rparr>"

definition parseIfaceStats :: "string \<Rightarrow> ifaceStats" where
  "parseIfaceStats output = statLines (splitOn newline output) zeroStats"

definition tsharkGroupCounts :: "string \<Rightarrow> (string \<times> nat) list" where
  "tsharkGroupCounts out = fold (\<lambda>a m. al_add a 1 m) (filter (\<lambda>a. a \<noteq> []) (map TrimSpace (scanLines out))) []"

definition sumCounts :: "(string \<times> nat) list \<Rightarrow> nat" where
  "sumCounts m = sum_list (map snd m)"

definition knownGroupMembership :: "(string \<times> string list) list" where
  "knownGroupMembership =
     [(''recv1'', [''ff05::'', ''ff05::1'', ''ff05::2'', ''ff05::3'']), (''recv2'', [''ff05::2'']), (''recv3'', [''ff05::1'', ''ff05::3''])]"

definition groupsForReceiver :: "string \<Rightarrow> string list" where
  "groupsForReceiver vm = (case map_of knownGroupMembership vm of Some g \<Rightarrow> g | None \<Rightarrow> [])"

definition groupIndexToAddr :: "string \<Rightarrow> string" where
  "groupIndexToAddr groupHex =
     (case ParseUint groupHex 16 32 of None \<Rightarrow> ''ff05::'' @ groupHex | Some idx \<Rightarrow> ''ff05::'' @ baseDigits 16 idx)"

text \<open>The health check: both endpoints must answer 200, asked in order.\<close>

definition healthEndpoints :: "string list" where "healthEndpoints = [''/healthz'', ''/readyz'']"

fun checkEndpoints :: "(string \<Rightarrow> http_reply) \<Rightarrow> string list \<Rightarrow> string option" where
  "checkEndpoints get [] = None"
| "checkEndpoints get (ep # eps) =
     (case get ep of
        Inl e \<Rightarrow> Some (''GET '' @ ep @ '': '' @ e)
      | Inr (status, body) \<Rightarrow> if status \<noteq> 200 then Some (ep @ '' returned '' @ Itoa (int status)) else checkEndpoints get eps)"

definition checkHealth :: "(string \<Rightarrow> http_reply) \<Rightarrow> string option" where
  "checkHealth get = checkEndpoints get healthEndpoints"


subsection \<open>Reading a page gives back its samples\<close>

text \<open>The text format: a line is a comment or a sample, whose name and labels are followed by a space and its value.\<close>

record sample =
  sa_name :: string
  sa_labels :: string
  sa_text :: string

definition sampleLine :: "sample \<Rightarrow> string" where
  "sampleLine s = sa_name s @ sa_labels s @ '' '' @ sa_text s"

definition sampleVal :: "sample \<Rightarrow> rat" where
  "sampleVal s = (case ParseFloat (sa_text s) of None \<Rightarrow> 0 | Some v \<Rightarrow> v)"

definition sample_ok :: "sample \<Rightarrow> bool" where
  "sample_ok s \<longleftrightarrow>
     sa_name s \<noteq> [] \<and> reAlpha (hd (sa_name s)) \<and> list_all reName (sa_name s) \<and>
     (sa_labels s = [] \<or> (\<exists>b. sa_labels s = ''{'' @ b @ ''}'' \<and> CHR ''}'' \<notin> set b)) \<and> newline \<notin> set (sa_labels s) \<and>
     sa_text s \<noteq> [] \<and> list_all reValue (sa_text s) \<and> ParseFloat (sa_text s) \<noteq> None \<and>
     length (sampleLine s) < MaxScanTokenSize"

fun pageLine :: "string + sample \<Rightarrow> string" where
  "pageLine (Inl c) = ''#'' @ c"
| "pageLine (Inr s) = sampleLine s"

fun line_ok :: "string + sample \<Rightarrow> bool" where
  "line_ok (Inl c) \<longleftrightarrow> newline \<notin> set c \<and> CHR 0x0D \<notin> set c \<and> length c + 1 < MaxScanTokenSize"
| "line_ok (Inr s) \<longleftrightarrow> sample_ok s"

definition page :: "(string + sample) list \<Rightarrow> string" where
  "page ls = concat (map (\<lambda>l. pageLine l @ [newline]) ls)"

definition samplesOf :: "(string + sample) list \<Rightarrow> sample list" where
  "samplesOf ls = List.map_filter (\<lambda>l. case l of Inl c \<Rightarrow> None | Inr s \<Rightarrow> Some s) ls"

lemma char_classes:
  "reName c \<Longrightarrow> \<not> reSpace c \<and> c \<noteq> CHR ''{''" "reValue c \<Longrightarrow> \<not> reSpace c" "reAlpha c \<Longrightarrow> reName c \<and> c \<noteq> CHR ''#''"
  by (auto simp: reName_def reAlpha_def reDigit_def reValue_def reSpace_def Let_def)

lemma not_newline: "reName c \<Longrightarrow> c \<noteq> newline" "reValue c \<Longrightarrow> c \<noteq> newline"
  by (auto simp: newline_def reName_def reAlpha_def reDigit_def reValue_def Let_def)

lemma takeWhile_all_then: "list_all P xs \<Longrightarrow> ys = [] \<or> \<not> P (hd ys) \<Longrightarrow> takeWhile P (xs @ ys) = xs \<and> dropWhile P (xs @ ys) = ys"
  by (induction xs) (cases ys; auto)+

lemma space_facts: "reSpace CHR '' ''" "\<not> reName CHR '' ''" "\<not> reName CHR ''{''"
  by (simp_all add: reSpace_def reName_def reAlpha_def reDigit_def)

lemma lineRe_sample:
  assumes "sample_ok s"
  shows "lineRe (sampleLine s) = Some (sa_name s, sa_labels s, sa_text s)"
proof -
  let ?r = "sa_labels s @ '' '' @ sa_text s"
  have hd: "?r = [] \<or> \<not> reName (hd ?r)" using assms space_facts by (auto simp: sample_ok_def)
  note n = takeWhile_all_then [of reName "sa_name s" ?r]
  have n1: "takeWhile reName (sampleLine s) = sa_name s" "dropWhile reName (sampleLine s) = ?r"
    using n hd assms by (simp_all add: sampleLine_def sample_ok_def)
  have l: "labelBlock ?r = (sa_labels s, '' '' @ sa_text s)"
  proof (cases "sa_labels s = []")
    case False
    then obtain b where b: "sa_labels s = ''{'' @ b @ ''}''" "CHR ''}'' \<notin> set b" using assms by (auto simp: sample_ok_def)
    then have "list_all (\<lambda>c. c \<noteq> CHR ''}'') (''{'' @ b)" by (auto simp: list_all_iff)
    from takeWhile_all_then [OF this, of "''}'' @ '' '' @ sa_text s"] show ?thesis using b(1) by (simp add: labelBlock_def)
  qed (simp add: labelBlock_def)
  have v: "takeWhile reSpace ('' '' @ sa_text s) \<noteq> []" "dropWhile reSpace ('' '' @ sa_text s) = sa_text s" "takeWhile reValue (sa_text s) = sa_text s"
    using assms char_classes(2) space_facts(1)
    by (auto simp: sample_ok_def list_all_iff neq_Nil_conv)
  have "sampleLine s \<noteq> [] \<and> reAlpha (hd (sampleLine s))" using assms by (auto simp: sample_ok_def sampleLine_def)
  then show ?thesis using assms v(1) unfolding lineRe_def Let_def n1 l prod.case v(2,3) by (simp add: sample_ok_def)
qed

lemma scrape_sample: "sample_ok s \<Longrightarrow> scrapeLine (sampleLine s) sn = addSample (sa_name s) (sa_labels s) (sampleVal s) sn"
proof -
  assume s: "sample_ok s"
  then have "take 1 (sampleLine s) \<noteq> ''#''"
    using char_classes(3) by (cases "sa_name s") (auto simp: sample_ok_def sampleLine_def)
  then show ?thesis using lineRe_sample [OF s] s by (auto simp: scrapeLine_def sampleVal_def sample_ok_def)
qed

lemma pageLine_plain:
  assumes "line_ok l"
  shows "newline \<notin> set (pageLine l) \<and> length (pageLine l) < MaxScanTokenSize"
proof (cases l)
  case (Inl c)
  then show ?thesis using assms by (auto simp: newline_def)
next
  case (Inr s)
  have "newline \<noteq> CHR '' ''" by (simp add: newline_def)
  then show ?thesis using assms Inr not_newline by (auto simp: sample_ok_def sampleLine_def list_all_iff)
qed


lemma pageLine_dropCR: "line_ok l \<Longrightarrow> dropCR (pageLine l) = pageLine l"
proof (cases l)
  case (Inl c)
  assume "line_ok l"
  then show ?thesis using Inl by (auto simp: dropCR_def dest: last_in_set)
next
  case (Inr s)
  assume "line_ok l"
  then have "reValue (last (pageLine l))" using Inr by (simp add: sample_ok_def sampleLine_def list_all_iff)
  then have "last (pageLine l) \<noteq> CHR 0x0D" by (auto simp: reValue_def reDigit_def)
  then show ?thesis by (simp add: dropCR_def)
qed

lemma splitOn_line: "d \<notin> set x \<Longrightarrow> splitOn d (x @ d # y) = x # splitOn d y"
  by (induction x) auto

lemma split_page: "\<forall>l \<in> set ls. line_ok l \<Longrightarrow> splitOn newline (page ls) = map pageLine ls @ [[]]"
proof (induction ls)
  case (Cons l ls)
  have "splitOn newline (page (l # ls)) = pageLine l # splitOn newline (page ls)"
    using pageLine_plain [of l] Cons.prems splitOn_line [of newline "pageLine l" "page ls"] by (simp add: page_def)
  then show ?case using Cons by simp
qed (simp add: page_def)

lemma scan_page: "\<forall>l \<in> set ls. line_ok l \<Longrightarrow> scanLines (page ls) = map pageLine ls"
proof -
  assume ok: "\<forall>l \<in> set ls. line_ok l"
  have "takeWhile (\<lambda>l. length l < MaxScanTokenSize) (map pageLine ls) = map pageLine ls"
    using ok pageLine_plain by (auto simp: takeWhile_eq_all_conv)
  moreover have "map dropCR (map pageLine ls) = map pageLine ls" using ok pageLine_dropCR by simp
  moreover have "scanLines (page ls) = map dropCR (takeWhile (\<lambda>l. length l < MaxScanTokenSize) (map pageLine ls))"
    by (simp add: scanLines_def split_page [OF ok])
  ultimately show ?thesis by (simp only:)
qed

lemma scrape_page:
  "\<forall>l \<in> set ls. line_ok l \<Longrightarrow>
   fold scrapeLine (map pageLine ls) sn = fold (\<lambda>s. addSample (sa_name s) (sa_labels s) (sampleVal s)) (samplesOf ls) sn"
proof (induction ls arbitrary: sn)
  case (Cons l ls)
  then show ?case by (cases l) (simp_all add: samplesOf_def map_filter_simps scrape_sample, simp add: scrapeLine_def)
qed (simp add: samplesOf_def map_filter_simps)

text \<open>The sum of the samples of a page with a property, if there is one.\<close>

definition totalOf :: "(sample \<Rightarrow> bool) \<Rightarrow> (string + sample) list \<Rightarrow> rat option" where
  "totalOf P ls =
     (if list_ex P (samplesOf ls) then Some (sum_list (map sampleVal (filter P (samplesOf ls)))) else None)"

lemma al_val_put [simp]: "al_val k (al_put k' v m) = (if k = k' then v else al_val k m)"
  by (simp add: al_val_def)

lemma fold_al_add:
  fixes v :: "'a \<Rightarrow> 'v::monoid_add"
  shows "map_of (fold (\<lambda>s. al_add (k s) (v s)) ss m) x =
     (if list_ex (\<lambda>s. k s = x) ss then Some (al_val x m + sum_list (map v (filter (\<lambda>s. k s = x) ss))) else map_of m x)"
proof (induction ss arbitrary: m)
  case (Cons s ss)
  then show ?case by (auto simp: al_add_def add.assoc list_ex_iff filter_empty_conv)
qed simp

lemma counters_fold:
  "sn_Counters (fold (\<lambda>s. addSample (sa_name s) (sa_labels s) (sampleVal s)) ss sn) =
     fold (\<lambda>s. al_add (sa_name s) (sampleVal s)) (filter (\<lambda>s. sa_name s \<in> set simpleMetrics) ss) (sn_Counters sn)"
  by (induction ss arbitrary: sn) (simp_all add: addSample_def Let_def)

lemma labeled_step:
  "labeledOf n (addSample (sa_name s) (sa_labels s) v sn) =
     (if sa_name s = n \<and> n \<in> set labeledMetrics \<and> sa_labels s \<noteq> [] then al_add (sa_labels s) v (labeledOf n sn) else labeledOf n sn)"
  by (simp add: addSample_def labeledOf_def Let_def)

lemma labeled_fold:
  "n \<in> set labeledMetrics \<Longrightarrow>
   labeledOf n (fold (\<lambda>s. addSample (sa_name s) (sa_labels s) (sampleVal s)) ss sn) =
     fold (\<lambda>s. al_add (sa_labels s) (sampleVal s)) (filter (\<lambda>s. sa_name s = n \<and> sa_labels s \<noteq> []) ss) (labeledOf n sn)"
  by (induction ss arbitrary: sn) (simp_all add: labeled_step)

lemma scrape_counters:
  assumes "\<forall>l \<in> set ls. line_ok l"
  shows "map_of (sn_Counters (scrapeBody (page ls))) n =
    (if n \<in> set simpleMetrics then totalOf (\<lambda>s. sa_name s = n) ls else None)"
proof -
  let ?ss = "filter (\<lambda>s. sa_name s \<in> set simpleMetrics) (samplesOf ls)"
  have c: "map_of (sn_Counters (scrapeBody (page ls))) n =
      (if list_ex (\<lambda>s. sa_name s = n) ?ss then Some (sum_list (map sampleVal (filter (\<lambda>s. sa_name s = n) ?ss))) else None)"
    unfolding scrapeBody_def scan_page [OF assms] scrape_page [OF assms] counters_fold fold_al_add by (simp add: al_val_def)
  show ?thesis
  proof (cases "n \<in> set simpleMetrics")
    case True
    then have "filter (\<lambda>s. sa_name s = n) ?ss = filter (\<lambda>s. sa_name s = n) (samplesOf ls)"
      unfolding filter_filter by (intro filter_cong) auto
    moreover have "list_ex (\<lambda>s. sa_name s = n) ?ss = list_ex (\<lambda>s. sa_name s = n) (samplesOf ls)" using True by (auto simp: list_ex_iff)
    ultimately show ?thesis using c True by (simp only: totalOf_def if_True)
  qed (use c in \<open>auto simp: list_ex_iff\<close>)
qed

lemma scrape_labeled:
  assumes "\<forall>l \<in> set ls. line_ok l" "n \<in> set labeledMetrics" "lb \<noteq> []"
  shows "map_of (labeledOf n (scrapeBody (page ls))) lb = totalOf (\<lambda>s. sa_name s = n \<and> sa_labels s = lb) ls"
proof -
  let ?ss = "filter (\<lambda>s. sa_name s = n \<and> sa_labels s \<noteq> []) (samplesOf ls)"
  have e: "labeledOf n \<lparr>sn_Counters = [], sn_Labeled = [], sn_Raw = page ls\<rparr> = []" by (simp add: labeledOf_def)
  have c: "map_of (labeledOf n (scrapeBody (page ls))) lb =
      (if list_ex (\<lambda>s. sa_labels s = lb) ?ss then Some (sum_list (map sampleVal (filter (\<lambda>s. sa_labels s = lb) ?ss))) else None)"
    unfolding scrapeBody_def scan_page [OF assms(1)] scrape_page [OF assms(1)] labeled_fold [OF assms(2)] fold_al_add e
    by (simp add: al_val_def)
  have "filter (\<lambda>s. sa_labels s = lb) ?ss = filter (\<lambda>s. sa_name s = n \<and> sa_labels s = lb) (samplesOf ls)"
    unfolding filter_filter using assms(3) by (intro filter_cong) auto
  moreover have "list_ex (\<lambda>s. sa_labels s = lb) ?ss = list_ex (\<lambda>s. sa_name s = n \<and> sa_labels s = lb) (samplesOf ls)"
    using assms(3) by (auto simp: list_ex_iff)
  ultimately show ?thesis using c by (simp only: totalOf_def)
qed

lemma map_of_delta: "map_of (map (\<lambda>(k, v). (k, v - f k)) m) k = map_option (\<lambda>v. v - f k) (map_of m k)"
  by (induction m) auto

definition less0 :: "rat option \<Rightarrow> rat" where
  "less0 x = (case x of None \<Rightarrow> 0 | Some v \<Rightarrow> v)"





subsection \<open>The paced senders\<close>

text \<open>The generator of \<^verbatim>\<open>math/rand/v2\<close>: its \<open>k\<close>-th value as a \<^verbatim>\<open>Uint64\<close>, or as an \<^verbatim>\<open>IntN(n)\<close>.\<close>

record prng =
  rn_Uint64 :: "nat \<Rightarrow> u64"
  rn_IntN :: "nat \<Rightarrow> nat \<Rightarrow> nat"

definition le_bytes64 :: "u64 \<Rightarrow> bytes" where
  "le_bytes64 w = rev (be_bytes64 w)"

fun fillRand :: "prng \<Rightarrow> nat \<Rightarrow> nat \<Rightarrow> bytes \<times> nat" where
  "fillRand R n k =
     (if 8 \<le> n then (case fillRand R (n - 8) (Suc k) of (b, k') \<Rightarrow> (le_bytes64 (rn_Uint64 R k) @ b, k'))
      else if 0 < n then (take n (le_bytes64 (rn_Uint64 R k)), Suc k) else ([], k))"

declare fillRand.simps [simp del]

text \<open>One turn of the loop: the time since the start in nanoseconds, whether the context is cancelled, the time put in a
  stamp, and whether the socket accepts the write.\<close>

record tick =
  tk_now :: int
  tk_cancelled :: bool
  tk_stamp :: u64
  tk_writes :: bool

record sender =
  se_frames :: nat
  se_bytes :: nat
  se_stampSeq :: u32
  se_rand :: nat
  se_wire :: "bytes list"

text \<open>\<^verbatim>\<open>frame.Encode\<close> of shard-common writes into a buffer of the given length.\<close>

type_synonym encoder = "nat \<Rightarrow> Frame \<Rightarrow> bytes option"

definition payloadLen :: "prng \<Rightarrow> perfConfig \<Rightarrow> nat \<Rightarrow> int \<times> nat" where
  "payloadLen R cfg k =
     (let range = pc_PayloadMax cfg - pc_PayloadMin cfg + 1
      in if range > 1 then (pc_PayloadMin cfg + int (rn_IntN R k (nat range)), Suc k) else (pc_PayloadMin cfg, k))"

definition stampPayload :: "perfConfig \<Rightarrow> tick \<Rightarrow> bytes \<Rightarrow> sender \<Rightarrow> (bytes \<times> sender) option" where
  "stampPayload cfg t p s =
     (if \<not> pc_LatencyStamp cfg then Some (p, s)
      else if pc_StampEvery cfg = 0 then None
      else if int (se_frames s) mod pc_StampEvery cfg \<noteq> 0 then Some (p, s)
      else let q = se_stampSeq s + 1
           in Some (case latstamp_Put p (tk_stamp t) q of None \<Rightarrow> p | Some p' \<Rightarrow> p', s\<lparr>se_stampSeq := q\<rparr>))"

definition sendOne :: "encoder \<Rightarrow> prng \<Rightarrow> perfConfig \<Rightarrow> tick \<Rightarrow> sender \<Rightarrow> sender option" where
  "sendOne enc R cfg t s =
     (let (txid, k1) = fillRand R 32 (se_rand s); (len, k2) = payloadLen R cfg k1 in
      if len < 0 \<or> len > pc_PayloadMax cfg then None
      else let (p, k3) = fillRand R (nat len) k2 in
      do { (p', s1) \<leftarrow> stampPayload cfg t p (s\<lparr>se_rand := k3\<rparr>);
           Some (case enc (HeaderSizeV2 + nat (pc_PayloadMax cfg))
                        \<lparr>f_version = 0, f_txid = txid, f_seq = 0, f_sub = zero32, f_payload = p'\<rparr> of
                   None \<Rightarrow> s1
                 | Some d \<Rightarrow> if \<not> tk_writes t then s1
                             else s1\<lparr>se_frames := Suc (se_frames s1), se_bytes := se_bytes s1 + length d, se_wire := se_wire s1 @ [d]\<rparr>) })"

text \<open>The number of frames that should have been sent by now.\<close>

definition frameTarget :: "int \<Rightarrow> int \<Rightarrow> int" where
  "frameTarget now targetPPS = now * targetPPS div 10 ^ 9"

text \<open>The loop until the deadline or the cancellation; the flag says that it has ended.\<close>

fun senderLoop :: "encoder \<Rightarrow> prng \<Rightarrow> perfConfig \<Rightarrow> int \<Rightarrow> tick list \<Rightarrow> sender \<Rightarrow> (bool \<times> sender) option" where
  "senderLoop enc R cfg pps [] s = Some (False, s)"
| "senderLoop enc R cfg pps (t # ts) s =
     (if tk_now t > pc_Duration cfg then Some (True, s)
      else if tk_cancelled t then Some (True, s)
      else if int (se_frames s) \<ge> frameTarget (tk_now t) pps then senderLoop enc R cfg pps ts s
      else do { s' \<leftarrow> sendOne enc R cfg t s; senderLoop enc R cfg pps ts s' })"

record sendResult =
  sr_FramesSent :: nat
  sr_BytesSent :: nat
  sr_Elapsed :: int
  sr_ActualPPS :: rat
  sr_Mbps :: rat

definition rates :: "nat \<Rightarrow> nat \<Rightarrow> int \<Rightarrow> sendResult" where
  "rates frames byts elapsed =
     (let sec = of_int elapsed / 10 ^ 9 :: rat
      in \<lparr>sr_FramesSent = frames, sr_BytesSent = byts, sr_Elapsed = elapsed,
          sr_ActualPPS = (if elapsed > 0 then of_nat frames / sec else 0),
          sr_Mbps = (if elapsed > 0 then of_nat byts * 8 / sec / 10 ^ 6 else 0)\<rparr>)"

text \<open>The run of a sender: the turns of its loop and the time it took.  The stamp counter is shared by the senders;
  \<open>ru_seq\<close> is its value when this one starts.\<close>

record sender_run =
  ru_ticks :: "tick list"
  ru_elapsed :: int
  ru_seq :: u32
  ru_rand :: nat

definition newSender :: "sender_run \<Rightarrow> sender" where
  "newSender r = \<lparr>se_frames = 0, se_bytes = 0, se_stampSeq = ru_seq r, se_rand = ru_rand r, se_wire = []\<rparr>"

definition sendFramesWorker :: "encoder \<Rightarrow> prng \<Rightarrow> perfConfig \<Rightarrow> int \<Rightarrow> sender_run \<Rightarrow> (sendResult \<times> bytes list) option" where
  "sendFramesWorker enc R cfg targetPPS r =
     do { (ended, s) \<leftarrow> senderLoop enc R cfg targetPPS (ru_ticks r) (newSender r);
          Some (rates (se_frames s) (se_bytes s) (ru_elapsed r), se_wire s) }"

text \<open>The totals of several senders; the frames on the wire are kept per sender.\<close>

definition aggregate :: "(sendResult \<times> bytes list) list \<Rightarrow> sendResult" where
  "aggregate rs =
     rates (sum_list (map (sr_FramesSent \<circ> fst) rs)) (sum_list (map (sr_BytesSent \<circ> fst) rs))
       (fold (\<lambda>r m. if sr_Elapsed (fst r) > m then sr_Elapsed (fst r) else m) rs 0)"

fun runAll :: "('a \<Rightarrow> 'b option) \<Rightarrow> 'a list \<Rightarrow> 'b list option" where
  "runAll f [] = Some []"
| "runAll f (x # xs) = do { y \<leftarrow> f x; ys \<leftarrow> runAll f xs; Some (y # ys) }"

text \<open>The share of a sender; integer division truncates.\<close>

definition ppsEach :: "perfConfig \<Rightarrow> int" where
  "ppsEach cfg = (if pc_PPS cfg < 0 then - (- pc_PPS cfg div pc_Senders cfg) else pc_PPS cfg div pc_Senders cfg)"

text \<open>One run for each of the senders there are.\<close>

definition sendFrames :: "encoder \<Rightarrow> prng \<Rightarrow> perfConfig \<Rightarrow> sender_run list \<Rightarrow> (sendResult \<times> bytes list list) option" where
  "sendFrames enc R cfg runs =
     (if pc_Senders cfg \<le> 1
      then (case runs of
              [] \<Rightarrow> None
            | r # rs \<Rightarrow> do { (x, w) \<leftarrow> sendFramesWorker enc R cfg (pc_PPS cfg) r; Some (x, [w]) })
      else do { xs \<leftarrow> runAll (sendFramesWorker enc R cfg (ppsEach cfg)) runs;
                Some (aggregate xs, map snd xs) })"


definition perf_ok :: "prng \<Rightarrow> perfConfig \<Rightarrow> bool" where
  "perf_ok R cfg \<longleftrightarrow> (\<forall>k n. 0 < n \<longrightarrow> rn_IntN R k n < n) \<and> 0 \<le> pc_PayloadMin cfg \<and> pc_PayloadMin cfg \<le> pc_PayloadMax cfg \<and>
     (pc_LatencyStamp cfg \<longrightarrow> pc_StampEvery cfg \<noteq> 0) \<and> 0 \<le> pc_Duration cfg \<and> 0 \<le> pc_PPS cfg"

text \<open>A datagram of the test: the encoding of a frame with an identifier and a payload of the configured size.\<close>

definition testFrame :: "encoder \<Rightarrow> perfConfig \<Rightarrow> bytes \<Rightarrow> bool" where
  "testFrame enc cfg d \<longleftrightarrow> (\<exists>n f. enc n f = Some d \<and> length (f_txid f) = 32 \<and>
     pc_PayloadMin cfg \<le> int (length (f_payload f)) \<and> int (length (f_payload f)) \<le> pc_PayloadMax cfg)"

definition sender_inv :: "encoder \<Rightarrow> perfConfig \<Rightarrow> int \<Rightarrow> sender \<Rightarrow> bool" where
  "sender_inv enc cfg pps s \<longleftrightarrow> int (se_frames s) * 10 ^ 9 \<le> pc_Duration cfg * pps \<and> se_frames s = length (se_wire s) \<and>
     se_bytes s = sum_list (map length (se_wire s)) \<and> (\<forall>d \<in> set (se_wire s). testFrame enc cfg d)"

lemma div_mult_below: "0 < b \<Longrightarrow> a div b * b \<le> (a :: int)"
  using div_mult_mod_eq [of a b] pos_mod_sign [of b a] by linarith

lemma le_bytes64_length [simp]: "length (le_bytes64 w) = 8"
  by (simp add: le_bytes64_def)

lemma fillRand_length: "length (fst (fillRand R n k)) = n"
  by (induction R n k rule: fillRand.induct) (subst fillRand.simps, auto split: prod.split)

lemma stampPayload_ok:
  assumes "perf_ok R cfg"
  shows "\<exists>p' q. stampPayload cfg t p s = Some (p', s\<lparr>se_stampSeq := q\<rparr>) \<and> length p' = length p"
proof (cases "pc_LatencyStamp cfg \<and> int (se_frames s) mod pc_StampEvery cfg = 0")
  case True
  have "length p' = length p" if "latstamp_Put p a b = Some p'" for a b p'
    using that put_bytes [of p a b] by (cases "StampSize \<le> length p") (auto simp: latstamp_Put_def StampSize_def)
  then have "length (case latstamp_Put p (tk_stamp t) (se_stampSeq s + 1) of None \<Rightarrow> p | Some p' \<Rightarrow> p') = length p"
    by (simp split: option.split)
  then show ?thesis using True assms unfolding stampPayload_def perf_ok_def Let_def by auto
next
  case False
  then have "stampPayload cfg t p s = Some (p, s\<lparr>se_stampSeq := se_stampSeq s\<rparr>)" using assms by (simp add: stampPayload_def perf_ok_def)
  then show ?thesis by blast
qed

lemma payloadLen_ok:
  assumes "perf_ok R cfg"
  shows "pc_PayloadMin cfg \<le> fst (payloadLen R cfg k) \<and> fst (payloadLen R cfg k) \<le> pc_PayloadMax cfg"
proof (cases "pc_PayloadMax cfg - pc_PayloadMin cfg + 1 > 1")
  case True
  then have "rn_IntN R k (nat (pc_PayloadMax cfg - pc_PayloadMin cfg + 1)) < nat (pc_PayloadMax cfg - pc_PayloadMin cfg + 1)"
    using assms unfolding perf_ok_def by (metis zero_less_nat_eq zero_less_one order_less_trans)
  then show ?thesis using True by (simp add: payloadLen_def Let_def)
qed (use assms in \<open>auto simp: payloadLen_def perf_ok_def Let_def\<close>)

lemma sendOne_ok:
  assumes "perf_ok R cfg" "sender_inv enc cfg pps s" "0 \<le> pps" "tk_now t \<le> pc_Duration cfg" "int (se_frames s) < frameTarget (tk_now t) pps"
  shows "\<exists>s'. sendOne enc R cfg t s = Some s' \<and> sender_inv enc cfg pps s'"
proof -
  obtain txid k1 where x: "fillRand R 32 (se_rand s) = (txid, k1)" by fastforce
  obtain len k2 where l: "payloadLen R cfg k1 = (len, k2)" by fastforce
  obtain p k3 where p: "fillRand R (nat len) k2 = (p, k3)" by fastforce
  have b: "pc_PayloadMin cfg \<le> len" "len \<le> pc_PayloadMax cfg" "0 \<le> len"
    using payloadLen_ok [OF assms(1), of k1] l assms(1) by (auto simp: perf_ok_def)
  have len: "length txid = 32" "int (length p) = len" using fillRand_length [of R] x p b(3) by (metis fst_conv, metis fst_conv int_nat_eq)
  obtain p' q where st: "stampPayload cfg t p (s\<lparr>se_rand := k3\<rparr>) = Some (p', s\<lparr>se_rand := k3, se_stampSeq := q\<rparr>)" "length p' = length p"
    using stampPayload_ok [OF assms(1)] by blast
  let ?f = "\<lparr>f_version = 0, f_txid = txid, f_seq = 0, f_sub = zero32, f_payload = p'\<rparr>"
  have tf: "testFrame enc cfg d" if "enc n ?f = Some d" for n d
    unfolding testFrame_def by (rule exI [of _ n], rule exI [of _ ?f]) (use that len st(2) b in simp)
  have "int (se_frames s) + 1 \<le> tk_now t * pps div 10 ^ 9" using assms(5) by (simp add: frameTarget_def)
  then have "(int (se_frames s) + 1) * 10 ^ 9 \<le> tk_now t * pps div 10 ^ 9 * 10 ^ 9" by (rule mult_right_mono) simp
  also have "\<dots> \<le> tk_now t * pps" by (rule div_mult_below) simp
  also have "\<dots> \<le> pc_Duration cfg * pps" using assms(3,4) by (simp add: mult_right_mono)
  finally have "int (Suc (se_frames s)) * 10 ^ 9 \<le> pc_Duration cfg * pps" by simp
  then show ?thesis using assms(2) b st(1) tf x l p
    by (auto simp: sendOne_def sender_inv_def Let_def split: option.split)
qed

lemma senderLoop_ok:
  assumes "perf_ok R cfg" "0 \<le> pps"
  shows "sender_inv enc cfg pps s \<Longrightarrow> \<exists>e s'. senderLoop enc R cfg pps ts s = Some (e, s') \<and> sender_inv enc cfg pps s'"
proof (induction ts arbitrary: s)
  case (Cons t ts)
  then show ?case using sendOne_ok [OF assms(1) Cons.prems assms(2), of t] by (fastforce simp: not_less not_le)
qed auto

definition run_ok :: "encoder \<Rightarrow> perfConfig \<Rightarrow> int \<Rightarrow> sendResult \<times> bytes list \<Rightarrow> bool" where
  "run_ok enc cfg pps x \<longleftrightarrow> int (sr_FramesSent (fst x)) * 10 ^ 9 \<le> pc_Duration cfg * pps \<and> sr_FramesSent (fst x) = length (snd x) \<and>
     sr_BytesSent (fst x) = sum_list (map length (snd x)) \<and> (\<forall>d \<in> set (snd x). testFrame enc cfg d)"

lemma worker_ok:
  assumes "perf_ok R cfg" "0 \<le> pps"
  shows "\<exists>x. sendFramesWorker enc R cfg pps r = Some x \<and> run_ok enc cfg pps x"
proof -
  have "sender_inv enc cfg pps (newSender r)" using assms by (simp add: sender_inv_def newSender_def perf_ok_def)
  then obtain e s where "senderLoop enc R cfg pps (ru_ticks r) (newSender r) = Some (e, s)" "sender_inv enc cfg pps s"
    using senderLoop_ok [OF assms] by blast
  then show ?thesis by (simp add: sendFramesWorker_def run_ok_def rates_def sender_inv_def Let_def)
qed

lemma runAll_ok:
  assumes "\<And>x. x \<in> set xs \<Longrightarrow> \<exists>y. f x = Some y \<and> P y"
  shows "\<exists>ys. runAll f xs = Some ys \<and> length ys = length xs \<and> list_all P ys"
  using assms
proof (induction xs)
  case (Cons x xs)
  obtain y where y: "f x = Some y" "P y" using Cons.prems by force
  obtain ys where "runAll f xs = Some ys" "length ys = length xs" "list_all P ys" using Cons by force
  then show ?case using y by simp
qed simp

lemma runs_total:
  assumes "list_all (run_ok enc cfg pps) xs"
  shows "int (sum_list (map (sr_FramesSent \<circ> fst) xs)) * 10 ^ 9 \<le> int (length xs) * (pc_Duration cfg * pps) \<and>
    sum_list (map (sr_FramesSent \<circ> fst) xs) = length (concat (map snd xs)) \<and>
    sum_list (map (sr_BytesSent \<circ> fst) xs) = sum_list (map length (concat (map snd xs))) \<and>
    (\<forall>d \<in> set (concat (map snd xs)). testFrame enc cfg d)"
  using assms by (induction xs) (auto simp: run_ok_def algebra_simps)

text \<open>The load the test offers.  For a sane configuration (payload bounds in order, stamping every so many frames, a
  generator whose \<^verbatim>\<open>IntN(n)\<close> is below \<open>n\<close>) and whatever the clock, the socket and a cancellation do in between, no
  sender panics; together the senders send at most the target rate times the duration; the counts are those of the
  datagrams written, and each of those is the encoding of a frame with a payload of the configured size.\<close>

lemma senders_keep_the_rate:
  assumes "perf_ok R cfg" "length runs = nat (max 1 (pc_Senders cfg))"
  shows "\<exists>x ws. sendFrames enc R cfg runs = Some (x, ws) \<and>
    int (sr_FramesSent x) * 10 ^ 9 \<le> pc_Duration cfg * pc_PPS cfg \<and>
    sr_FramesSent x = length (concat ws) \<and> sr_BytesSent x = sum_list (map length (concat ws)) \<and>
    (\<forall>d \<in> set (concat ws). testFrame enc cfg d)"
proof (cases "pc_Senders cfg \<le> 1")
  case True
  then obtain r rs where r: "runs = r # rs" using assms(2) by (cases runs) simp_all
  have "0 \<le> pc_PPS cfg" using assms(1) by (simp add: perf_ok_def)
  from worker_ok [OF assms(1) this, of enc r] obtain x where "sendFramesWorker enc R cfg (pc_PPS cfg) r = Some x" "run_ok enc cfg (pc_PPS cfg) x"
    by blast
  then show ?thesis using True r by (cases x) (simp add: sendFrames_def run_ok_def)
next
  case False
  let ?n = "pc_Senders cfg" and ?pps = "ppsEach cfg"
  have p: "0 \<le> pc_PPS cfg" "0 \<le> pc_Duration cfg" using assms(1) by (simp_all add: perf_ok_def)
  have e: "0 \<le> ?pps" "?n * ?pps \<le> pc_PPS cfg"
    using False p div_mult_below [of ?n "pc_PPS cfg"] by (simp_all add: ppsEach_def pos_imp_zdiv_nonneg_iff mult.commute)
  obtain xs where xs: "runAll (sendFramesWorker enc R cfg ?pps) runs = Some xs" "length xs = length runs" "list_all (run_ok enc cfg ?pps) xs"
    using runAll_ok [of runs "sendFramesWorker enc R cfg ?pps" "run_ok enc cfg ?pps"] worker_ok [OF assms(1) e(1)] by blast
  note t = runs_total [OF xs(3)]
  have "int (length xs) * (pc_Duration cfg * ?pps) = pc_Duration cfg * (?n * ?pps)" using xs(2) assms(2) False by simp
  also have "\<dots> \<le> pc_Duration cfg * pc_PPS cfg" using e(2) p(2) by (simp add: mult_left_mono)
  finally have "int (sum_list (map (sr_FramesSent \<circ> fst) xs)) * 10 ^ 9 \<le> pc_Duration cfg * pc_PPS cfg" using t by linarith
  then show ?thesis using False xs(1) t by (simp add: sendFrames_def aggregate_def rates_def Let_def)
qed

end
