(* ===== verification/PerfReport.thy ===== *)
theory PerfReport
  imports PerfTest "HOL-Library.List_Lexorder" "HOL-Library.Char_ord"
begin

text \<open>
  The report of \<^verbatim>\<open>cmd/perf-test\<close> and the order in which its \<^verbatim>\<open>main\<close> collects what the report shows.  The text forms of a
  time and of a duration and the square root are arguments; float64 values are exact rationals, printed with the
  rounding of \<^verbatim>\<open>fmt\<close>.
\<close>

subsection \<open>Formatting\<close>

definition nl :: string where "nl = [newline]"

text \<open>The verb \<^verbatim>\<open>%.nf\<close>: the nearest decimal, ties to the even digit.\<close>

definition roundEven :: "rat \<Rightarrow> int" where
  "roundEven x =
     (let f = \<lfloor>x\<rfloor>; d = x - of_int f
      in if d < 1 / 2 then f else if d > 1 / 2 then f + 1 else if even f then f else f + 1)"

definition padLeft :: "nat \<Rightarrow> string \<Rightarrow> string" where
  "padLeft n s = replicate (n - length s) CHR ''0'' @ s"

definition fmtFixed :: "nat \<Rightarrow> rat \<Rightarrow> string" where
  "fmtFixed n x =
     (let m = nat (roundEven (\<bar>x\<bar> * 10 ^ n)); whole = baseDigits 10 (m div 10 ^ n);
          frac = (if n = 0 then [] else ''.'' @ padLeft n (baseDigits 10 (m mod 10 ^ n)))
      in (if x < 0 then ''-'' else []) @ whole @ frac)"

definition fmtNat :: "nat \<Rightarrow> string" where "fmtNat n = baseDigits 10 n"

definition humanBytes :: "int \<Rightarrow> string" where
  "humanBytes b =
     (if b \<ge> 2 ^ 30 then fmtFixed 2 (of_int b / 2 ^ 30) @ '' GiB''
      else if b \<ge> 2 ^ 20 then fmtFixed 2 (of_int b / 2 ^ 20) @ '' MiB''
      else if b \<ge> 2 ^ 10 then fmtFixed 2 (of_int b / 2 ^ 10) @ '' KiB''
      else Itoa b @ '' B'')"

definition strJoin :: "string \<Rightarrow> string list \<Rightarrow> string" where
  "strJoin sep xs = (case xs of [] \<Rightarrow> [] | x # ys \<Rightarrow> x @ concat (map (\<lambda>y. sep @ y) ys))"

text \<open>A row of a table.\<close>

definition row :: "string list \<Rightarrow> string" where
  "row cells = ''|'' @ concat (map (\<lambda>c. '' '' @ c @ '' |'') cells) @ nl"

definition enDash :: string where "enDash = map char_of [226, 128, 147 :: nat]"
definition emDash :: string where "emDash = map char_of [226, 128, 148 :: nat]"

fun minMax :: "rat list \<Rightarrow> rat \<Rightarrow> rat \<Rightarrow> rat \<times> rat" where
  "minMax [] lo hi = (lo, hi)"
| "minMax (v # vs) lo hi = minMax vs (if v < lo then v else lo) (if v > hi then v else hi)"

definition stats :: "(rat \<Rightarrow> rat) \<Rightarrow> rat list \<Rightarrow> rat \<times> rat \<times> rat \<times> rat" where
  "stats sq vals =
     (if vals = [] then (0, 0, 0, 0)
      else let (lo, hi) = minMax vals (hd vals) (hd vals);
               mean = sum_list vals / of_nat (length vals);
               sumSq = sum_list (map (\<lambda>v. (v - mean) * (v - mean)) vals)
           in (lo, hi, mean, sq (sumSq / of_nat (length vals))))"

subsection \<open>The report\<close>

record textLib =
  tx_duration :: "int \<Rightarrow> string"
  tx_root :: "rat \<Rightarrow> rat"

record testResults =
  ts_Config :: perfConfig
  ts_NumGroups :: nat
  ts_StartTime :: string
  ts_Send :: sendResult
  ts_MetricsDelta :: "(string \<times> rat) list option"
  ts_FlowPktDelta :: "(string \<times> rat) list"
  ts_FlowByteDelta :: "(string \<times> rat) list"
  ts_IfaceBefore :: "(string \<times> ifaceStats) list"
  ts_IfaceAfter :: "(string \<times> ifaceStats) list"
  ts_RecvCounts :: "(string \<times> int) list"
  ts_TsharkCounts :: "(string \<times> (string \<times> nat) list) list"

definition reportConfig :: "textLib \<Rightarrow> testResults \<Rightarrow> string" where
  "reportConfig T r =
     (let c = ts_Config r in
      ''# Throughput Performance Report'' @ nl @ nl @ ''## Test Configuration'' @ nl @ nl @
      row [''Parameter'', ''Value''] @ ''|-----------|-------|'' @ nl @
      row [''Date'', ts_StartTime r] @
      row [''Proxy address'', ''`'' @ pc_ProxyAddr c @ ''`''] @
      row [''Metrics URL'', ''`'' @ pc_MetricsURL c @ ''`''] @
      row [''Shard bits'', fmtNat (pc_ShardBits c)] @
      row [''Num groups'', fmtNat (ts_NumGroups r)] @
      row [''Payload range'', Itoa (pc_PayloadMin c) @ enDash @ Itoa (pc_PayloadMax c) @ '' bytes''] @
      row [''Target PPS'', Itoa (pc_PPS c)] @
      row [''Senders'', Itoa (pc_Senders c)] @
      row [''Duration'', tx_duration T (pc_Duration c)] @
      row [''LXD collection'', if pc_LXD c then ''true'' else ''false''] @
      row [''Receivers'', strJoin '', '' (pc_Receivers c)] @ nl)"

definition dropPct :: "(string \<times> rat) list \<Rightarrow> rat" where
  "dropPct d =
     (if al_val ''bsp_packets_received_total'' d > 0
      then al_val ''bsp_packets_dropped_total'' d / al_val ''bsp_packets_received_total'' d * 100 else 0)"

text \<open>The conversion of a float64 to an int64 truncates.\<close>

definition truncRat :: "rat \<Rightarrow> int" where
  "truncRat x = (if x < 0 then - \<lfloor>- x\<rfloor> else \<lfloor>x\<rfloor>)"

text \<open>\<^verbatim>\<open>Duration.Round\<close> to milliseconds, halves away from zero, of a duration that is not negative.\<close>

definition roundMs :: "int \<Rightarrow> int" where
  "roundMs d = (d + 500000) div 10 ^ 6 * 10 ^ 6"

definition reportResults :: "textLib \<Rightarrow> testResults \<Rightarrow> string" where
  "reportResults T r =
     ''## Results'' @ nl @ nl @ row [''Metric'', ''Value''] @ ''|--------|-------|'' @ nl @
     row [''Target PPS'', Itoa (pc_PPS (ts_Config r))] @
     row [''Actual PPS'', fmtFixed 0 (sr_ActualPPS (ts_Send r))] @
     row [''Frames sent'', fmtNat (sr_FramesSent (ts_Send r))] @
     row [''Bytes sent'', humanBytes (int (sr_BytesSent (ts_Send r)))] @
     row [''TX throughput'', fmtFixed 2 (sr_Mbps (ts_Send r)) @ '' Mbps''] @
     row [''Duration'', tx_duration T (roundMs (sr_Elapsed (ts_Send r)))] @
     (case ts_MetricsDelta r of
        None \<Rightarrow> []
      | Some d \<Rightarrow>
          row [''Proxy RX packets'', fmtFixed 0 (al_val ''bsp_packets_received_total'' d)] @
          row [''Proxy RX bytes'', humanBytes (truncRat (al_val ''bsp_bytes_received_total'' d))] @
          row [''Proxy forwarded packets'', fmtFixed 0 (al_val ''bsp_packets_forwarded_total'' d)] @
          row [''Proxy forwarded bytes'', humanBytes (truncRat (al_val ''bsp_bytes_forwarded_total'' d))] @
          row [''Proxy dropped packets'', fmtFixed 0 (al_val ''bsp_packets_dropped_total'' d)] @
          row [''Drop rate'', fmtFixed 2 (dropPct d) @ ''%''] @
          row [''Egress errors'', fmtFixed 0 (al_val ''bsp_egress_errors_total'' d)] @
          row [''Ingress errors'', fmtFixed 0 (al_val ''bsp_ingress_errors_total'' d)]) @ nl"

definition reportSummary :: "testResults \<Rightarrow> string" where
  "reportSummary r =
     (let sent = ''- **Frames sent:** '' @ fmtNat (sr_FramesSent (ts_Send r)) @ nl;
          thru = ''- **Achieved throughput:** '' @ fmtFixed 0 (sr_ActualPPS (ts_Send r)) @ '' pps / '' @ fmtFixed 2 (sr_Mbps (ts_Send r)) @ '' Mbps'' @ nl
      in ''## Summary'' @ nl @ nl @
         (case ts_MetricsDelta r of
            None \<Rightarrow> sent @ thru
          | Some d \<Rightarrow>
              sent @
              ''- **Proxy received:** '' @ fmtFixed 0 (al_val ''bsp_packets_received_total'' d) @ nl @
              ''- **Proxy forwarded:** '' @ fmtFixed 0 (al_val ''bsp_packets_forwarded_total'' d) @ nl @
              ''- **Proxy dropped:** '' @ fmtFixed 0 (al_val ''bsp_packets_dropped_total'' d) @ '' ('' @ fmtFixed 2 (dropPct d) @ ''%)'' @ nl @
              thru) @ nl)"

text \<open>The groups of the proxy's egress, by group.  Groups with the same label keep the order of the map.\<close>

definition groupRows :: "testResults \<Rightarrow> (string \<times> rat \<times> rat) list" where
  "groupRows r =
     sort_key fst (map (\<lambda>(labels, pkts). (extractGroupFromLabels labels, pkts, al_val labels (ts_FlowByteDelta r))) (ts_FlowPktDelta r))"

definition share :: "rat \<Rightarrow> rat \<Rightarrow> rat" where
  "share x whole = (if whole > 0 then x / whole * 100 else 0)"

definition reportGroups :: "textLib \<Rightarrow> testResults \<Rightarrow> string" where
  "reportGroups T r =
     ''## Multicast Group Distribution (Proxy Egress)'' @ nl @ nl @
     (if ts_FlowPktDelta r = [] then
        ''*No flow metrics available (proxy metrics not scraped or no traffic forwarded).*'' @ nl @ nl
      else
        let gs = groupRows r; pkts = sum_list (map (fst \<circ> snd) gs); byts = sum_list (map (snd \<circ> snd) gs);
            (lo, hi, mean, sd) = stats (tx_root T) (map (fst \<circ> snd) gs) in
        ''Packets sent by proxy per shard group (from `bsp_flow_packets_total`):'' @ nl @ nl @
        row [''Group'', ''Packets'', ''Bytes'', ''% of Total''] @ ''|-------|---------|-------|------------|'' @ nl @
        concat (map (\<lambda>(g, p, b). row [groupIndexToAddr g, fmtFixed 0 p, humanBytes (truncRat b), fmtFixed 1 (share p pkts) @ ''%'']) gs) @
        row [''**Total**'', ''**'' @ fmtFixed 0 pkts @ ''**'', ''**'' @ humanBytes (truncRat byts) @ ''**'', ''**100%**''] @ nl @
        ''**Distribution stats:** min='' @ fmtFixed 0 lo @ '', max='' @ fmtFixed 0 hi @ '', mean='' @ fmtFixed 0 mean @
          '', stddev='' @ fmtFixed 0 sd @ nl @ nl)"

text \<open>The delivery matrix: the packets of a group at a receiver, and the totals of the receivers.\<close>

definition cellCount :: "testResults \<Rightarrow> string \<Rightarrow> string \<Rightarrow> nat" where
  "cellCount r recv g = al_val g (case map_of (ts_TsharkCounts r) recv of None \<Rightarrow> [] | Some m \<Rightarrow> m)"

definition sortedGroups :: "testResults \<Rightarrow> string list" where
  "sortedGroups r = sort (remdups (concat (map (map fst \<circ> snd) (ts_TsharkCounts r))))"

definition recvTotals :: "testResults \<Rightarrow> (string \<times> nat) list" where
  "recvTotals r =
     fold (\<lambda>g m. fold (\<lambda>recv m. al_add recv (cellCount r recv g) m) (pc_Receivers (ts_Config r)) m) (sortedGroups r) []"

definition matrixRow :: "testResults \<Rightarrow> string \<Rightarrow> string" where
  "matrixRow r g =
     (let rs = pc_Receivers (ts_Config r) in
      ''| '' @ g @ '' |'' @
      concat (map (\<lambda>recv. if cellCount r recv g > 0 then '' '' @ fmtNat (cellCount r recv g) @ '' |'' else '' '' @ emDash @ '' |'') rs) @
      '' '' @ strJoin '', '' (filter (\<lambda>recv. cellCount r recv g > 0) rs) @ '' |'' @ nl)"

text \<open>For a width below 32: above it the number of groups is zero and the quotient of the code infinite.\<close>

definition expectedShare :: "testResults \<Rightarrow> string \<Rightarrow> rat" where
  "expectedShare r recv = of_nat (length (groupsForReceiver recv)) / of_nat (ts_NumGroups r) * 100"

definition shareRow :: "testResults \<Rightarrow> string \<Rightarrow> string" where
  "shareRow r recv =
     (let fwd = (case ts_MetricsDelta r of None \<Rightarrow> 0 | Some d \<Rightarrow> al_val ''bsp_packets_forwarded_total'' d);
          actual = al_val recv (recvTotals r)
      in row [recv, fmtNat (length (groupsForReceiver recv)) @ ''/'' @ fmtNat (ts_NumGroups r),
              fmtFixed 0 (expectedShare r recv) @ ''%'', fmtNat actual, fmtFixed 1 (share (of_nat actual) fwd) @ ''%''])"

definition reportMatrix :: "testResults \<Rightarrow> string" where
  "reportMatrix r =
     (let rs = pc_Receivers (ts_Config r) in
      ''## Per-Group Per-Receiver Delivery Matrix'' @ nl @ nl @
      (if ts_TsharkCounts r \<noteq> [] then
         ''Packets received at each receiver, broken down by destination multicast group (from `tshark` post-processing):'' @ nl @ nl @
         ''| Group |'' @ concat (map (\<lambda>recv. '' '' @ recv @ '' |'') rs) @ '' Subscribed receivers |'' @ nl @
         ''|-------|'' @ concat (map (\<lambda>recv. ''--------|'') rs) @ ''------------------------|'' @ nl @
         concat (map (matrixRow r) (sortedGroups r)) @
         ''| **Total** |'' @ concat (map (\<lambda>recv. '' **'' @ fmtNat (al_val recv (recvTotals r)) @ ''** |'') rs) @ '' |'' @ nl @ nl @
         ''**Expected vs actual traffic share** (due to uneven group subscriptions):'' @ nl @ nl @
         row [''Receiver'', ''Groups'', ''Expected share'', ''Actual packets'', ''Actual share''] @
         ''|----------|--------|----------------|----------------|--------------|'' @ nl @
         concat (map (shareRow r) rs) @ nl
       else if pc_LXD (ts_Config r) then ''*tshark data not available. Ensure tshark is installed on receiver VMs.*'' @ nl @ nl
       else ''*LXD collection disabled (`-lxd` not set). No per-group per-receiver data.*'' @ nl @ nl))"

definition ifaceRows :: "testResults \<Rightarrow> string \<Rightarrow> string" where
  "ifaceRows r vm =
     (case (map_of (ts_IfaceBefore r) vm, map_of (ts_IfaceAfter r) vm) of
        (Some b, Some a) \<Rightarrow>
          (let d = ifaceStatsDelta b a; u = (\<lambda>w :: u64. fmtNat (unat w)); hb = (\<lambda>w :: u64. humanBytes (sint w)) in
           row [vm, ''RX'', u (st_RXPackets d), hb (st_RXBytes d), u (st_RXErrors d), u (st_RXDropped d)] @
           row [vm, ''TX'', u (st_TXPackets d), hb (st_TXBytes d), u (st_TXErrors d), u (st_TXDropped d)])
      | _ \<Rightarrow> [])"

definition reportIfaces :: "testResults \<Rightarrow> string" where
  "reportIfaces r =
     ''## Interface Statistics'' @ nl @ nl @
     (if ts_IfaceBefore r \<noteq> [] \<and> ts_IfaceAfter r \<noteq> [] then
        ''Delta of `ip -s link show enp6s0` before and after test:'' @ nl @ nl @
        row [''VM'', ''Direction'', ''Packets'', ''Bytes'', ''Errors'', ''Dropped''] @
        ''|----|-----------|---------|-------|--------|---------|'' @ nl @
        concat (map (ifaceRows r) (''proxy'' # pc_Receivers (ts_Config r))) @ nl
      else if pc_LXD (ts_Config r) then ''*Interface stats collection failed.*'' @ nl @ nl
      else ''*LXD collection disabled (`-lxd` not set).*'' @ nl @ nl)"

definition reportDelivery :: "testResults \<Rightarrow> string" where
  "reportDelivery r =
     (if ts_RecvCounts r \<noteq> [] then
        ''## Receiver Delivery (recv-test-frames)'' @ nl @ nl @ row [''Receiver'', ''Frames received''] @
        ''|----------|-----------------|'' @ nl @
        concat (map (\<lambda>recv. row [recv, Itoa (al_val recv (ts_RecvCounts r))]) (pc_Receivers (ts_Config r))) @ nl
      else [])"

definition reportMembership :: "testResults \<Rightarrow> string" where
  "reportMembership r =
     ''## Node Group Membership'' @ nl @ nl @ row [''Receiver'', ''Groups joined'', ''Expected share''] @
     ''|----------|---------------|----------------|'' @ nl @
     concat (map (\<lambda>recv. row [recv, strJoin '', '' (groupsForReceiver recv), fmtFixed 0 (expectedShare r recv) @ ''%''])
       (pc_Receivers (ts_Config r))) @ nl"

definition generateReport :: "textLib \<Rightarrow> testResults \<Rightarrow> string" where
  "generateReport T r =
     reportConfig T r @ reportResults T r @ reportSummary r @ reportGroups T r @ reportMatrix r @ reportIfaces r @
     reportDelivery r @ reportMembership r"


subsection \<open>The run\<close>

text \<open>What the outside answers: the proxy's endpoints, the two scrapes, the commands run on the virtual machines (their
  output or their error), the writes of the receivers that could be started, and the senders' loops.\<close>

record perf_world =
  pw_health :: "string \<Rightarrow> http_reply"
  pw_scrapes :: "http_reply \<times> http_reply"
  pw_linkBefore :: "string \<Rightarrow> string + string"
  pw_linkAfter :: "string \<Rightarrow> string + string"
  pw_recv :: "string \<Rightarrow> string list option"
  pw_tshark :: "string \<Rightarrow> string + string"
  pw_runs :: "sender_run list"
  pw_start :: string

definition collectIfaceStats :: "(string \<Rightarrow> string + string) \<Rightarrow> string list \<Rightarrow> (string \<times> ifaceStats) list" where
  "collectIfaceStats run vms =
     fold (\<lambda>vm m. case run vm of Inl e \<Rightarrow> m | Inr out \<Rightarrow> al_put vm (parseIfaceStats out) m) vms []"

definition recvCounts :: "(string \<Rightarrow> string list option) \<Rightarrow> string list \<Rightarrow> (string \<times> int) list" where
  "recvCounts out receivers =
     fold (\<lambda>vm m. if groupsForReceiver vm = [] then m
                 else case out vm of
                        None \<Rightarrow> m
                      | Some chunks \<Rightarrow>
                          al_put vm (rp_count (fold recvWriter_Write chunks \<lparr>rp_count = 0, rp_out = [], rp_partial = []\<rparr>)) m)
       receivers []"

definition tsharkCounts :: "(string \<Rightarrow> string + string) \<Rightarrow> string list \<Rightarrow> (string \<times> (string \<times> nat) list) list" where
  "tsharkCounts run receivers =
     fold (\<lambda>vm m. case run vm of Inl e \<Rightarrow> m | Inr out \<Rightarrow> al_put vm (tsharkGroupCounts out) m) receivers []"

definition perfResults :: "perf_world \<Rightarrow> perfConfig \<Rightarrow> sendResult \<Rightarrow> testResults" where
  "perfResults W cfg send =
     (let delta = (case (scrapeMetrics (fst (pw_scrapes W)), scrapeMetrics (snd (pw_scrapes W))) of
                     (Inr b, Inr a) \<Rightarrow> Some (b, a) | _ \<Rightarrow> None);
          vms = ''proxy'' # pc_Receivers cfg;
          flow = (\<lambda>metric. case delta of None \<Rightarrow> [] | Some (b, a) \<Rightarrow> flowDelta b a metric)
      in \<lparr>ts_Config = cfg, ts_NumGroups = 2 ^ pc_ShardBits cfg mod 2 ^ 32, ts_StartTime = pw_start W, ts_Send = send,
          ts_MetricsDelta = map_option (\<lambda>(b, a). metricsDelta b a) delta,
          ts_FlowPktDelta = flow ''bsp_flow_packets_total'', ts_FlowByteDelta = flow ''bsp_flow_bytes_total'',
          ts_IfaceBefore = (if pc_LXD cfg then collectIfaceStats (pw_linkBefore W) vms else []),
          ts_IfaceAfter = (if pc_LXD cfg then collectIfaceStats (pw_linkAfter W) vms else []),
          ts_RecvCounts = (if pc_LXD cfg then recvCounts (pw_recv W) (pc_Receivers cfg) else []),
          ts_TsharkCounts = (if pc_LXD cfg then tsharkCounts (pw_tshark W) (pc_Receivers cfg) else [])\<rparr>)"

text \<open>\<^const>\<open>None\<close>: a sender panics.  An error before the senders start ends the run.\<close>

definition perf_main :: "textLib \<Rightarrow> encoder \<Rightarrow> prng \<Rightarrow> perf_world \<Rightarrow> cmdline \<Rightarrow> (string + string) option" where
  "perf_main T enc R W fl =
     (let cfg = parseFlags fl in
      case checkHealth (pw_health W) of
        Some e \<Rightarrow> Some (Inl (''pre-flight health check failed: '' @ e))
      | None \<Rightarrow> do { (send, wire) \<leftarrow> sendFrames enc R cfg (pw_runs W);
                     Some (Inr (generateReport T (perfResults W cfg send))) })"

text \<open>The total of a receiver is the number of packets of its capture, whatever the other receivers saw.\<close>

lemma al_val_add [simp]: "al_val k (al_add k' v m) = (if k = k' then al_val k m + v else al_val k m)"
  by (simp add: al_add_def)

lemma fold_row: "distinct rs \<Longrightarrow> al_val k (fold (\<lambda>recv m. al_add recv (f recv) m) rs m) = (al_val k m + (if k \<in> set rs then f k else 0) :: nat)"
  by (induction rs arbitrary: m) auto

lemma fold_rows:
  assumes "distinct rs" "k \<in> set rs"
  shows "al_val k (fold (\<lambda>g m. fold (\<lambda>recv m. al_add recv (f recv g) m) rs m) gs m) = (al_val k m + sum_list (map (f k) gs) :: nat)"
  by (induction gs arbitrary: m) (simp_all add: fold_row [OF assms(1)] assms(2))

lemma sum_over_keys:
  assumes "distinct (map fst m)" "distinct gs" "set (map fst m) \<subseteq> set gs"
  shows "sum_list (map (\<lambda>g. al_val g m) gs) = (sumCounts m :: nat)"
proof -
  have z: "al_val g m = 0" if "g \<notin> set (map fst m)" for g using that map_of_eq_None_iff [of m g] by (simp add: al_val_def)
  have "sum_list (map (\<lambda>g. al_val g m) gs) = sum (\<lambda>g. al_val g m) (set gs)" by (rule sum_list_distinct_conv_sum_set [OF assms(2)])
  also have "\<dots> = sum (\<lambda>g. al_val g m) (set (map fst m))" using assms(3) z by (intro sum.mono_neutral_right) auto
  also have "\<dots> = sum_list (map (\<lambda>g. al_val g m) (map fst m))" by (rule sum_list_distinct_conv_sum_set [OF assms(1), symmetric])
  also have "map (\<lambda>g. al_val g m) (map fst m) = map snd m" using assms(1) by (auto simp: al_val_def)
  finally show ?thesis by (simp add: sumCounts_def)
qed

lemma matrix_totals:
  assumes "distinct (pc_Receivers (ts_Config r))" "recv \<in> set (pc_Receivers (ts_Config r))"
    "map_of (ts_TsharkCounts r) recv = Some m" "distinct (map fst m)"
  shows "al_val recv (recvTotals r) = sumCounts m"
proof -
  have "set (map fst m) \<subseteq> set (sortedGroups r)" using map_of_SomeD [OF assms(3)] by (force simp: sortedGroups_def)
  moreover have "distinct (sortedGroups r)" by (simp add: sortedGroups_def)
  ultimately have "sum_list (map (\<lambda>g. al_val g m) (sortedGroups r)) = sumCounts m" using sum_over_keys [OF assms(4)] by blast
  then show ?thesis unfolding recvTotals_def fold_rows [OF assms(1,2)] by (simp add: cellCount_def assms(3) al_val_def)
qed

end
