(* ===== verification/TestTools.thy ===== *)
theory TestTools
  imports Tools
begin

text \<open>
  The programs around the loops of \<^verbatim>\<open>Tools\<close>: the send loops of \<^verbatim>\<open>send-test-frames\<close> with what they write and when they
  sleep, the set-up and the report of \<^verbatim>\<open>latency-sink\<close>, and the set-up of \<^verbatim>\<open>recv-test-frames\<close>.  The encoders of
  shard-common, the kernel, \<^verbatim>\<open>net.ParseIP\<close> and the command line are arguments.
\<close>

subsection \<open>send-test-frames\<close>

record send_lib =
  sl_lib :: lib
  sl_Encode :: "nat \<Rightarrow> Frame \<Rightarrow> bytes option"
  sl_EncodeBlockAnnounce :: "bytes \<Rightarrow> bytes \<Rightarrow> bytes"
  sl_writes :: "bytes \<Rightarrow> bool"
  sl_EncodeBlock :: "nat \<Rightarrow> byte \<Rightarrow> bytes \<Rightarrow> u64 \<Rightarrow> u64 \<Rightarrow> bytes \<Rightarrow> bytes option"

text \<open>A negative payload size panics when the payload is made; the model has none.\<close>

record sendFlags =
  sf_count :: int
  sf_interval :: int
  sf_shardBits :: nat
  sf_spread :: bool
  sf_fragMTU :: int
  sf_payloadSize :: nat
  sf_blockAnnounce :: bool

definition sendFlagsOf :: "cmdline \<Rightarrow> sendFlags" where
  "sendFlagsOf fl =
     \<lparr>sf_count = given (fl_int fl ''count'') 16, sf_interval = given (fl_int fl ''interval'') 200 * 10 ^ 6,
      sf_shardBits = given (fl_uint fl ''shard-bits'') 2, sf_spread = given (fl_bool fl ''spread'') False,
      sf_fragMTU = given (fl_int fl ''frag-mtu'') 0, sf_payloadSize = nat (given (fl_int fl ''payload-size'') 28),
      sf_blockAnnounce = given (fl_bool fl ''block-announce'') False\<rparr>"

text \<open>What the program does: it writes a datagram, sleeps, or exits with a message.\<close>

datatype send_act = Wrote bytes | Slept int | Fatal string

definition pause :: "int \<Rightarrow> send_act list" where
  "pause interval = (if interval > 0 then [Slept interval] else [])"

definition connWrite :: "send_lib \<Rightarrow> bytes \<Rightarrow> send_act list" where
  "connWrite S d = (if sl_writes S d then [Wrote d] else [Fatal ''send''])"

definition sendFrame :: "send_lib \<Rightarrow> Frame \<Rightarrow> nat \<Rightarrow> int \<Rightarrow> send_act list" where
  "sendFrame S f n interval =
     (case sl_Encode S n f of None \<Rightarrow> [Fatal ''encode frame''] | Some d \<Rightarrow> connWrite S d @ pause interval)"

definition fragActs :: "send_lib \<Rightarrow> bytes \<Rightarrow> bytes \<Rightarrow> nat \<Rightarrow> u64 \<Rightarrow> send_act list" where
  "fragActs S txID payload dataSize seqBase =
     (let ds = sendFragments (sl_lib S) txID payload dataSize seqBase
      in concat (map (connWrite S) ds) @ (if length ds < fragCount dataSize payload then [Fatal ''EncodeFragment''] else []))"

definition testPayload :: "nat \<Rightarrow> bytes" where
  "testPayload n = map of_nat [0..<n]"

text \<open>One frame of the loops: fragments when a fragment size is set and the payload is larger, a frame otherwise, and
  the sleep of the loop.\<close>

definition sendUnit :: "send_lib \<Rightarrow> sendFlags \<Rightarrow> bytes \<Rightarrow> nat \<Rightarrow> send_act list" where
  "sendUnit S fl txID seq =
     (let payload = testPayload (sf_payloadSize fl); ds = fragDataSize (sf_fragMTU fl)
      in (if ds > 0 \<and> length payload > ds then fragActs S txID payload ds (of_nat (seq + 1))
          else sendFrame S \<lparr>f_version = 0, f_txid = txID, f_seq = 0, f_sub = zero32, f_payload = payload\<rparr>
                 (HeaderSizeV2 + length payload) (sf_interval fl)) @ pause (sf_interval fl))"

fun untilFatal :: "send_act list \<Rightarrow> send_act list" where
  "untilFatal [] = []"
| "untilFatal (a # as) = (case a of Fatal m \<Rightarrow> [a] | _ \<Rightarrow> a # untilFatal as)"

text \<open>The turns of a loop that runs \<^verbatim>\<open>count\<close> times, or for ever when it is zero; of the latter the first \<open>n\<close>.\<close>

definition turns :: "int \<Rightarrow> nat \<Rightarrow> nat list" where
  "turns cnt n = [0..<(if cnt = 0 then n else nat cnt)]"

definition spreadUnits :: "send_lib \<Rightarrow> sendFlags \<Rightarrow> nat \<Rightarrow> send_act list" where
  "spreadUnits S fl n =
     (let groups = 2 ^ sf_shardBits fl; payload = testPayload (sf_payloadSize fl)
      in concat (map (\<lambda>cycle. concat (map (\<lambda>g. sendUnit S fl (spreadTxID payload (sf_shardBits fl) g) (cycle * groups + g)) [0..<groups]))
           (turns (sf_count fl) n)))"

definition plainUnits :: "send_lib \<Rightarrow> sendFlags \<Rightarrow> nat \<Rightarrow> send_act list" where
  "plainUnits S fl n =
     concat (map (\<lambda>i. sendUnit S fl (testTxID (testPayload (sf_payloadSize fl)) (of_nat i)) i) (turns (sf_count fl) n))"

text \<open>A block announcement: the version, the turn as nonce, and the double hash of the header as content identifier.\<close>

definition announceHeader :: "nat \<Rightarrow> bytes" where
  "announceHeader i = be_bytes32 0x20000000 @ zeros 72 @ be_bytes32 (of_nat i)"

definition announceUnit :: "send_lib \<Rightarrow> sendFlags \<Rightarrow> nat \<Rightarrow> send_act list" where
  "announceUnit S fl i =
     (let header = announceHeader i; body = sl_EncodeBlockAnnounce S header (of_nat i # zeros 31)
      in case sl_EncodeBlock S (HeaderSizeV2 + length body) BlockMsgAnnounce (sha256dOf header) 0xDEADBEEF01020304 (of_nat (i + 1)) body of
           None \<Rightarrow> [Fatal ''EncodeBlock'']
         | Some d \<Rightarrow> connWrite S d @ (if sf_count fl = 0 \<or> int i < sf_count fl - 1 then pause (sf_interval fl) else []))"

definition send_main :: "send_lib \<Rightarrow> sendFlags \<Rightarrow> nat \<Rightarrow> send_act list" where
  "send_main S fl n =
     untilFatal (if sf_blockAnnounce fl then concat (map (announceUnit S fl) (turns (sf_count fl) n))
                 else if sf_spread fl then spreadUnits S fl n else plainUnits S fl n)"

text \<open>An unfragmented frame is followed by two sleeps, one of \<^verbatim>\<open>sendFrame\<close> and one of the loop.\<close>

lemma frame_sleeps_twice:
  assumes "fragDataSize (sf_fragMTU fl) = 0" "sf_interval fl > 0" "sl_writes S d" "sl_Encode S (HeaderSizeV2 + sf_payloadSize fl)
      \<lparr>f_version = 0, f_txid = txID, f_seq = 0, f_sub = zero32, f_payload = testPayload (sf_payloadSize fl)\<rparr> = Some d"
  shows "sendUnit S fl txID seq = [Wrote d, Slept (sf_interval fl), Slept (sf_interval fl)]"
  using assms by (simp add: sendUnit_def sendFrame_def connWrite_def pause_def testPayload_def Let_def)

lemma header_is_80: "length (announceHeader i) = PowHeaderSize"
  by (simp add: announceHeader_def PowHeaderSize_def)

subsection \<open>Multicast joins\<close>

text \<open>The request of a source-specific join: the interface, and two socket addresses of 128 bytes.  \<open>put16\<close> and \<open>put32\<close>
  are the native byte order.\<close>

definition sockStorage :: "(u16 \<Rightarrow> bytes) \<Rightarrow> bytes \<Rightarrow> bytes" where
  "sockStorage put16 ip = put16 10 @ zeros 6 @ take 16 (To16 ip @ zeros 16) @ zeros 104"

definition groupSourceReq :: "(u32 \<Rightarrow> bytes) \<Rightarrow> (u16 \<Rightarrow> bytes) \<Rightarrow> u32 \<Rightarrow> bytes \<Rightarrow> bytes \<Rightarrow> bytes" where
  "groupSourceReq put32 put16 ifindex grp source = put32 ifindex @ zeros 4 @ sockStorage put16 grp @ sockStorage put16 source"

lemma groupSourceReq_length:
  assumes "\<And>w. length (put16 w) = 2" "\<And>w. length (put32 w) = 4"
  shows "length (groupSourceReq put32 put16 i g s) = 264"
  using assms by (simp add: groupSourceReq_def sockStorage_def)

text \<open>A socket call or its refusal, by name.\<close>

fun sysAll :: "(string \<Rightarrow> string option) \<Rightarrow> string list \<Rightarrow> string option" where
  "sysAll ask [] = None"
| "sysAll ask (c # cs) = (case ask c of Some e \<Rightarrow> Some (c @ '': '' @ e) | None \<Rightarrow> sysAll ask cs)"

definition openReceiver :: "(string \<Rightarrow> string option) \<Rightarrow> string option" where
  "openReceiver ask = sysAll ask [''interface'', ''socket'', ''SO_REUSEADDR'', ''SO_REUSEPORT'', ''bind'']"

datatype join = ASM bytes | SSM bytes bytes

text \<open>The groups of \<^verbatim>\<open>latency-sink\<close>, up to the first that is no address or cannot be joined.\<close>

fun sinkJoins :: "(string \<Rightarrow> bytes) \<Rightarrow> (join \<Rightarrow> string option) \<Rightarrow> bytes \<Rightarrow> string list \<Rightarrow> string + join list" where
  "sinkJoins parse ask src [] = Inr []"
| "sinkJoins parse ask src (g0 # gs) =
     (let g = TrimSpace g0 in
      if g = [] then sinkJoins parse ask src gs
      else if parse g = [] then Inl (''invalid group '' @ g)
      else let j = (if src \<noteq> [] then SSM (parse g) src else ASM (parse g))
           in case ask j of
                Some e \<Rightarrow> Inl (''join '' @ g @ '': '' @ e)
              | None \<Rightarrow> (case sinkJoins parse ask src gs of Inl e \<Rightarrow> Inl e | Inr js \<Rightarrow> Inr (j # js)))"

definition sink_setup :: "(string \<Rightarrow> bytes) \<Rightarrow> (string \<Rightarrow> string option) \<Rightarrow> (join \<Rightarrow> string option) \<Rightarrow> string \<Rightarrow> string \<Rightarrow> string + join list" where
  "sink_setup parse ask joins source groupsFlag =
     (case openReceiver ask of
        Some e \<Rightarrow> Inl e
      | None \<Rightarrow> if source \<noteq> [] \<and> parse source = [] then Inl (''invalid -source '' @ source)
                else sinkJoins parse joins (if source = [] then [] else parse source) (splitComma groupsFlag))"

text \<open>\<^verbatim>\<open>recv-test-frames\<close> skips what is no address.\<close>

fun recvJoins :: "(string \<Rightarrow> bytes) \<Rightarrow> (join \<Rightarrow> string option) \<Rightarrow> string list \<Rightarrow> string + join list" where
  "recvJoins parse ask [] = Inr []"
| "recvJoins parse ask (g0 # gs) =
     (let g = TrimSpace g0 in
      if parse g = [] then recvJoins parse ask gs
      else case ask (ASM (parse g)) of
             Some e \<Rightarrow> Inl (''IPV6_JOIN_GROUP '' @ g @ '': '' @ e)
           | None \<Rightarrow> (case recvJoins parse ask gs of Inl e \<Rightarrow> Inl e | Inr js \<Rightarrow> Inr (ASM (parse g) # js)))"

definition recv_setup :: "(string \<Rightarrow> bytes) \<Rightarrow> (string \<Rightarrow> string option) \<Rightarrow> (join \<Rightarrow> string option) \<Rightarrow> string \<Rightarrow> string + join list" where
  "recv_setup parse ask joins groupsFlag =
     (case openReceiver ask of Some e \<Rightarrow> Inl e | None \<Rightarrow> recvJoins parse joins (splitComma groupsFlag))"

subsection \<open>The sink's report\<close>

record sinkReport =
  rp_Datagrams :: nat
  rp_Stamped :: nat
  rp_Unique :: nat
  rp_Dups :: nat
  rp_DecodeErr :: nat
  rp_P50us :: rat
  rp_P95us :: rat
  rp_P99us :: rat
  rp_MaxUs :: rat
  rp_MinUs :: rat

definition microseconds :: "int \<Rightarrow> rat" where
  "microseconds ns = of_int ns / 1000"

definition sink_report :: "sink \<Rightarrow> sinkReport" where
  "sink_report k =
     (let lats = sort (sk_lats k); pct = (\<lambda>p. if lats = [] then 0 else microseconds (percentile (p / 100) lats))
      in \<lparr>rp_Datagrams = sk_datagrams k, rp_Stamped = sk_stamped k, rp_Unique = length (sk_seen k), rp_Dups = sk_dups k,
          rp_DecodeErr = sk_decodeErr k, rp_P50us = pct 50, rp_P95us = pct 95, rp_P99us = pct 99,
          rp_MaxUs = (if lats = [] then 0 else microseconds (last lats)),
          rp_MinUs = (if lats = [] then 0 else microseconds (hd lats))\<rparr>)"

text \<open>The page of the probe: the quantiles and the maximum of the window in seconds, its size and the total.\<close>

record probePage =
  pp_quantiles :: "(string \<times> rat) list"
  pp_max :: rat
  pp_samples :: nat
  pp_total :: u64

definition probe_page :: "probeState \<Rightarrow> probePage" where
  "probe_page p =
     (let (v, total) = probe_snapshot p; sec = (\<lambda>ns. of_int ns / 10 ^ 9); pc = (\<lambda>q. if v = [] then 0 else sec (percentile q v))
      in \<lparr>pp_quantiles = [(''0.5'', pc (1 / 2)), (''0.95'', pc (19 / 20)), (''0.99'', pc (99 / 100))],
          pp_max = (if v = [] then 0 else sec (last v)), pp_samples = length v, pp_total = total\<rparr>)"

text \<open>Every percentile lies between the extremes, and they are in order.\<close>

lemma percentile_in: "v \<noteq> [] \<Longrightarrow> percentile q v \<in> set v"
  by (auto simp: percentile_def Let_def)

lemma percentile_mono:
  assumes "sorted v" "v \<noteq> []" "q \<le> q'"
  shows "percentile q v \<le> percentile q' v"
proof -
  have "nat \<lfloor>q * of_nat (length v)\<rfloor> \<le> nat \<lfloor>q' * of_nat (length v)\<rfloor>"
    using assms(3) by (intro nat_mono floor_mono mult_right_mono) simp_all
  then show ?thesis using assms(1,2) by (auto simp: percentile_def Let_def intro!: sorted_nth_mono)
qed

lemma sorted_ends: "sorted v \<Longrightarrow> x \<in> set v \<Longrightarrow> hd v \<le> x \<and> x \<le> last v"
  by (induction v) auto

lemma report_ordered:
  assumes "sk_lats k \<noteq> []"
  shows "let r = sink_report k in rp_MinUs r \<le> rp_P50us r \<and> rp_P50us r \<le> rp_P95us r \<and> rp_P95us r \<le> rp_P99us r \<and> rp_P99us r \<le> rp_MaxUs r"
proof -
  let ?v = "sort (sk_lats k)"
  have v: "sorted ?v" "?v \<noteq> []" using assms by (simp, metis length_0_conv length_sort)
  have "percentile a ?v \<le> percentile b ?v" if "a \<le> b" for a b using percentile_mono [OF v that] .
  moreover have "hd ?v \<le> x" "x \<le> last ?v" if "x \<in> set ?v" for x using sorted_ends [OF v(1) that] by simp_all
  ultimately show ?thesis using v(2) percentile_in [OF v(2)]
    by (simp add: sink_report_def Let_def microseconds_def divide_right_mono)
qed

end
