(* ===== verification/Spec2Isabelle.thy ===== *)
theory Spec2Isabelle
  imports Prelude Sha256 SubtreeRoot Chains Net RateLimit Common Batch RetryTee Egress Forwarder Sample Handlers Coalesce Beef Dispatch
    Sockets Queueing Worker Tcp ObjIngress Manifest Config Metrics Registration Wiring LifeCycle Tools PerfTest PerfReport TestTools
begin

text \<open>
  \<^bold>\<open>Verification development for shard-proxy\<close>, the ingress proxy of a sharded IPv6 multicast fabric (Go sources under
  \<^verbatim>\<open>src/\<close>).

  \<^bold>\<open>The program.\<close>  Submitters send transactions and BEEF objects over UDP and TCP, tunnel peers push subtrees, blocks and
  BEEF objects over TCP lanes.  Every received unit goes through one dispatcher, which looks at its magic, version and
  the class of the socket it came from, and hands it to the handler of its kind.  The handler checks it, suppresses
  duplicates, gives it a sequence number of its flow, fragments it when it is large or buffers it for coalescing when
  it is small, and queues it on the egress of the goroutine it runs in.  The receive loops flush these queues to one
  multicast socket for each interface, with optional loopback copies through bounded asynchronous tees.  A manifest
  consumer follows the announced shard layout, \<^verbatim>\<open>main\<close> puts the parts together, a recorder counts everything and answers
  the health endpoints, and four small programs generate and measure load.

  \<^bold>\<open>How the code is represented.\<close>  A Go struct is a record, an enumeration a datatype, an unsigned integer a word of its
  width, a byte slice a list of bytes, a Go map a map or an association list.  A function that can panic returns an
  option, \<^const>\<open>None\<close> being the panic; one that returns an error returns a sum or an option as its text says.  State is
  passed explicitly: \<^verbatim>\<open>fstate\<close> is the forwarder's shared state, the egress of the running goroutine and the list of
  recorder events, in order.  Goroutines that share state are step relations or explicit schedules.  The kernel is a
  function from the number of the system call to its result, so that a theorem over all kernels covers every failure.
  Functions of shard-common and of other modules, which are not part of the sources, are fields of records passed
  as arguments (\<open>lib\<close>, \<open>cfg_lib\<close>, \<open>main_lib\<close>, \<open>telemetry\<close>, \<open>send_lib\<close>, \<open>textLib\<close>); what the theorems need of them
  is a named hypothesis (\<open>lib_ok\<close>, \<open>tcp_lib_ok\<close>, \<open>obj_ok\<close>, \<open>telemetry_ok\<close>) or stands in the statement, and is shown to be satisfiable at the
  concrete instances of \<open>Sample\<close> and of the witnesses.

  \<^bold>\<open>The theories.\<close>

  \<^item> \<open>Prelude\<close>, \<open>Net\<close>, \<open>Sha256\<close>: bytes, slices, big-endian codecs and panicking loops; addresses of Go's \<^verbatim>\<open>net\<close>; SHA-256.
  \<^item> \<open>SubtreeRoot\<close> (\<^verbatim>\<open>forwarder/subtreeroot.go\<close>): the Merkle check of a subtree payload, split over goroutines, refines the
    recursive Merkle root for every schedule, decides exactly the well-formed payloads with that root, and accepts the
    classical duplicate of the last hash.
  \<^item> \<open>Chains\<close> (\<^verbatim>\<open>forwarder.go\<close>, \<^verbatim>\<open>reserveSeq\<close> to \<^verbatim>\<open>stampInPlace\<close>): the striped sequence counters, sequentially through the
    contract \<open>seq_alloc\<close> and under any interleaving of lock, load, add and unlock; the stamping of a header.
  \<^item> \<open>RateLimit\<close> (\<^verbatim>\<open>forwarder/ratelimit.go\<close>): token buckets (contract \<open>token_bucket\<close>), the two tiers, eviction of sources.
  \<^item> \<open>Batch\<close>, \<open>RetryTee\<close>, \<open>Egress\<close> (\<^verbatim>\<open>forwarder/egress.go\<close>, \<^verbatim>\<open>retrytee.go\<close>): the write loops (contract \<open>batch_drain\<close>), the tee
    with its goroutine, the queues, \<^verbatim>\<open>Flush\<close> and \<^verbatim>\<open>FlushVia\<close> (contract \<open>target_flush\<close>), the sender goroutine.  Shown:
    what is accepted is a prefix and nothing is lost unreported, the loops end, datagrams are conserved, order is kept.
  \<^item> \<open>Common\<close>, \<open>Forwarder\<close>, \<open>Handlers\<close> (\<^verbatim>\<open>forwarder/forwarder.go\<close>): the vocabulary, construction and setters, dedup, dual
    emission, fragmentation (contract \<open>fragment_sink\<close>) and every frame handler.  Shown: what is queued, to which group,
    with which stamp; fragments reassemble; gates come before claims; duplicates are suppressed.
  \<^item> \<open>Coalesce\<close> (\<^verbatim>\<open>forwarder/coalesce.go\<close>) and \<open>Beef\<close> (\<^verbatim>\<open>forwarder/beef.go\<close>): packing and relay of bundles; submission records,
    admission, the split path and its equivalence with the direct one.
  \<^item> \<open>Dispatch\<close>, \<open>Queueing\<close> (\<^verbatim>\<open>forwarder.go\<close>, \<^verbatim>\<open>DispatchClass\<close>): routing by class (contract \<open>ingress_handler\<close>); no datagram of
    any content makes any handler panic; dispatching queues and never sends.
  \<^item> \<open>Sockets\<close>, \<open>Worker\<close>, \<open>Tcp\<close>, \<open>ObjIngress\<close> (\<^verbatim>\<open>egress.go\<close>, \<^verbatim>\<open>worker/\<close>): error chains, socket creation (contract \<open>opener\<close>),
    the UDP worker, the TCP listener with its three grammars and its batcher, the push lanes (contract
    \<open>conn_server\<close>).  Shown: framing is independent of how the stream is cut, nothing is held at a read that may
    wait, and every descriptor is released on every path, but for the two paths listed as findings.
  \<^item> \<open>Manifest\<close> (\<^verbatim>\<open>manifest/\<close>), \<open>Config\<close> (\<^verbatim>\<open>config/\<close>): the applier fires its hooks exactly on changes, the listener delivers
    what it reads; every check of \<^verbatim>\<open>Load\<close>, and that what it returns is well formed.
  \<^item> \<open>Metrics\<close>, \<open>Registration\<close> (\<^verbatim>\<open>metrics/\<close>): the recorder's methods as calls of its instruments, cached handles,
    sharded flow counters under interleaving, readiness; \<^verbatim>\<open>New\<close> registers everything any later call uses, with the
    labels the call passes; gauges, routes, shutdown functions, the host-info gauge.
  \<^item> \<open>Wiring\<close>, \<open>LifeCycle\<close> (\<^verbatim>\<open>main.go\<close>): start-up as a function from environment and flags to the assembled parts, the
    hooks of the applier; then the process as a step relation over the goroutines it launches, its signals, its peers
    and its watchers.  Shown: readiness means what it says, the shutdown is graceful, a process told to stop exits.
  \<^item> \<open>Tools\<close>, \<open>TestTools\<close>, \<open>PerfTest\<close>, \<open>PerfReport\<close> (\<^verbatim>\<open>cmd/\<close>): the latency stamp, \<^verbatim>\<open>latency-sink\<close>, \<^verbatim>\<open>send-test-frames\<close>,
    \<^verbatim>\<open>recv-test-frames\<close> and \<^verbatim>\<open>perf-test\<close>, with the parser of the metrics page and the report.
  \<^item> \<open>Sample\<close> holds the concrete library at which witnesses are evaluated; it stands for no code.  This theory
    adds what spans all of them: the process as it is started.

  \<^bold>\<open>Loops and bounds.\<close>  Loops are total functions with a termination measure, or recursion over what the environment
  delivers (the results of the reads, the datagrams, the ticks), which is an argument of any length: no fuel is chosen.
  The two loops that could run for ever, \<^verbatim>\<open>packBucket\<close> and the doubling of a row of the address cache (\<open>growLen\<close>), are partial functions
  whose termination is proved where they are used.  The sender of a goroutine may be interleaved with its owner
  in any way.  \<open>stepsBound\<close> in \<open>LifeCycle\<close> is computed from the state, and is a bound that is proved, not assumed.
  The endless mode of \<^verbatim>\<open>send-test-frames\<close> is described by its first \<open>n\<close> turns, for every \<open>n\<close>.

  \<^bold>\<open>Not modelled.\<close>
  \<^item> Code of other modules: the codecs, hash, shard engine, manifest registry and evaluator, claim stores and
    object formats of shard-common, the Prometheus and OpenTelemetry clients, the flag parser.  They are arguments.
  \<^item> The kernel and Go's runtime: system calls are arguments; a goroutine is scheduled arbitrarily where
    several share state (\<open>Chains\<close>, \<open>Metrics\<close>, \<open>RetryTee\<close>, \<open>Egress\<close>, \<open>SubtreeRoot\<close>, \<open>LifeCycle\<close>).  In \<open>Tcp\<close> and \<open>ObjIngress\<close> the
    connections of a listener are handled one after the other; each owns its egress, and what they share
    (counters, claims) is covered by the interleaved theories.
  \<^item> Logging, tracing, help texts, and the initialisation of both in \<^verbatim>\<open>main\<close>: they have no effect on what is sent.  The
    classification of write errors, which is logic, is modelled.
  \<^item> float64 values are exact rationals: rounding of rates, latencies and report figures is not modelled, except
    where the code rounds to print.  Wall-clock time is an argument.
  \<^item> In the tools, running child processes, terminal output and the JSON file; what a child process prints is an
    argument.  The time-out goroutine of \<^verbatim>\<open>recv-test-frames\<close> only ends the process.
\<close>

subsection \<open>The process as it is started\<close>

lemma same_but_events_trans: "same_but_events s t \<Longrightarrow> same_but_events t u \<Longrightarrow> same_but_events s u"
  unfolding same_but_events_def by (metis fstate.surjective fstate.update_convs(7))

lemma recvOne_refused:
  assumes "w_class w = IngressTransaction" "refused IngressTransaction (fst m)"
  shows "\<exists>s'. recvOne L fw w m s = Some s' \<and> same_but_events s s'"
proof -
  have e: "same_but_events s (wemit w ev s)" for ev
    by (simp add: same_but_events_def wemit_def split: option.split list.split)
  obtain s' where s': "DispatchClass L fw (fst m) (snd m) (w_id w) (w_class w) (wemit w (\<lambda>i. PacketReceived i (w_id w) (length (fst m))) s) = Some s'"
    "same_but_events (wemit w (\<lambda>i. PacketReceived i (w_id w) (length (fst m))) s) s'"
    using class_refusal [OF assms(2)] assms(1) by (simp add: same_but_events_def)
  show ?thesis using s' e same_but_events_trans [OF e s'(2)] by (cases m) (simp add: recvOne_def)
qed

lemma recvAll_refused:
  "w_class w = IngressTransaction \<Longrightarrow> \<forall>m \<in> set ms. refused IngressTransaction (fst m) \<Longrightarrow>
   \<exists>s'. fold_opt (recvOne L fw w) ms s = Some s' \<and> same_but_events s s'"
proof (induction ms arbitrary: s)
  case (Cons m ms)
  then obtain s1 where s1: "recvOne L fw w m s = Some s1" "same_but_events s s1"
    using recvOne_refused [of w m L fw s] by auto
  obtain s2 where s2: "fold_opt (recvOne L fw w) ms s1 = Some s2" "same_but_events s1 s2"
    using Cons by (meson list.set_intros(2))
  then show ?case using s1(1) same_but_events_trans [OF s1(2) s2(2)] by simp
qed simp

lemma distinct_positive_ports:
  assumes "distinct (filter (\<lambda>p. p \<noteq> 0) (tcpPorts cfg))"
  shows "distinct (map fst (newTCP cfg ifs) @ map fst (pushLanes cfg ifs))"
  using assms by (auto simp: tcpPorts_def newTCP_def pushLanes_def split: if_splits)



end
